(* ===== verification/Prelude.thy ===== *)
theory Prelude
  imports Main "HOL-Library.Word" "HOL-Library.Multiset"
begin

text \<open>
  The vocabulary every component shares: Rust's \<^verbatim>\<open>Result\<close>, a computation that may
  panic, a list of the collections the component proofs feed to the simplifier, and the
  generic facts about lists and maps that several components need.
  A \<^verbatim>\<open>Result<T, E>\<close> of the code is a value of \<open>('t, 'e) result\<close>; where an
  \<^verbatim>\<open>expect\<close> or \<^verbatim>\<open>unwrap\<close> of the code can fire, the whole result sits
  under \<open>run\<close>, whose \<open>Panic\<close> is the unwinding task.
\<close>

section \<open>Collections of facts\<close>

named_theorems frame_simps \<open>what an operation leaves unchanged\<close>

section \<open>Results and panics\<close>

datatype ('a, 'e) result = Ok 'a | Err 'e

datatype 'a run = Done 'a | Panic

fun is_ok :: "('a, 'e) result \<Rightarrow> bool" where
  "is_ok (Ok _) = True"
| "is_ok (Err _) = False"

fun map_err :: "('e \<Rightarrow> 'f) \<Rightarrow> ('a, 'e) result \<Rightarrow> ('a, 'f) result" where
  "map_err f (Ok x) = Ok x"
| "map_err f (Err e) = Err (f e)"

fun map_ok :: "('a \<Rightarrow> 'b) \<Rightarrow> ('a, 'e) result \<Rightarrow> ('b, 'e) result" where
  "map_ok f (Ok x) = Ok (f x)"
| "map_ok f (Err e) = Err e"

definition and_then :: "('a, 'e) result \<Rightarrow> ('a \<Rightarrow> ('b, 'e) result) \<Rightarrow> ('b, 'e) result" where
  "and_then r f = (case r of Err e \<Rightarrow> Err e | Ok x \<Rightarrow> f x)"

lemma and_then_Ok [simp]: "and_then r f = Ok y \<longleftrightarrow> (\<exists>x. r = Ok x \<and> f x = Ok y)"
  by (cases r) (auto simp: and_then_def)

lemma and_then_simps [simp]: "and_then (Ok x) f = f x" "and_then (Err e) f = Err e"
  by (simp_all add: and_then_def)

fun ok_value :: "('a, 'e) result \<Rightarrow> 'a option" where
  "ok_value (Ok x) = Some x"
| "ok_value (Err e) = None"

lemma ok_value_map_err [simp]: "ok_value (map_err f r) = ok_value r"
  by (cases r) auto

lemma ok_value_map_ok [simp]: "ok_value (map_ok f r) = map_option f (ok_value r)"
  by (cases r) auto

lemma ok_value_None [simp]: "ok_value r = None \<longleftrightarrow> \<not> is_ok r"
  by (cases r) auto

lemma ok_value_Some [simp]: "ok_value r = Some x \<longleftrightarrow> r = Ok x"
  by (cases r) auto

lemma is_ok_conv: "is_ok r \<longleftrightarrow> (\<exists>x. r = Ok x)"
  by (cases r) auto

lemma map_err_eq_Ok [simp]: "map_err f r = Ok x \<longleftrightarrow> r = Ok x"
  by (cases r) auto

lemma map_err_eq_Err [simp]: "map_err f r = Err e \<longleftrightarrow> (\<exists>e'. r = Err e' \<and> e = f e')"
  by (cases r) auto

lemma map_ok_eq_Ok [simp]: "map_ok f r = Ok y \<longleftrightarrow> (\<exists>x. r = Ok x \<and> y = f x)"
  by (cases r) auto

lemma map_ok_eq_Err [simp]: "map_ok f r = Err e \<longleftrightarrow> r = Err e"
  by (cases r) auto

section \<open>Lists and maps\<close>

text \<open>
  A Rust \<^verbatim>\<open>HashMap\<close> filled by a loop of \<^verbatim>\<open>insert\<close>s: later entries win,
  which is \<open>map_of\<close> over the reversed list.
\<close>

definition hash_map :: "('k \<times> 'v) list \<Rightarrow> ('k \<rightharpoonup> 'v)" where
  "hash_map kvs = fold (\<lambda>(k, v) m. m(k \<mapsto> v)) kvs Map.empty"

lemma fold_insert_map_of:
  "fold (\<lambda>(k, v) m. m(k \<mapsto> v)) kvs m = m ++ map_of (rev kvs)"
  by (induction kvs arbitrary: m) (auto simp: map_add_def fun_eq_iff split: option.splits)

lemma hash_map_map_of: "hash_map kvs = map_of (rev kvs)"
  by (simp add: hash_map_def fold_insert_map_of)

lemma dom_hash_map: "dom (hash_map kvs) = fst ` set kvs"
  by (simp add: hash_map_map_of dom_map_of_conv_image_fst)

lemma hash_map_const:
  "hash_map (map (\<lambda>k. (k, v)) ks) = (\<lambda>k. if k \<in> set ks then Some v else None)"
  by (simp add: hash_map_map_of rev_map fun_eq_iff map_of_map_restrict restrict_map_def)

lemma hash_map_keys:
  "hash_map (map (\<lambda>x. (f x, v)) xs) = (\<lambda>k. if k \<in> f ` set xs then Some v else None)"
  using hash_map_const [of v "map f xs"] by (simp add: o_def)

lemma hash_map_distinct:
  assumes "distinct (map fst kvs)"
  shows "hash_map kvs k = Some v \<longleftrightarrow> (k, v) \<in> set kvs"
proof -
  from assms have "distinct (map fst (rev kvs))" by (simp flip: rev_map)
  then show ?thesis by (simp add: hash_map_map_of map_of_eq_Some_iff)
qed

lemma hash_map_perm:
  assumes "mset kvs = mset kvs'" and "distinct (map fst kvs)"
  shows "hash_map kvs = hash_map kvs'"
proof -
  from assms(1) have s: "set kvs = set kvs'" by (metis set_mset_mset)
  from assms have d: "distinct (map fst kvs')"
    by (metis mset_eq_imp_distinct_iff mset_map)
  show ?thesis
  proof
    fix k
    show "hash_map kvs k = hash_map kvs' k"
      using hash_map_distinct [OF assms(2), of k] hash_map_distinct [OF d, of k] s
      by (cases "hash_map kvs k"; cases "hash_map kvs' k") auto
  qed
qed

lemma those_map_Some [simp]: "those (map Some xs) = Some xs"
  by (induction xs) auto

text \<open>A list of unique keys stays unique when the records at some positions change only
  fields other than the key.\<close>

lemma map_update_key:
  assumes "\<And>x. key (f x) = key x"
  shows "map key (map f xs) = map key xs"
  using assms by simp

lemma filter_singleton:
  assumes "distinct (map key xs)" and "x \<in> set xs"
  shows "filter (\<lambda>y. key y = key x) xs = [x]"
  using assms
proof (induction xs)
  case Nil
  then show ?case by simp
next
  case (Cons y ys)
  show ?case
  proof (cases "y = x")
    case True
    with Cons.prems have "filter (\<lambda>z. key z = key x) ys = []"
      by (auto simp: filter_empty_conv image_iff)
    with True show ?thesis by simp
  next
    case False
    with Cons show ?thesis by (auto simp: image_iff)
  qed
qed

lemma filter_first:
  assumes "filter P xs = y # ys"
  shows "y \<in> set xs" and "P y"
proof -
  have "y \<in> set (filter P xs)" by (simp add: assms)
  then show "y \<in> set xs" and "P y" by simp_all
qed

lemma distinct_map_inj:
  assumes "distinct (map key xs)" and "x \<in> set xs" and "y \<in> set xs" and "key x = key y"
  shows "x = y"
  using assms by (auto simp: distinct_map dest: inj_onD)

end
