(* ===== verification/Rust_Text.thy ===== *)
theory Rust_Text
  imports Prelude
begin

text \<open>
  The operations on strings and integers of Rust's standard library that the code uses:
  suffix tests, the \<^verbatim>\<open>Display\<close> of integers, \<^verbatim>\<open>i64::from_str\<close> (what the
  path extractor applies to \<^verbatim>\<open>{version_id}\<close>), and the code points PostgreSQL's
  \<^verbatim>\<open>char_length\<close> counts. A Rust string is its UTF-8 bytes, a \<open>string\<close> here.
\<close>

section \<open>Suffixes\<close>

definition ends_with :: "string \<Rightarrow> string \<Rightarrow> bool" where
  "ends_with s suf \<longleftrightarrow> length suf \<le> length s \<and> drop (length s - length suf) s = suf"

definition strip_suffix :: "string \<Rightarrow> string \<Rightarrow> string option" where
  "strip_suffix s suf =
     (if ends_with s suf then Some (take (length s - length suf) s) else None)"

lemma ends_with_conv: "ends_with s suf \<longleftrightarrow> (\<exists>p. s = p @ suf)"
  unfolding ends_with_def
  by (metis append_eq_conv_conj append_take_drop_id diff_diff_cancel length_append
      length_drop le_add2 add_diff_cancel_right')

lemma strip_suffix_Some [simp]: "strip_suffix s suf = Some p \<longleftrightarrow> s = p @ suf"
  by (auto simp: strip_suffix_def ends_with_conv)

lemma strip_suffix_None: "strip_suffix s suf = None \<longleftrightarrow> \<not> ends_with s suf"
  by (simp add: strip_suffix_def)

section \<open>Code points\<close>

text \<open>A UTF-8 string has as many code points as bytes that are not continuation bytes.\<close>

definition is_continuation :: "char \<Rightarrow> bool" where
  "is_continuation c \<longleftrightarrow> (128::nat) \<le> of_char c \<and> of_char c < (192::nat)"

definition char_length :: "string \<Rightarrow> nat" where
  "char_length s = length (filter (\<lambda>c. \<not> is_continuation c) s)"

lemma char_length_le: "char_length s \<le> length s"
  by (simp add: char_length_def)

section \<open>Decimal integers\<close>

definition i64_min :: int where "i64_min = - (2 ^ 63)"
definition i64_max :: int where "i64_max = 2 ^ 63 - 1"

definition in_i64 :: "int \<Rightarrow> bool" where
  "in_i64 i \<longleftrightarrow> i64_min \<le> i \<and> i \<le> i64_max"

definition digit_char :: "nat \<Rightarrow> char" where
  "digit_char d = char_of (48 + d)"

definition to_digit :: "char \<Rightarrow> nat option" where
  "to_digit c =
     (let n = of_char c in if (48::nat) \<le> n \<and> n \<le> 57 then Some (n - 48) else None)"

fun show_nat :: "nat \<Rightarrow> string" where
  "show_nat n =
     (if n < 10 then [digit_char n] else show_nat (n div 10) @ [digit_char (n mod 10)])"

declare show_nat.simps [simp del]

definition show_int :: "int \<Rightarrow> string" where
  "show_int i = (if i < 0 then CHR ''-'' # show_nat (nat (- i)) else show_nat (nat i))"

text \<open>\<^verbatim>\<open>from_str_radix(10)\<close>: a checked multiplication and a checked addition (or
  subtraction, after a minus sign) per digit.\<close>

fun parse_digits :: "bool \<Rightarrow> int \<Rightarrow> string \<Rightarrow> int option" where
  "parse_digits neg acc [] = Some acc"
| "parse_digits neg acc (c # cs) =
     (case to_digit c of
        None \<Rightarrow> None
      | Some d \<Rightarrow>
          (let m = acc * 10; r = (if neg then m - int d else m + int d)
           in if in_i64 m \<and> in_i64 r then parse_digits neg r cs else None))"

definition parse_i64 :: "string \<Rightarrow> int option" where
  "parse_i64 s =
     (case s of
        [] \<Rightarrow> None
      | c # cs \<Rightarrow>
          if cs = [] \<and> (c = CHR ''+'' \<or> c = CHR ''-'') then None
          else if c = CHR ''+'' then parse_digits False 0 cs
          else if c = CHR ''-'' then parse_digits True 0 cs
          else parse_digits False 0 s)"

lemma to_digit_digit_char [simp]: "d < 10 \<Longrightarrow> to_digit (digit_char d) = Some d"
  by (simp add: to_digit_def digit_char_def Let_def)

lemma to_digit_signs [simp]: "to_digit (CHR ''+'') = None" "to_digit (CHR ''-'') = None"
  by (simp_all add: to_digit_def)

lemma digit_char_not_sign:
  assumes "d < 10"
  shows "digit_char d \<noteq> CHR ''+''" and "digit_char d \<noteq> CHR ''-''"
  using to_digit_digit_char [OF assms] by (metis to_digit_signs option.distinct(1))+

section \<open>Printing and parsing are inverse\<close>

lemma parse_digits_append:
  "parse_digits neg acc (xs @ ys) =
     (case parse_digits neg acc xs of None \<Rightarrow> None | Some a \<Rightarrow> parse_digits neg a ys)"
  by (induction xs arbitrary: acc) (auto simp: Let_def split: option.splits)

lemma parse_digits_in_i64: "parse_digits neg acc s = Some i \<Longrightarrow> in_i64 acc \<Longrightarrow> in_i64 i"
  by (induction s arbitrary: acc) (auto simp: Let_def split: option.splits if_splits)

lemma parse_digits_show_nat:
  assumes "in_i64 (if neg then - int n else int n)"
  shows "parse_digits neg 0 (show_nat n) = Some (if neg then - int n else int n)"
  using assms
proof (induction n rule: show_nat.induct)
  case (1 n)
  show ?case
  proof (cases "n < 10")
    case True
    then show ?thesis
      using "1.prems" by (simp add: show_nat.simps [of n] Let_def in_i64_def i64_min_def i64_max_def)
  next
    case False
    define q r where "q = n div 10" and "r = n mod 10"
    then have n: "n = q * 10 + r" and r: "r < 10" by (simp_all add: div_mult_mod_eq)
    then have int_n: "int n = int q * 10 + int r" by simp
    have show_n: "show_nat n = show_nat q @ [digit_char r]"
      using False by (simp add: show_nat.simps [of n] q_def r_def)
    have prem: "in_i64 (if neg then - int q * 10 - int r else int q * 10 + int r)"
      using "1.prems" n by (auto split: if_splits)
    then have bound: "in_i64 (if neg then - int q else int q)"
        and ten: "in_i64 (if neg then - int q * 10 else int q * 10)"
      using r by (auto simp: in_i64_def i64_min_def i64_max_def split: if_splits)
    have IH: "parse_digits neg 0 (show_nat q) = Some (if neg then - int q else int q)"
      using "1.IH" [OF False] bound unfolding q_def by simp
    show ?thesis
    proof (cases neg)
      case True
      with IH ten prem r int_n show ?thesis by (simp add: show_n parse_digits_append Let_def)
    next
      case neg: False
      with IH ten prem r int_n show ?thesis by (simp add: show_n parse_digits_append Let_def)
    qed
  qed
qed

lemma show_nat_not_Nil: "show_nat n \<noteq> []"
  by (subst show_nat.simps) simp

lemma show_nat_digits: "c \<in> set (show_nat n) \<Longrightarrow> \<exists>d < 10. c = digit_char d"
proof (induction n rule: show_nat.induct)
  case step: (1 n)
  show ?case
  proof (cases "n < 10")
    case True
    with step.prems show ?thesis by (auto simp: show_nat.simps [of n])
  next
    case False
    with step.prems consider "c \<in> set (show_nat (n div 10))" | "c = digit_char (n mod 10)"
      by (auto simp: show_nat.simps [of n])
    then show ?thesis
    proof cases
      case 1
      with step.IH False show ?thesis by blast
    next
      case 2
      then show ?thesis by (intro exI [of _ "n mod 10"]) simp
    qed
  qed
qed

lemma show_nat_first: "\<exists>d cs. d < 10 \<and> show_nat n = digit_char d # cs"
  using show_nat_not_Nil [of n] show_nat_digits [of "hd (show_nat n)" n]
  by (metis list.collapse list.set_sel(1))

lemma parse_i64_show_int: "in_i64 i \<Longrightarrow> parse_i64 (show_int i) = Some i"
proof -
  assume i: "in_i64 i"
  obtain d cs where d: "d < 10" and first: "show_nat (nat i) = digit_char d # cs"
    using show_nat_first by blast
  show ?thesis
  proof (cases "i < 0")
    case True
    then show ?thesis
      using i parse_digits_show_nat [of True "nat (- i)"] show_nat_not_Nil [of "nat (- i)"]
      by (simp add: show_int_def parse_i64_def)
  next
    case False
    then show ?thesis
      using i parse_digits_show_nat [of False "nat i"] first digit_char_not_sign [OF d]
      by (simp add: show_int_def parse_i64_def)
  qed
qed

lemma parse_i64_range: "parse_i64 s = Some i \<Longrightarrow> in_i64 i"
proof -
  assume "parse_i64 s = Some i"
  then obtain neg t where "parse_digits neg 0 t = Some i"
    unfolding parse_i64_def by (auto simp del: parse_digits.simps split: list.splits if_splits)
  moreover have "in_i64 0" by (simp add: in_i64_def i64_min_def i64_max_def)
  ultimately show "in_i64 i" by (rule parse_digits_in_i64)
qed

lemma show_int_inj:
  assumes "show_int i = show_int j" and "in_i64 i" and "in_i64 j"
  shows "i = j"
  using parse_i64_show_int assms by (metis option.inject)

text \<open>A character that is neither a digit nor a sign is not in a printed integer.\<close>

lemma show_int_no_char:
  assumes "to_digit c = None" and "c \<noteq> CHR ''-''"
  shows "c \<notin> set (show_int i)"
proof
  assume "c \<in> set (show_int i)"
  with assms(2) obtain n where "c \<in> set (show_nat n)"
    by (auto simp: show_int_def split: if_splits)
  then obtain d where "d < 10" and "c = digit_char d" using show_nat_digits by blast
  with assms(1) show False by simp
qed

end
