(* ===== verification/Errors.thy ===== *)
theory Errors
  imports Rust_Text
begin

text \<open>
  \<^verbatim>\<open>src/error.rs\<close>: the error enum of the server with its \<^verbatim>\<open>Display\<close>
  texts and its HTTP status, and the provider triple of \<^verbatim>\<open>src/refresh.rs\<close> that
  one of its variants carries. Errors of the libraries (sqlx, reqwest, serde, the S3 SDK)
  are opaque: the code wraps, logs and drops them, and never looks inside.
\<close>

type_synonym bytes = "8 word list"
type_synonym u16 = "16 word"

datatype sqlx_error =
    CheckViolation string
  | UniqueViolation string
  | SequenceLimit string
  | Unavailable string

datatype reqwest_error = Transport string | StatusError nat
datatype serde_error = Malformed string
datatype sdk_error = SdkError string

record terraform_provider =
  tp_hostname :: string
  tp_namespace :: string
  tp_type :: string

datatype terrashine_error =
    DatabaseError sqlx_error
  | ProviderResponseTooLarge nat
  | ProviderResponseFailure reqwest_error
  | ProviderDeserializationError serde_error
  | TerraformServiceNotSupported string string
  | ConcurrentProviderFetch terraform_provider
  | TooManyRequestsInChannel string
  | ProviderGetBuildUrlFailure string u16 string string
  | BrokenRefresherChannel
  | Anyhow anyhow_error
and anyhow_error =
    Message string
  | From_sqlx sqlx_error
  | From_reqwest reqwest_error
  | From_sdk sdk_error
  | From_terrashine terrashine_error
  | With_context string anyhow_error
  | With_error_context reqwest_error anyhow_error

section \<open>HTTP status\<close>

datatype status_code =
    S_OK
  | S_TEMPORARY_REDIRECT
  | S_NOT_FOUND
  | S_TOO_MANY_REQUESTS
  | S_INTERNAL_SERVER_ERROR
  | S_BAD_GATEWAY

fun status_number :: "status_code \<Rightarrow> nat" where
  "status_number S_OK = 200"
| "status_number S_TEMPORARY_REDIRECT = 307"
| "status_number S_NOT_FOUND = 404"
| "status_number S_TOO_MANY_REQUESTS = 429"
| "status_number S_INTERNAL_SERVER_ERROR = 500"
| "status_number S_BAD_GATEWAY = 502"

definition is_success :: "status_code \<Rightarrow> bool" where
  "is_success s \<longleftrightarrow> 200 \<le> status_number s \<and> status_number s < 300"

definition is_client_error :: "status_code \<Rightarrow> bool" where
  "is_client_error s \<longleftrightarrow> 400 \<le> status_number s \<and> status_number s < 500"

definition is_server_error :: "status_code \<Rightarrow> bool" where
  "is_server_error s \<longleftrightarrow> 500 \<le> status_number s \<and> status_number s < 600"

text \<open>\<^verbatim>\<open>impl IntoResponse for TerrashineError\<close>.\<close>

fun error_response :: "terrashine_error \<Rightarrow> status_code" where
  "error_response (DatabaseError _) = S_INTERNAL_SERVER_ERROR"
| "error_response (ProviderResponseTooLarge _) = S_BAD_GATEWAY"
| "error_response (ProviderResponseFailure _) = S_BAD_GATEWAY"
| "error_response (ProviderDeserializationError _) = S_BAD_GATEWAY"
| "error_response (TerraformServiceNotSupported _ _) = S_BAD_GATEWAY"
| "error_response (Anyhow _) = S_INTERNAL_SERVER_ERROR"
| "error_response (ConcurrentProviderFetch _) = S_TOO_MANY_REQUESTS"
| "error_response (TooManyRequestsInChannel _) = S_INTERNAL_SERVER_ERROR"
| "error_response BrokenRefresherChannel = S_INTERNAL_SERVER_ERROR"
| "error_response (ProviderGetBuildUrlFailure _ _ _ _) = S_INTERNAL_SERVER_ERROR"

lemma error_response_cases:
  "error_response e \<in> {S_INTERNAL_SERVER_ERROR, S_BAD_GATEWAY, S_TOO_MANY_REQUESTS}"
  by (cases e) auto

lemma error_response_429:
  "error_response e = S_TOO_MANY_REQUESTS \<longleftrightarrow> (\<exists>p. e = ConcurrentProviderFetch p)"
  by (cases e) auto

lemma error_response_never_success: "\<not> is_success (error_response e)"
  using error_response_cases [of e] by (auto simp: is_success_def)

section \<open>Messages\<close>

text \<open>The \<^verbatim>\<open>#[error(...)]\<close> texts; \<open>anyhow_text\<close> is the text of a wrapped error,
  which belongs to the library it came from.\<close>

definition show_u16 :: "u16 \<Rightarrow> string" where
  "show_u16 p = show_nat (unat p)"

fun display_error :: "(anyhow_error \<Rightarrow> string) \<Rightarrow> terrashine_error \<Rightarrow> string" where
  "display_error anyhow_text (DatabaseError _) = ''Error making request to database''"
| "display_error anyhow_text (ProviderResponseTooLarge limit) =
     ''Response received upstream was too large, limit of '' @ show_nat limit @
     '' bytes reached''"
| "display_error anyhow_text (ProviderResponseFailure _) = ''HTTP Error from upstream''"
| "display_error anyhow_text (ProviderDeserializationError _) =
     ''Error deserializing json response from registry''"
| "display_error anyhow_text (TerraformServiceNotSupported service_type hostname) =
     ''Terraform '' @ service_type @ '' service not supported by '' @ hostname"
| "display_error anyhow_text (ConcurrentProviderFetch _) =
     ''Terrashine concurrent upstream fetch occurred when fetching new terraform provider''"
| "display_error anyhow_text (TooManyRequestsInChannel channel_name) =
     ''Too many requests in channel ('' @ channel_name @ '') caused a timeout''"
| "display_error anyhow_text (ProviderGetBuildUrlFailure hostname port base_url path) =
     ''could not build provider URL with hostname='' @ hostname @ '', port='' @
     show_u16 port @ '', base_url='' @ base_url @ '', path='' @ path @ '' ''"
| "display_error anyhow_text BrokenRefresherChannel =
     ''Broken refresher channel as the receiver has been dropped''"
| "display_error anyhow_text (Anyhow source) = anyhow_text source"

end
