(* ===== verification/Database.thy ===== *)
theory Database
  imports Errors
begin

text \<open>
  The PostgreSQL schema of \<^verbatim>\<open>migrations/20230320234859_initial-schema.sql\<close>: its
  tables as lists of rows, its identity columns and its sequence as next values, its
  constraints as predicates on rows and tables, and the way a statement reaches the server.
  The statements themselves are SQL texts of the components and are modelled there.

  A statement may fail outside the schema: the pool times out, the connection breaks before
  the server sees the statement, or after it has run it and before the reply arrives.
  \<open>faults\<close> is the environment's schedule of such failures, one entry per statement sent;
  after its end nothing fails.
\<close>

section \<open>Tables\<close>

record provider_row =
  pr_id :: int
  pr_hostname :: string
  pr_namespace :: string
  pr_type :: string
  pr_last_refreshed :: nat

record version_row =
  vr_id :: int
  vr_provider_id :: int
  vr_version :: string
  vr_os :: string
  vr_arch :: string
  vr_artifact_id :: "int option"
  vr_artifact_timestamp :: "nat option"

record host_row =
  hr_id :: int
  hr_hostname :: string
  hr_auth_token :: "string option"

datatype fault =
    NoFault
  | LostRequest sqlx_error
  | LostReply sqlx_error

record pg =
  providers :: "provider_row list"
  versions :: "version_row list"
  hosts :: "host_row list"
  provider_ids :: int
  version_ids :: int
  host_ids :: int
  artifact_ids :: int
  now :: nat
  faults :: "fault list"

definition empty_pg :: pg where
  "empty_pg = \<lparr>providers = [], versions = [], hosts = [], provider_ids = 1, version_ids = 1,
     host_ids = 1, artifact_ids = 1, now = 0, faults = []\<rparr>"

section \<open>Constraints\<close>

definition provider_key :: "provider_row \<Rightarrow> string \<times> string \<times> string" where
  "provider_key p = (pr_hostname p, pr_namespace p, pr_type p)"

definition version_key :: "version_row \<Rightarrow> int \<times> string \<times> string \<times> string" where
  "version_key v = (vr_provider_id v, vr_version v, vr_os v, vr_arch v)"

definition host_check :: "string \<Rightarrow> bool" where
  "host_check hostname \<longleftrightarrow> char_length hostname \<le> 253"

definition provider_check :: "string \<Rightarrow> string \<Rightarrow> string \<Rightarrow> bool" where
  "provider_check hostname namespace type \<longleftrightarrow>
     char_length hostname \<le> 253 \<and> char_length namespace \<le> 255 \<and> char_length type \<le> 255"

definition version_check :: "string \<Rightarrow> string \<Rightarrow> string \<Rightarrow> bool" where
  "version_check version os arch \<longleftrightarrow>
     char_length version \<le> 255 \<and> char_length os \<le> 255 \<and> char_length arch \<le> 255"

definition upload_check :: "version_row \<Rightarrow> bool" where
  "upload_check v \<longleftrightarrow>
     (vr_artifact_id v = None \<and> vr_artifact_timestamp v = None) \<or>
     (vr_artifact_id v \<noteq> None \<and> vr_artifact_timestamp v \<noteq> None)"

text \<open>The non-null artifact ids; \<^verbatim>\<open>unique_artifact_id\<close> says they are distinct (a
  unique constraint never relates nulls).\<close>

definition artifact_id_column :: "version_row list \<Rightarrow> int list" where
  "artifact_id_column vs = List.map_filter vr_artifact_id vs"

definition id_ok :: "int \<Rightarrow> int \<Rightarrow> bool" where
  "id_ok next_id i \<longleftrightarrow> 1 \<le> i \<and> i < next_id"

definition seq_ok :: "int \<Rightarrow> bool" where
  "seq_ok s \<longleftrightarrow> 1 \<le> s \<and> s \<le> i64_max + 1"

definition hosts_wf :: "pg \<Rightarrow> bool" where
  "hosts_wf db \<longleftrightarrow>
     distinct (map hr_id (hosts db)) \<and> distinct (map hr_hostname (hosts db)) \<and>
     list_all (\<lambda>r. host_check (hr_hostname r) \<and> id_ok (host_ids db) (hr_id r)) (hosts db) \<and>
     seq_ok (host_ids db)"

definition providers_wf :: "pg \<Rightarrow> bool" where
  "providers_wf db \<longleftrightarrow>
     distinct (map pr_id (providers db)) \<and> distinct (map provider_key (providers db)) \<and>
     list_all (\<lambda>p. provider_check (pr_hostname p) (pr_namespace p) (pr_type p) \<and>
       id_ok (provider_ids db) (pr_id p)) (providers db) \<and>
     seq_ok (provider_ids db)"

definition versions_wf :: "pg \<Rightarrow> bool" where
  "versions_wf db \<longleftrightarrow>
     distinct (map vr_id (versions db)) \<and> distinct (map version_key (versions db)) \<and>
     distinct (artifact_id_column (versions db)) \<and>
     list_all (\<lambda>v. version_check (vr_version v) (vr_os v) (vr_arch v) \<and> upload_check v \<and>
       vr_provider_id v \<in> pr_id ` set (providers db) \<and>
       id_ok (version_ids db) (vr_id v)) (versions db) \<and>
     seq_ok (version_ids db)"

text \<open>Beyond the schema: artifact ids are handed out by the sequence only.\<close>

definition artifacts_wf :: "pg \<Rightarrow> bool" where
  "artifacts_wf db \<longleftrightarrow>
     list_all (id_ok (artifact_ids db)) (artifact_id_column (versions db)) \<and>
     seq_ok (artifact_ids db)"

definition pg_wf :: "pg \<Rightarrow> bool" where
  "pg_wf db \<longleftrightarrow> hosts_wf db \<and> providers_wf db \<and> versions_wf db \<and> artifacts_wf db"

lemma pg_wf_empty: "pg_wf empty_pg"
  by (simp add: pg_wf_def hosts_wf_def providers_wf_def versions_wf_def artifacts_wf_def
      empty_pg_def artifact_id_column_def seq_ok_def i64_max_def map_filter_simps)

lemmas wf_defs = pg_wf_def hosts_wf_def providers_wf_def versions_wf_def artifacts_wf_def

section \<open>Statements\<close>

type_synonym 'a statement = "pg \<Rightarrow> ('a, sqlx_error) result \<times> pg"

text \<open>\<^verbatim>\<open>nextval\<close>: the sequence moves on even when the statement fails later, and a
  bigint sequence that has passed its maximum is an error.\<close>

definition nextval :: "int \<Rightarrow> (int, sqlx_error) result" where
  "nextval s = (if s \<le> i64_max then Ok s else Err (SequenceLimit ''nextval''))"

fun send_statement :: "'a statement \<Rightarrow> 'a statement" where
  "send_statement q db =
     (case faults db of
        [] \<Rightarrow> q db
      | NoFault # fs \<Rightarrow> q (db\<lparr>faults := fs\<rparr>)
      | LostRequest e # fs \<Rightarrow> (Err e, db\<lparr>faults := fs\<rparr>)
      | LostReply e # fs \<Rightarrow> (Err e, snd (q (db\<lparr>faults := fs\<rparr>))))"

declare send_statement.simps [simp del]

text \<open>What holds of a statement that reaches the server holds of sending it.\<close>

definition fault_blind :: "(pg \<Rightarrow> bool) \<Rightarrow> bool" where
  "fault_blind P \<longleftrightarrow> (\<forall>db fs. P (db\<lparr>faults := fs\<rparr>) = P db)"

lemma send_statement_keeps:
  assumes "fault_blind P" and "\<And>db. P db \<Longrightarrow> P (snd (q db))" and "P db"
  shows "P (snd (send_statement q db))"
  using assms
  by (auto simp: send_statement.simps fault_blind_def split: list.split fault.split)

lemma send_statement_Ok:
  assumes "send_statement q db = (Ok x, db')"
  shows "\<exists>fs. q (db\<lparr>faults := fs\<rparr>) = (Ok x, db')"
  using assms
  by (cases db) (auto simp: send_statement.simps split: list.splits fault.splits)

lemma send_statement_no_fault [simp]: "faults db = [] \<Longrightarrow> send_statement q db = q db"
  by (simp add: send_statement.simps)

lemma send_statement_outcome:
  "snd (send_statement q db) \<in> {db\<lparr>faults := tl (faults db)\<rparr>, snd (q (db\<lparr>faults := tl (faults db)\<rparr>))}"
  by (cases "faults db"; cases db) (auto simp: send_statement.simps split: fault.split)

lemma fault_blind_wf [simp]:
  "fault_blind hosts_wf" "fault_blind providers_wf" "fault_blind versions_wf"
  "fault_blind artifacts_wf" "fault_blind pg_wf"
  by (simp_all add: fault_blind_def wf_defs)

lemma fault_blind_fields [simp]:
  "fault_blind (\<lambda>db. Q (providers db) (versions db) (hosts db) (provider_ids db) (version_ids db)
     (host_ids db) (artifact_ids db))"
  by (simp add: fault_blind_def)

end
