(* ===== verification/Credentials.thy ===== *)
theory Credentials
  imports Database
begin

text \<open>
  \<^verbatim>\<open>src/credhelper/\<close>: the trait \<^verbatim>\<open>CredentialHelper\<close> as a record of its
  three required methods (\<open>helper\<close>) with its provided method \<open>transform\<close>, its contract as
  the locale \<open>credential_store\<close>, and its three implementations: a \<^verbatim>\<open>HashMap\<close>
  behind a lock, the table \<^verbatim>\<open>terraform_registry_host\<close>, and the always failing one.
  A method returns its result and the store after it.
\<close>

section \<open>The trait\<close>

datatype credential = NotFound | Entry "string option"

record 'c helper =
  cred_get :: "'c \<Rightarrow> string \<Rightarrow> (credential, anyhow_error) result \<times> 'c"
  cred_store :: "'c \<Rightarrow> string \<Rightarrow> string \<Rightarrow> (unit, anyhow_error) result \<times> 'c"
  cred_forget :: "'c \<Rightarrow> string \<Rightarrow> (unit, anyhow_error) result \<times> 'c"

text \<open>A request under construction (\<^verbatim>\<open>reqwest::RequestBuilder\<close>): the code sets its
  URL and adds headers.\<close>

record http_request =
  req_url :: string
  req_headers :: "(string \<times> string) list"

definition http_get :: "string \<Rightarrow> http_request" where
  "http_get url = \<lparr>req_url = url, req_headers = []\<rparr>"

definition bearer_auth :: "http_request \<Rightarrow> string \<Rightarrow> http_request" where
  "bearer_auth req token =
     req\<lparr>req_headers := req_headers req @ [(''authorization'', ''Bearer '' @ token)]\<rparr>"

definition transform ::
  "'c helper \<Rightarrow> 'c \<Rightarrow> http_request \<Rightarrow> string \<Rightarrow> (http_request, anyhow_error) result \<times> 'c"
where
  "transform h c request hostname =
     (case cred_get h c hostname of
        (Err e, c') \<Rightarrow> (Err e, c')
      | (Ok NotFound, c') \<Rightarrow> (Ok request, c')
      | (Ok (Entry None), c') \<Rightarrow> (Ok request, c')
      | (Ok (Entry (Some token)), c') \<Rightarrow> (Ok (bearer_auth request token), c'))"

section \<open>The contract\<close>

text \<open>
  \<open>view\<close> is what a store holds for each host. An operation that answers \<open>Ok\<close> has had its
  effect; one that answers \<open>Err\<close> has had it or not, and nothing else.
\<close>

locale credential_store =
  fixes h :: "'c helper"
    and view :: "'c \<Rightarrow> string \<Rightarrow> credential"
    and inv :: "'c \<Rightarrow> bool"
  assumes get_answer: "inv c \<Longrightarrow> cred_get h c host = (Ok cr, c') \<Longrightarrow> cr = view c host"
    and get_view: "inv c \<Longrightarrow> view (snd (cred_get h c host)) = view c"
    and get_inv: "inv c \<Longrightarrow> inv (snd (cred_get h c host))"
    and store_inv: "inv c \<Longrightarrow> inv (snd (cred_store h c host tok))"
    and store_Ok: "inv c \<Longrightarrow> cred_store h c host tok = (Ok u, c') \<Longrightarrow>
      view c' = (view c)(host := Entry (Some tok))"
    and store_Err: "inv c \<Longrightarrow> cred_store h c host tok = (Err e, c') \<Longrightarrow>
      view c' = view c \<or> view c' = (view c)(host := Entry (Some tok))"
    and forget_inv: "inv c \<Longrightarrow> inv (snd (cred_forget h c host))"
    and forget_Ok: "inv c \<Longrightarrow> cred_forget h c host = (Ok u, c') \<Longrightarrow>
      view c' = (view c)(host := NotFound)"
    and forget_Err: "inv c \<Longrightarrow> cred_forget h c host = (Err e, c') \<Longrightarrow>
      view c' = view c \<or> view c' = (view c)(host := NotFound)"
begin

lemma store_frame:
  assumes "inv c" and "cred_store h c host tok = (r, c')" and "other \<noteq> host"
  shows "view c' other = view c other"
  using assms store_Ok [of c host tok] store_Err [of c host tok] by (cases r) fastforce+

lemma forget_frame:
  assumes "inv c" and "cred_forget h c host = (r, c')" and "other \<noteq> host"
  shows "view c' other = view c other"
  using assms forget_Ok [of c host] forget_Err [of c host] by (cases r) fastforce+

lemma transform_view: "inv c \<Longrightarrow> view (snd (transform h c req host)) = view c"
  using get_view [of c host]
  by (auto simp: transform_def split: prod.splits result.splits credential.splits option.splits)

lemma transform_inv: "inv c \<Longrightarrow> inv (snd (transform h c req host))"
  using get_inv [of c host]
  by (auto simp: transform_def split: prod.splits result.splits credential.splits option.splits)

text \<open>The request that leaves \<open>transform\<close> carries the token on record for that host, and no
  header at all where there is none.\<close>

lemma transform_request:
  assumes "inv c" and "transform h c req host = (Ok req', c')"
  shows "req' = (case view c host of Entry (Some tok) \<Rightarrow> bearer_auth req tok | _ \<Rightarrow> req)"
  using assms get_answer [of c host]
  by (auto simp: transform_def split: prod.splits result.splits credential.splits option.splits)

lemma get_after_store:
  assumes "inv c" and "cred_store h c host tok = (Ok u, c1)" and "cred_get h c1 host = (Ok cr, c2)"
  shows "cr = Entry (Some tok)"
  using assms store_inv [of c host tok] get_answer [of c1 host cr c2] store_Ok [of c host tok u c1]
  by simp

end

text \<open>Stores whose failing operations change nothing.\<close>

locale exact_credential_store = credential_store +
  assumes store_Err_same: "inv c \<Longrightarrow> cred_store h c host tok = (Err e, c') \<Longrightarrow> view c' = view c"
    and forget_Err_same: "inv c \<Longrightarrow> cred_forget h c host = (Err e, c') \<Longrightarrow> view c' = view c"
begin

lemma store_atomic:
  assumes "inv c"
  shows "view (snd (cred_store h c host tok)) =
    (if is_ok (fst (cred_store h c host tok)) then (view c)(host := Entry (Some tok)) else view c)"
  using assms store_Ok [of c host tok] store_Err_same [of c host tok]
  by (cases "cred_store h c host tok"; cases "fst (cred_store h c host tok)") auto

end

section \<open>MemoryCredentials\<close>

text \<open>
  \<^verbatim>\<open>Arc<RwLock<HashMap<String, Option<String>>>>\<close>. What other tasks hold of the
  lock at the moment of the call is the environment's \<open>mem_lock\<close>; \<^verbatim>\<open>try_read\<close> and
  \<^verbatim>\<open>try_write\<close> fail rather than wait.
\<close>

datatype rwlock = Unlocked | ReadLocked | WriteLocked | Poisoned

record memory_credentials =
  mem_map :: "string \<rightharpoonup> string option"
  mem_lock :: rwlock

definition memory_new :: memory_credentials where
  "memory_new = \<lparr>mem_map = Map.empty, mem_lock = Unlocked\<rparr>"

definition try_read :: "rwlock \<Rightarrow> bool" where
  "try_read l \<longleftrightarrow> l = Unlocked \<or> l = ReadLocked"

definition try_write :: "rwlock \<Rightarrow> bool" where
  "try_write l \<longleftrightarrow> l = Unlocked"

definition memory_get ::
  "memory_credentials \<Rightarrow> string \<Rightarrow> (credential, anyhow_error) result \<times> memory_credentials"
where
  "memory_get c hostname =
     (if try_read (mem_lock c)
      then (Ok (case mem_map c hostname of None \<Rightarrow> NotFound | Some v \<Rightarrow> Entry v), c)
      else (Err (Message ''Could not acquire read lock on in memory credential store''), c))"

definition memory_store ::
  "memory_credentials \<Rightarrow> string \<Rightarrow> string \<Rightarrow> (unit, anyhow_error) result \<times> memory_credentials"
where
  "memory_store c hostname cred =
     (if try_write (mem_lock c)
      then (Ok (), c\<lparr>mem_map := (mem_map c)(hostname \<mapsto> Some cred)\<rparr>)
      else (Err (Message ''Could not acquire write lock on in memory credential store''), c))"

definition memory_forget ::
  "memory_credentials \<Rightarrow> string \<Rightarrow> (unit, anyhow_error) result \<times> memory_credentials"
where
  "memory_forget c hostname =
     (if try_write (mem_lock c)
      then (Ok (), c\<lparr>mem_map := (mem_map c)(hostname := None)\<rparr>)
      else (Err (Message ''Could not acquire write lock on in memory credential store''), c))"

definition memory_helper :: "memory_credentials helper" where
  "memory_helper = \<lparr>cred_get = memory_get, cred_store = memory_store, cred_forget = memory_forget\<rparr>"

definition memory_view :: "memory_credentials \<Rightarrow> string \<Rightarrow> credential" where
  "memory_view c hostname = (case mem_map c hostname of None \<Rightarrow> NotFound | Some v \<Rightarrow> Entry v)"

lemmas memory_defs = memory_helper_def memory_get_def memory_store_def memory_forget_def
  memory_view_def try_read_def try_write_def

interpretation mem: exact_credential_store memory_helper memory_view "\<lambda>_. True"
  by unfold_locales (auto simp: memory_defs fun_eq_iff split: if_splits option.splits)

section \<open>FaultyCredentials\<close>

definition faulty_helper :: "unit helper" where
  "faulty_helper =
     \<lparr>cred_get = (\<lambda>c _. (Err (Message ''Error occurred''), c)),
      cred_store = (\<lambda>c _ _. (Err (Message ''Error occurred''), c)),
      cred_forget = (\<lambda>c _. (Err (Message ''Error occurred''), c))\<rparr>"

interpretation faulty: exact_credential_store faulty_helper "\<lambda>_ _. NotFound" "\<lambda>_. True"
  by unfold_locales (auto simp: faulty_helper_def)

section \<open>DatabaseCredentials\<close>

text \<open>The three SQL texts on \<^verbatim>\<open>terraform_registry_host\<close>, and the methods that send
  them.\<close>

definition select_auth_token :: "string \<Rightarrow> string option option statement" where
  "select_auth_token hostname db =
     (Ok (case filter (\<lambda>r. hr_hostname r = hostname) (hosts db) of
            [] \<Rightarrow> None
          | r # _ \<Rightarrow> Some (hr_auth_token r)), db)"

definition upsert_host :: "string \<Rightarrow> string \<Rightarrow> unit statement" where
  "upsert_host hostname cred db =
     (case nextval (host_ids db) of
        Err e \<Rightarrow> (Err e, db)
      | Ok i \<Rightarrow>
          (let db = db\<lparr>host_ids := i + 1\<rparr>
           in if \<not> host_check hostname then (Err (CheckViolation ''hostname''), db)
              else if \<exists>r \<in> set (hosts db). hr_hostname r = hostname
              then (Ok (), db\<lparr>hosts :=
                map (\<lambda>r. if hr_hostname r = hostname then r\<lparr>hr_auth_token := Some cred\<rparr> else r)
                  (hosts db)\<rparr>)
              else (Ok (), db\<lparr>hosts := hosts db @
                [\<lparr>hr_id = i, hr_hostname = hostname, hr_auth_token = Some cred\<rparr>]\<rparr>)))"

definition delete_host :: "string \<Rightarrow> unit statement" where
  "delete_host hostname db =
     (Ok (), db\<lparr>hosts := filter (\<lambda>r. hr_hostname r \<noteq> hostname) (hosts db)\<rparr>)"

definition database_get :: "pg \<Rightarrow> string \<Rightarrow> (credential, anyhow_error) result \<times> pg" where
  "database_get db hostname =
     (case send_statement (select_auth_token hostname) db of
        (Err e, db') \<Rightarrow> (Err (From_sqlx e), db')
      | (Ok (Some token), db') \<Rightarrow> (Ok (Entry token), db')
      | (Ok None, db') \<Rightarrow> (Ok NotFound, db'))"

definition database_store :: "pg \<Rightarrow> string \<Rightarrow> string \<Rightarrow> (unit, anyhow_error) result \<times> pg" where
  "database_store db hostname cred =
     (let (r, db') = send_statement (upsert_host hostname cred) db in (map_err From_sqlx r, db'))"

definition database_forget :: "pg \<Rightarrow> string \<Rightarrow> (unit, anyhow_error) result \<times> pg" where
  "database_forget db hostname =
     (let (r, db') = send_statement (delete_host hostname) db in (map_err From_sqlx r, db'))"

definition database_helper :: "pg helper" where
  "database_helper =
     \<lparr>cred_get = database_get, cred_store = database_store, cred_forget = database_forget\<rparr>"

definition database_view :: "pg \<Rightarrow> string \<Rightarrow> credential" where
  "database_view db hostname =
     (case filter (\<lambda>r. hr_hostname r = hostname) (hosts db) of
        [] \<Rightarrow> NotFound
      | r # _ \<Rightarrow> Entry (hr_auth_token r))"

text \<open>What the credential statements never touch.\<close>

definition catalog_part :: "pg \<Rightarrow> provider_row list \<times> version_row list \<times> int \<times> int \<times> int" where
  "catalog_part db = (providers db, versions db, provider_ids db, version_ids db, artifact_ids db)"

lemma fault_blind_catalog [simp]: "fault_blind (\<lambda>db. catalog_part db = x)"
  by (simp add: fault_blind_def catalog_part_def)

lemma fault_blind_view [simp]: "fault_blind (\<lambda>db. database_view db = f)"
  by (simp add: fault_blind_def database_view_def fun_eq_iff)

lemma database_view_faults [simp]: "database_view (db\<lparr>faults := fs\<rparr>) = database_view db"
  by (simp add: database_view_def fun_eq_iff)

lemma upsert_host_view:
  "database_view (snd (upsert_host hostname cred db)) =
     (if is_ok (fst (upsert_host hostname cred db))
      then (database_view db)(hostname := Entry (Some cred)) else database_view db)"
proof (cases "nextval (host_ids db)")
  case (Err e)
  then show ?thesis by (simp add: upsert_host_def)
next
  case (Ok i)
  have upd: "filter (\<lambda>r. hr_hostname r = x)
      (map (\<lambda>r. if hr_hostname r = hostname then r\<lparr>hr_auth_token := Some cred\<rparr> else r) rs) =
    (if x = hostname then map (hr_auth_token_update (\<lambda>_. Some cred)) (filter (\<lambda>r. hr_hostname r = x) rs)
     else filter (\<lambda>r. hr_hostname r = x) rs)" for x rs
    by (induction rs) auto
  show ?thesis
  proof (cases "\<exists>r \<in> set (hosts db). hr_hostname r = hostname")
    case True
    then have "filter (\<lambda>r. hr_hostname r = hostname) (hosts db) \<noteq> []"
      by (simp add: filter_empty_conv)
    with Ok True show ?thesis
      by (auto simp: upsert_host_def database_view_def fun_eq_iff Let_def upd split: list.splits)
  next
    case False
    then have "filter (\<lambda>r. hr_hostname r = hostname) (hosts db) = []"
      by (simp add: filter_empty_conv)
    with Ok False show ?thesis
      by (auto simp: upsert_host_def database_view_def fun_eq_iff Let_def split: list.splits)
  qed
qed

lemma delete_host_view:
  "database_view (snd (delete_host hostname db)) = (database_view db)(hostname := NotFound)"
proof -
  have "filter (\<lambda>r. hr_hostname r = x) (filter (\<lambda>r. hr_hostname r \<noteq> hostname) rs) =
      (if x = hostname then [] else filter (\<lambda>r. hr_hostname r = x) rs)" for x rs
    by (induction rs) auto
  note rows = this
  show ?thesis
    by (rule ext) (simp add: delete_host_def database_view_def rows del: filter_filter)
qed

lemma upsert_host_catalog [frame_simps]: "catalog_part (snd (upsert_host hostname cred db)) = catalog_part db"
  by (auto simp: upsert_host_def catalog_part_def Let_def split: result.split)

lemma delete_host_catalog [frame_simps]: "catalog_part (snd (delete_host hostname db)) = catalog_part db"
  by (simp add: delete_host_def catalog_part_def)

lemma wf_catalog_part:
  assumes "catalog_part db' = catalog_part db" and "hosts_wf db'" and "pg_wf db"
  shows "pg_wf db'"
  using assms by (auto simp: wf_defs catalog_part_def)

lemma upsert_host_wf:
  assumes "pg_wf db"
  shows "pg_wf (snd (upsert_host hostname cred db))"
proof (rule wf_catalog_part [OF upsert_host_catalog _ assms])
  from assms have wf: "hosts_wf db" by (simp add: pg_wf_def)
  let ?f = "\<lambda>r. if hr_hostname r = hostname then r\<lparr>hr_auth_token := Some cred\<rparr> else r"
  have keys: "map hr_id (map ?f rs) = map hr_id rs"
      "map hr_hostname (map ?f rs) = map hr_hostname rs" for rs
    by (induction rs) auto
  show "hosts_wf (snd (upsert_host hostname cred db))"
  proof (cases "nextval (host_ids db)")
    case (Err e)
    with wf show ?thesis by (simp add: upsert_host_def)
  next
    case (Ok i)
    then have i: "i = host_ids db" "i \<le> i64_max" by (auto simp: nextval_def split: if_splits)
    from wf have fresh: "i \<notin> hr_id ` set (hosts db)" and pos: "1 \<le> i"
      by (auto simp: hosts_wf_def list_all_iff id_ok_def seq_ok_def i)
    have bumped: "hosts_wf (db\<lparr>host_ids := i + 1\<rparr>)"
      using wf i by (auto simp: hosts_wf_def list_all_iff id_ok_def seq_ok_def)
    consider "\<not> host_check hostname"
      | "host_check hostname" "\<exists>r \<in> set (hosts db). hr_hostname r = hostname"
      | "host_check hostname" "hostname \<notin> hr_hostname ` set (hosts db)"
      by auto
    then show ?thesis
    proof cases
      case 1
      with Ok bumped show ?thesis by (simp add: upsert_host_def)
    next
      case 2
      with Ok have "snd (upsert_host hostname cred db) =
          db\<lparr>host_ids := i + 1, hosts := map ?f (hosts db)\<rparr>"
        by (simp add: upsert_host_def Let_def)
      moreover have "distinct (map hr_id (map ?f (hosts db)))"
          "distinct (map hr_hostname (map ?f (hosts db)))"
        unfolding keys using bumped by (simp_all add: hosts_wf_def)
      moreover have "list_all (\<lambda>r. host_check (hr_hostname r) \<and> id_ok (i + 1) (hr_id r))
          (map ?f (hosts db))"
        using bumped by (auto simp: hosts_wf_def list_all_iff)
      ultimately show ?thesis using bumped by (simp add: hosts_wf_def del: map_map)
    next
      case 3
      then have "\<not> (\<exists>r \<in> set (hosts db). hr_hostname r = hostname)" by auto
      with Ok 3 have "snd (upsert_host hostname cred db) = db\<lparr>host_ids := i + 1, hosts := hosts db @
          [\<lparr>hr_id = i, hr_hostname = hostname, hr_auth_token = Some cred\<rparr>]\<rparr>"
        by (simp add: upsert_host_def Let_def)
      with bumped 3 fresh pos show ?thesis by (simp add: hosts_wf_def id_ok_def)
    qed
  qed
qed

lemma delete_host_wf:
  assumes "pg_wf db"
  shows "pg_wf (snd (delete_host hostname db))"
proof (rule wf_catalog_part [OF delete_host_catalog _ assms])
  show "hosts_wf (snd (delete_host hostname db))"
    using assms by (auto simp: delete_host_def wf_defs list_all_iff distinct_map_filter)
qed

lemma select_auth_token_same [simp]: "snd (select_auth_token hostname db) = db"
  by (simp add: select_auth_token_def)

lemmas database_defs = database_helper_def database_get_def database_store_def database_forget_def

lemma database_get_keeps:
  assumes "fault_blind P" and "P db"
  shows "P (snd (database_get db hostname))"
proof -
  have "P (snd (send_statement (select_auth_token hostname) db))"
    by (rule send_statement_keeps [OF assms(1) _ assms(2)]) simp
  then show ?thesis
    by (cases "send_statement (select_auth_token hostname) db")
      (simp add: database_get_def split: result.split option.split)
qed

lemma database_get_answer:
  "database_get db hostname = (Ok cr, db') \<Longrightarrow> cr = database_view db hostname"
  by (auto simp: database_get_def database_view_def select_auth_token_def
      split: prod.splits result.splits option.splits list.splits dest!: send_statement_Ok)

text \<open>Whatever the fault, a statement has run on the tables or it has not.\<close>

lemma send_upsert_view:
  assumes "send_statement (upsert_host hostname cred) db = (r, db')"
  shows "database_view db' = (database_view db)(hostname := Entry (Some cred)) \<or>
    (\<not> is_ok r \<and> database_view db' = database_view db)"
proof (cases r)
  case (Ok u)
  with assms obtain fs where "upsert_host hostname cred (db\<lparr>faults := fs\<rparr>) = (Ok u, db')"
    by (auto dest: send_statement_Ok)
  then show ?thesis using upsert_host_view [of hostname cred "db\<lparr>faults := fs\<rparr>"] by simp
next
  case (Err e)
  with assms send_statement_outcome [of "upsert_host hostname cred" db] show ?thesis
    using upsert_host_view [of hostname cred "db\<lparr>faults := tl (faults db)\<rparr>"]
    by (auto split: if_splits)
qed

lemma send_delete_view:
  assumes "send_statement (delete_host hostname) db = (r, db')"
  shows "database_view db' = (database_view db)(hostname := NotFound) \<or>
    (\<not> is_ok r \<and> database_view db' = database_view db)"
proof (cases r)
  case (Ok u)
  with assms obtain fs where "delete_host hostname (db\<lparr>faults := fs\<rparr>) = (Ok u, db')"
    by (auto dest: send_statement_Ok)
  then show ?thesis using delete_host_view [of hostname "db\<lparr>faults := fs\<rparr>"] by simp
next
  case (Err e)
  with assms send_statement_outcome [of "delete_host hostname" db] show ?thesis
    using delete_host_view [of hostname "db\<lparr>faults := tl (faults db)\<rparr>"] by auto
qed

interpretation pgc: credential_store database_helper database_view pg_wf
proof unfold_locales
  fix c c' host tok cr e u
  assume wf: "pg_wf c"
  show "cred_get database_helper c host = (Ok cr, c') \<Longrightarrow> cr = database_view c host"
    by (auto simp: database_helper_def dest: database_get_answer)
  show "database_view (snd (cred_get database_helper c host)) = database_view c"
    using database_get_keeps [of "\<lambda>db. database_view db = database_view c" c host]
    by (simp add: database_helper_def)
  show "pg_wf (snd (cred_get database_helper c host))"
    using database_get_keeps [of pg_wf c host] wf by (simp add: database_helper_def)
  show "pg_wf (snd (cred_store database_helper c host tok))"
    using send_statement_keeps [of pg_wf "upsert_host host tok" c] wf upsert_host_wf
    by (simp add: database_defs split_beta Let_def)
  show "pg_wf (snd (cred_forget database_helper c host))"
    using send_statement_keeps [of pg_wf "delete_host host" c] wf delete_host_wf
    by (simp add: database_defs split_beta Let_def)
  show "cred_store database_helper c host tok = (Ok u, c') \<Longrightarrow>
      database_view c' = (database_view c)(host := Entry (Some tok))"
    by (auto simp: database_defs split: prod.splits dest!: send_upsert_view)
  show "cred_store database_helper c host tok = (Err e, c') \<Longrightarrow>
      database_view c' = database_view c \<or>
      database_view c' = (database_view c)(host := Entry (Some tok))"
    by (auto simp: database_defs split: prod.splits dest!: send_upsert_view)
  show "cred_forget database_helper c host = (Ok u, c') \<Longrightarrow>
      database_view c' = (database_view c)(host := NotFound)"
    by (auto simp: database_defs split: prod.splits dest!: send_delete_view)
  show "cred_forget database_helper c host = (Err e, c') \<Longrightarrow>
      database_view c' = database_view c \<or> database_view c' = (database_view c)(host := NotFound)"
    by (auto simp: database_defs split: prod.splits dest!: send_delete_view)
qed

end
