(* ===== verification/Json.thy ===== *)
theory Json
  imports Errors
begin

text \<open>
  JSON values, and what \<^verbatim>\<open>derive(Deserialize)\<close> makes of a struct: the fields by name from an
  object, or by position from an array; a field named twice, a field that is not there, unless it
  is an \<^verbatim>\<open>Option\<close>, and a value of another type are errors; other members of the object are
  passed over. The text of a value is the business of \<^verbatim>\<open>serde_json\<close>.
\<close>

section \<open>Values\<close>

datatype json =
    JNull
  | JBool bool
  | JNumber string
  | JString string
  | JArray "json list"
  | JObject "(string \<times> json) list"

section \<open>Reading\<close>

definition expect_string :: "json \<Rightarrow> (string, serde_error) result" where
  "expect_string j = (case j of JString s \<Rightarrow> Ok s | _ \<Rightarrow> Err (Malformed ''expected a string''))"

fun each :: "(json \<Rightarrow> ('a, serde_error) result) \<Rightarrow> json list \<Rightarrow> ('a list, serde_error) result" where
  "each f [] = Ok []"
| "each f (j # js) = and_then (f j) (\<lambda>x. map_ok ((#) x) (each f js))"

definition expect_list :: "(json \<Rightarrow> ('a, serde_error) result) \<Rightarrow> json \<Rightarrow> ('a list, serde_error) result" where
  "expect_list f j = (case j of JArray js \<Rightarrow> each f js | _ \<Rightarrow> Err (Malformed ''expected a sequence''))"

text \<open>The values of the fields \<open>names\<close>, where they are there.\<close>

definition struct_fields :: "string list \<Rightarrow> json \<Rightarrow> (json option list, serde_error) result" where
  "struct_fields names j =
     (case j of
        JObject kvs \<Rightarrow>
          if \<exists>n \<in> set names. 1 < length (filter (\<lambda>kv. fst kv = n) kvs)
          then Err (Malformed ''duplicate field'')
          else Ok (map (map_of kvs) names)
      | JArray js \<Rightarrow>
          if length js = length names then Ok (map Some js) else Err (Malformed ''invalid length'')
      | _ \<Rightarrow> Err (Malformed ''expected a struct''))"

definition required :: "(json \<Rightarrow> ('a, serde_error) result) \<Rightarrow> json option \<Rightarrow> ('a, serde_error) result" where
  "required f v = (case v of None \<Rightarrow> Err (Malformed ''missing field'') | Some j \<Rightarrow> f j)"

definition optional :: "(json \<Rightarrow> ('a, serde_error) result) \<Rightarrow> json option \<Rightarrow> ('a option, serde_error) result" where
  "optional f v = (case v of None \<Rightarrow> Ok None | Some JNull \<Rightarrow> Ok None | Some j \<Rightarrow> map_ok Some (f j))"

text \<open>Structs of one, two and three fields.\<close>

definition struct1 where
  "struct1 a f mk j = and_then (struct_fields [a] j) (\<lambda>vs. map_ok mk (f (vs ! 0)))"

definition struct2 where
  "struct2 a f b g mk j =
     and_then (struct_fields [a, b] j) (\<lambda>vs. and_then (f (vs ! 0)) (\<lambda>x. map_ok (mk x) (g (vs ! 1))))"

definition struct3 where
  "struct3 a f b g c h mk j =
     and_then (struct_fields [a, b, c] j)
       (\<lambda>vs. and_then (f (vs ! 0)) (\<lambda>x. and_then (g (vs ! 1)) (\<lambda>y. map_ok (mk x y) (h (vs ! 2)))))"

section \<open>Writing maps\<close>

text \<open>A \<^verbatim>\<open>HashMap\<close> is written as an object, in the order in which it yields its keys, and
  read by inserting the members one by one.\<close>

definition map_json :: "('v \<Rightarrow> json) \<Rightarrow> string list \<Rightarrow> (string \<rightharpoonup> 'v) \<Rightarrow> json" where
  "map_json f order m = JObject (map (\<lambda>k. (k, f (the (m k)))) order)"

definition expect_map :: "(json \<Rightarrow> ('v, serde_error) result) \<Rightarrow> json \<Rightarrow> (string \<rightharpoonup> 'v, serde_error) result" where
  "expect_map f j =
     (case j of
        JObject kvs \<Rightarrow> map_ok (\<lambda>vs. map_of (rev (zip (map fst kvs) vs))) (each f (map snd kvs))
      | _ \<Rightarrow> Err (Malformed ''expected a map''))"

section \<open>Lemmas\<close>

lemma each_Ok: "each f js = Ok xs \<longleftrightarrow> list_all2 (\<lambda>j x. f j = Ok x) js xs"
  by (induction f js arbitrary: xs rule: each.induct) (auto simp: list_all2_Cons1)

lemma expect_string_Ok [simp]: "expect_string j = Ok s \<longleftrightarrow> j = JString s"
  by (cases j) (auto simp: expect_string_def)

lemma expect_list_Ok: "expect_list f j = Ok xs \<longleftrightarrow> (\<exists>js. j = JArray js \<and> list_all2 (\<lambda>j x. f j = Ok x) js xs)"
  by (cases j) (auto simp: expect_list_def each_Ok)

lemma required_Ok [simp]: "required f v = Ok x \<longleftrightarrow> (\<exists>j. v = Some j \<and> f j = Ok x)"
  by (auto simp: required_def split: option.splits)

text \<open>A member of an object, and an object whose only members of these names are those given.\<close>

definition has_member :: "(string \<times> json) list \<Rightarrow> string \<Rightarrow> json \<Rightarrow> bool" where
  "has_member kvs n v \<longleftrightarrow> filter (\<lambda>kv. fst kv = n) kvs = [(n, v)]"

lemma filter_key_map_of:
  "map_of kvs n = Some v \<Longrightarrow> \<not> 1 < length (filter (\<lambda>kv. fst kv = n) kvs) \<longleftrightarrow> has_member kvs n v"
proof (induction kvs)
  case Nil
  then show ?case by simp
next
  case (Cons kv kvs)
  show ?case
  proof (cases "fst kv = n")
    case True
    with Cons.prems have "kv = (n, v)" by (cases kv) simp
    then show ?thesis by (auto simp: has_member_def filter_empty_conv)
  next
    case False
    with Cons show ?thesis by (cases kv) (auto simp: has_member_def)
  qed
qed

lemma has_member_map_of: "has_member kvs n v \<Longrightarrow> map_of kvs n = Some v"
proof (induction kvs)
  case Nil
  then show ?case by (simp add: has_member_def)
next
  case (Cons kv kvs)
  then show ?case by (cases kv) (auto simp: has_member_def split: if_splits)
qed

lemma has_member_iff: "has_member kvs n v \<longleftrightarrow> map_of kvs n = Some v \<and> \<not> 1 < length (filter (\<lambda>kv. fst kv = n) kvs)"
  using filter_key_map_of has_member_map_of by blast

lemma struct1_Ok:
  "struct1 a (required f) mk j = Ok r \<longleftrightarrow>
     (\<exists>v x. (j = JArray [v] \<or> (\<exists>kvs. j = JObject kvs \<and> has_member kvs a v)) \<and> f v = Ok x \<and> r = mk x)"
  by (cases j) (auto simp: struct1_def struct_fields_def has_member_iff length_Suc_conv)

lemma struct2_Ok:
  "struct2 a (required f) b (required g) mk j = Ok r \<longleftrightarrow>
     (\<exists>v w x y. (j = JArray [v, w] \<or> (\<exists>kvs. j = JObject kvs \<and> has_member kvs a v \<and> has_member kvs b w)) \<and>
        f v = Ok x \<and> g w = Ok y \<and> r = mk x y)"
  by (cases j) (auto simp: struct2_def struct_fields_def has_member_iff length_Suc_conv)

lemma struct3_Ok:
  "struct3 a (required f) b (required g) c (required h) mk j = Ok r \<longleftrightarrow>
     (\<exists>v w u x y z. (j = JArray [v, w, u] \<or>
          (\<exists>kvs. j = JObject kvs \<and> has_member kvs a v \<and> has_member kvs b w \<and> has_member kvs c u)) \<and>
        f v = Ok x \<and> g w = Ok y \<and> h u = Ok z \<and> r = mk x y z)"
  by (cases j) (auto simp: struct3_def struct_fields_def has_member_iff length_Suc_conv)

lemma map_json_read:
  assumes "set order = dom m" and "\<And>v. f (g v) = Ok v"
  shows "expect_map f (map_json g order m) = Ok m"
proof -
  have "each f (map (\<lambda>k. g (the (m k))) order) = Ok (map (\<lambda>k. the (m k)) order)"
    using assms(2) by (simp add: each_Ok list_all2_map1 list_all2_map2 list_all2_same)
  moreover have "map_of (rev (zip order (map (\<lambda>k. the (m k)) order))) = m"
  proof
    fix k
    have "zip order (map (\<lambda>k. the (m k)) order) = map (\<lambda>k. (k, the (m k))) order"
      by (induction order) auto
    then have "map_of (rev (zip order (map (\<lambda>k. the (m k)) order))) k = (if k \<in> set order then Some (the (m k)) else None)"
      by (simp add: rev_map map_of_map_restrict restrict_map_def)
    with assms(1) show "map_of (rev (zip order (map (\<lambda>k. the (m k)) order))) k = m k"
      by (cases "m k") (auto simp: dom_def)
  qed
  ultimately show ?thesis by (simp add: expect_map_def map_json_def o_def)
qed

end
