(* ===== verification/Registry.thy ===== *)
theory Registry
  imports Credentials Json
begin

text \<open>
  \<^verbatim>\<open>src/registry/\<close>: the types of the upstream registry's answers and the client
  that discovers a registry's services and fetches a document under them.

  The network, the URL library and the JSON parser are not part of the repository: they
  are the fields of \<open>upstream\<close>, arguments of every definition that uses them. A URL is its
  serialised text. Each request sent is also written to the log \<open>sent\<close>, which no definition
  reads.
\<close>

section \<open>Types\<close>

record provider_platform =
  pp_os :: string
  pp_arch :: string

record provider_version_item =
  pv_version :: string
  pv_protocols :: "string list"
  pv_platforms :: "provider_platform list"

record provider_versions =
  pvs_versions :: "provider_version_item list"

record provider_gpg_public_key =
  gpg_key_id :: string
  gpg_ascii_armor :: string

record provider_signing_keys =
  gpg_public_keys :: "provider_gpg_public_key list"

record provider_response =
  ps_protocols :: "string list"
  ps_os :: string
  ps_arch :: string
  ps_filename :: string
  ps_download_url :: string
  ps_shasums_url :: string
  ps_shasums_signature_url :: string
  ps_shasum :: string
  ps_signing_keys :: provider_signing_keys

record discovered_services =
  providers_v1 :: "string option"
  modules_v1 :: "string option"
  login_v1 :: "string option"

section \<open>The network\<close>

text \<open>A response body is the sequence of the chunks \<open>chunk().await\<close> yields, up to its end or
  its first error.\<close>

record http_response =
  resp_status :: nat
  resp_body :: "(bytes, reqwest_error) result list"

record 'n upstream =
  url_parse :: "string \<Rightarrow> string option"
  url_join :: "string \<Rightarrow> string \<Rightarrow> string option"
  http_reply :: "http_request \<Rightarrow> 'n \<Rightarrow> (http_response, reqwest_error) result \<times> 'n"
  json_parse :: "bytes \<Rightarrow> (json, serde_error) result"

record 'n net =
  peer :: 'n
  sent :: "http_request list"

definition http_send ::
  "'n upstream \<Rightarrow> http_request \<Rightarrow> 'n net \<Rightarrow> (http_response, reqwest_error) result \<times> 'n net"
where
  "http_send up req nt =
     (let (r, p) = http_reply up req (peer nt)
      in (r, nt\<lparr>peer := p, sent := sent nt @ [req]\<rparr>))"

definition error_for_status :: "http_response \<Rightarrow> (http_response, reqwest_error) result" where
  "error_for_status r =
     (if 400 \<le> resp_status r \<and> resp_status r < 600 then Err (StatusError (resp_status r)) else Ok r)"

lemma http_send_sent [simp]: "sent (snd (http_send up req nt)) = sent nt @ [req]"
  by (simp add: http_send_def split_beta Let_def)

section \<open>Documents\<close>

text \<open>What \<^verbatim>\<open>derive(Deserialize)\<close> reads for each type. A \<^verbatim>\<open>Url\<close> is a string the
  URL library parses.\<close>

definition platform_of_json :: "json \<Rightarrow> (provider_platform, serde_error) result" where
  "platform_of_json =
     struct2 ''os'' (required expect_string) ''arch'' (required expect_string) (\<lambda>os ar. \<lparr>pp_os = os, pp_arch = ar\<rparr>)"

definition version_item_of_json :: "json \<Rightarrow> (provider_version_item, serde_error) result" where
  "version_item_of_json =
     struct3 ''version'' (required expect_string) ''protocols'' (required (expect_list expect_string))
       ''platforms'' (required (expect_list platform_of_json))
       (\<lambda>v prs ps. \<lparr>pv_version = v, pv_protocols = prs, pv_platforms = ps\<rparr>)"

definition provider_versions_of_json :: "json \<Rightarrow> (provider_versions, serde_error) result" where
  "provider_versions_of_json =
     struct1 ''versions'' (required (expect_list version_item_of_json)) (\<lambda>is. \<lparr>pvs_versions = is\<rparr>)"

definition gpg_public_key_of_json :: "json \<Rightarrow> (provider_gpg_public_key, serde_error) result" where
  "gpg_public_key_of_json =
     struct2 ''key_id'' (required expect_string) ''ascii_armor'' (required expect_string)
       (\<lambda>k a. \<lparr>gpg_key_id = k, gpg_ascii_armor = a\<rparr>)"

definition signing_keys_of_json :: "json \<Rightarrow> (provider_signing_keys, serde_error) result" where
  "signing_keys_of_json =
     struct1 ''gpg_public_keys'' (required (expect_list gpg_public_key_of_json)) (\<lambda>ks. \<lparr>gpg_public_keys = ks\<rparr>)"

definition expect_url :: "'n upstream \<Rightarrow> json \<Rightarrow> (string, serde_error) result" where
  "expect_url up j =
     and_then (expect_string j)
       (\<lambda>s. case url_parse up s of None \<Rightarrow> Err (Malformed ''invalid url'') | Some u \<Rightarrow> Ok u)"

definition provider_response_of_json :: "'n upstream \<Rightarrow> json \<Rightarrow> (provider_response, serde_error) result" where
  "provider_response_of_json up j =
     and_then (struct_fields [''protocols'', ''os'', ''arch'', ''filename'', ''download_url'', ''shasums_url'',
         ''shasums_signature_url'', ''shasum'', ''signing_keys''] j) (\<lambda>vs.
     and_then (required (expect_list expect_string) (vs ! 0)) (\<lambda>prs.
     and_then (required expect_string (vs ! 1)) (\<lambda>os.
     and_then (required expect_string (vs ! 2)) (\<lambda>ar.
     and_then (required expect_string (vs ! 3)) (\<lambda>filename.
     and_then (required (expect_url up) (vs ! 4)) (\<lambda>download.
     and_then (required (expect_url up) (vs ! 5)) (\<lambda>shasums.
     and_then (required (expect_url up) (vs ! 6)) (\<lambda>signature.
     and_then (required expect_string (vs ! 7)) (\<lambda>shasum.
     and_then (required signing_keys_of_json (vs ! 8)) (\<lambda>keys.
     Ok \<lparr>ps_protocols = prs, ps_os = os, ps_arch = ar, ps_filename = filename, ps_download_url = download,
         ps_shasums_url = shasums, ps_shasums_signature_url = signature, ps_shasum = shasum,
         ps_signing_keys = keys\<rparr>))))))))))"

definition discovered_services_of_json :: "json \<Rightarrow> (discovered_services, serde_error) result" where
  "discovered_services_of_json =
     struct3 ''providers.v1'' (optional expect_string) ''modules.v1'' (optional expect_string)
       ''login.v1'' (optional expect_string)
       (\<lambda>p m l. \<lparr>providers_v1 = p, modules_v1 = m, login_v1 = l\<rparr>)"

text \<open>\<^verbatim>\<open>serde_json::from_slice\<close> at the three types.\<close>

definition json_services :: "'n upstream \<Rightarrow> bytes \<Rightarrow> (discovered_services, serde_error) result" where
  "json_services up text = and_then (json_parse up text) discovered_services_of_json"

definition json_versions :: "'n upstream \<Rightarrow> bytes \<Rightarrow> (provider_versions, serde_error) result" where
  "json_versions up text = and_then (json_parse up text) provider_versions_of_json"

definition json_provider :: "'n upstream \<Rightarrow> bytes \<Rightarrow> (provider_response, serde_error) result" where
  "json_provider up text = and_then (json_parse up text) (provider_response_of_json up)"

section \<open>Bounded bodies\<close>

definition discovery_response_size_max_bytes :: nat where
  "discovery_response_size_max_bytes = 16384"

definition registry_metadata_size_max_bytes :: nat where
  "registry_metadata_size_max_bytes = 8388608"

fun read_body_limit ::
  "bytes \<Rightarrow> (bytes, reqwest_error) result list \<Rightarrow> nat \<Rightarrow> (unit, terrashine_error) result \<times> bytes"
where
  "read_body_limit buffer [] limit = (Ok (), buffer)"
| "read_body_limit buffer (Err e # chunks) limit = (Err (ProviderResponseFailure e), buffer)"
| "read_body_limit buffer (Ok chunk # chunks) limit =
     (if length buffer + length chunk > limit
      then (Err (ProviderResponseTooLarge limit), buffer)
      else read_body_limit (buffer @ chunk) chunks limit)"

lemma read_body_limit_bound:
  "length buffer \<le> limit \<Longrightarrow> length (snd (read_body_limit buffer chunks limit)) \<le> limit"
  by (induction buffer chunks limit rule: read_body_limit.induct) auto

lemma read_body_limit_Ok:
  "read_body_limit buffer chunks limit = (Ok u, out) \<longleftrightarrow>
     (\<exists>bs. chunks = map Ok bs \<and> out = buffer @ concat bs \<and>
       (chunks \<noteq> [] \<longrightarrow> length out \<le> limit))"
proof (induction buffer chunks limit rule: read_body_limit.induct)
  case (1 buffer limit)
  then show ?case by auto
next
  case (2 buffer e chunks limit)
  then show ?case by (auto simp: Cons_eq_map_conv)
next
  case (3 buffer chunk chunks limit)
  show ?case
  proof (cases "length buffer + length chunk > limit")
    case True
    then show ?thesis by (auto simp: Cons_eq_map_conv)
  next
    case False
    with 3 show ?thesis by (fastforce simp: Cons_eq_map_conv)
  qed
qed

lemma read_body_limit_TooLarge:
  "fst (read_body_limit buffer chunks limit) = Err e \<Longrightarrow>
     e = ProviderResponseTooLarge limit \<or> (\<exists>e'. e = ProviderResponseFailure e' \<and> Err e' \<in> set chunks)"
  by (induction buffer chunks limit rule: read_body_limit.induct) (auto split: if_splits)

lemma read_body_limit_prefix:
  assumes "length buffer \<le> limit" and "length buffer + length (concat bs) > limit"
  shows "read_body_limit buffer (map Ok bs @ rest) limit =
    read_body_limit buffer (map Ok bs) limit \<and>
    fst (read_body_limit buffer (map Ok bs) limit) = Err (ProviderResponseTooLarge limit)"
  using assms
proof (induction bs arbitrary: buffer)
  case Nil
  then show ?case by simp
next
  case (Cons b bs)
  show ?case
  proof (cases "length buffer + length b > limit")
    case True
    then show ?thesis by simp
  next
    case False
    with Cons.IH [of "buffer @ b"] Cons.prems show ?thesis by simp
  qed
qed

lemma sum_nonempty_chunks:
  assumes "\<forall>i < n. f i \<noteq> []"
  shows "n \<le> length (concat (map f [0..<n]))"
  using assms
proof (induction n)
  case 0
  then show ?case by simp
next
  case (Suc n)
  then have "n \<le> length (concat (map f [0..<n]))" and "1 \<le> length (f n)"
    by (simp_all add: Suc_leI)
  then show ?case by simp
qed

section \<open>The client\<close>

text \<open>\<^verbatim>\<open>send().await?.error_for_status()?\<close>, the bounded read and
  \<^verbatim>\<open>serde_json::from_slice\<close>, as both methods do them.\<close>

definition fetch_json ::
  "'n upstream \<Rightarrow> (bytes \<Rightarrow> ('a, serde_error) result) \<Rightarrow> nat \<Rightarrow> http_request \<Rightarrow> 'n net \<Rightarrow>
    ('a, terrashine_error) result \<times> 'n net"
where
  "fetch_json up decode limit req nt =
     (case http_send up req nt of
        (Err e, nt') \<Rightarrow> (Err (ProviderResponseFailure e), nt')
      | (Ok response, nt') \<Rightarrow>
          (case error_for_status response of
             Err e \<Rightarrow> (Err (ProviderResponseFailure e), nt')
           | Ok response \<Rightarrow>
               (case read_body_limit [] (resp_body response) limit of
                  (Err e, buffer) \<Rightarrow> (Err e, nt')
                | (Ok u, buffer) \<Rightarrow> (map_err ProviderDeserializationError (decode buffer), nt'))))"

definition discovery_url :: "string \<Rightarrow> u16 \<Rightarrow> string" where
  "discovery_url hostname port =
     ''https://'' @ hostname @ '':'' @ show_u16 port @ ''/.well-known/terraform.json''"

definition registry_url :: "string \<Rightarrow> u16 \<Rightarrow> string" where
  "registry_url hostname port = ''https://'' @ hostname @ '':'' @ show_u16 port"

text \<open>\<^verbatim>\<open>discover_services\<close>: a host name the URL library rejects is a panic
  (\<^verbatim>\<open>expect\<close>).\<close>

definition discover_services ::
  "'n upstream \<Rightarrow> u16 \<Rightarrow> string \<Rightarrow> 'n net \<Rightarrow>
    (discovered_services, terrashine_error) result run \<times> 'n net"
where
  "discover_services up port hostname nt =
     (case url_parse up (discovery_url hostname port) of
        None \<Rightarrow> (Panic, nt)
      | Some url \<Rightarrow>
          (let (r, nt') = fetch_json up (json_services up) discovery_response_size_max_bytes
             (http_get url) nt
           in (Done r, nt')))"

text \<open>The URL of a document: the registry's root, joined with the discovered base, joined with
  the path.\<close>

definition provider_url :: "'n upstream \<Rightarrow> u16 \<Rightarrow> string \<Rightarrow> string \<Rightarrow> string \<Rightarrow> string option" where
  "provider_url up port hostname base_url path =
     Option.bind (url_parse up (registry_url hostname port))
       (\<lambda>u. Option.bind (url_join up u base_url) (\<lambda>u. url_join up u path))"

definition provider_get ::
  "'n upstream \<Rightarrow> u16 \<Rightarrow> 'c helper \<Rightarrow> (bytes \<Rightarrow> ('a, serde_error) result) \<Rightarrow>
    string \<Rightarrow> string \<Rightarrow> 'c \<Rightarrow> 'n net \<Rightarrow> ('a, terrashine_error) result run \<times> 'c \<times> 'n net"
where
  "provider_get up port h decode hostname path c nt =
     (case discover_services up port hostname nt of
        (Panic, nt1) \<Rightarrow> (Panic, c, nt1)
      | (Done (Err e), nt1) \<Rightarrow> (Done (Err e), c, nt1)
      | (Done (Ok services), nt1) \<Rightarrow>
          (case providers_v1 services of
             None \<Rightarrow> (Done (Err (TerraformServiceNotSupported ''provider'' hostname)), c, nt1)
           | Some base_url \<Rightarrow>
               (case provider_url up port hostname base_url path of
                  None \<Rightarrow>
                    (Done (Err (ProviderGetBuildUrlFailure hostname port base_url path)), c, nt1)
                | Some url \<Rightarrow>
                    (case transform h c (http_get url) hostname of
                       (Err e, c') \<Rightarrow> (Done (Err (Anyhow e)), c', nt1)
                     | (Ok request, c') \<Rightarrow>
                         (let (r, nt2) = fetch_json up decode registry_metadata_size_max_bytes
                            request nt1
                          in (Done r, c', nt2))))))"

section \<open>What the client does on the wire\<close>

lemma fetch_json_sent [simp]: "sent (snd (fetch_json up decode limit req nt)) = sent nt @ [req]"
  using http_send_sent [of up req nt]
  by (auto simp: fetch_json_def simp del: http_send_sent split: prod.split result.split)


lemma discover_services_Panic:
  "fst (discover_services up port hostname nt) = Panic \<longleftrightarrow>
     url_parse up (discovery_url hostname port) = None"
  by (auto simp: discover_services_def split_beta Let_def split: option.splits)

lemma discover_services_sent:
  "discover_services up port hostname nt = (r, nt') \<Longrightarrow>
     (r = Panic \<and> nt' = nt) \<or>
     (\<exists>url. url_parse up (discovery_url hostname port) = Some url \<and>
        sent nt' = sent nt @ [http_get url])"
  using fetch_json_sent [of up "json_services up" discovery_response_size_max_bytes _ nt]
  by (auto simp: discover_services_def split_beta Let_def split: option.splits)

lemma provider_get_Panic:
  "fst (provider_get up port h decode hostname path c nt) = Panic \<longleftrightarrow>
     url_parse up (discovery_url hostname port) = None"
  using discover_services_Panic [of up port hostname nt]
  by (auto simp: provider_get_def split_beta Let_def
      split: prod.splits run.splits result.splits option.splits)

text \<open>The store is read through \<open>transform\<close> only.\<close>

lemma provider_get_store:
  "fst (snd (provider_get up port h decode hostname path c nt)) \<in>
     {c} \<union> range (\<lambda>req. snd (transform h c req hostname))"
  by (auto simp: provider_get_def split_beta Let_def
      split: prod.split run.split result.split option.split)

context credential_store
begin

lemma provider_get_keeps:
  assumes "inv c"
  shows "inv (fst (snd (provider_get up port h decode hostname path c nt)))"
    and "view (fst (snd (provider_get up port h decode hostname path c nt))) = view c"
  using provider_get_store [of up port h decode hostname path c nt] assms
    transform_inv [of c] transform_view [of c]
  by auto

text \<open>
  The requests of one call: the discovery document of the host without credentials, then at most
  one document request, to the base the discovery names, with the token on record for that very
  host and no other header.
\<close>

lemma provider_get_requests:
  assumes "inv c" and "provider_get up port h decode hostname path c nt = (r, c', nt')"
  shows "\<exists>reqs. sent nt' = sent nt @ reqs \<and> length reqs \<le> 2 \<and>
    (\<forall>req \<in> set (take 1 reqs). req_headers req = [] \<and> url_parse up (discovery_url hostname port) = Some (req_url req)) \<and>
    (\<forall>req \<in> set (drop 1 reqs). (\<exists>base. provider_url up port hostname base path = Some (req_url req)) \<and>
       req_headers req =
         (case view c hostname of
            Entry (Some tok) \<Rightarrow> [(''authorization'', ''Bearer '' @ tok)] | _ \<Rightarrow> []))"
proof -
  obtain d nt1 where d: "discover_services up port hostname nt = (d, nt1)" by fastforce
  from discover_services_sent [OF d] consider "d = Panic" "nt1 = nt"
    | url where "sent nt1 = sent nt @ [http_get url]" "url_parse up (discovery_url hostname port) = Some url" by blast
  then show ?thesis
  proof cases
    case 1
    with d assms(2) show ?thesis by (auto simp: provider_get_def)
  next
    case 2
    show ?thesis
    proof (cases "nt' = nt1")
      case True
      with 2 show ?thesis by (intro exI [of _ "[http_get url]"]) (simp add: http_get_def)
    next
      case False
      with d assms(2) obtain base doc request c1 where
          doc: "provider_url up port hostname base path = Some doc"
        and t: "transform h c (http_get doc) hostname = (Ok request, c1)"
        and nt': "nt' = snd (fetch_json up decode registry_metadata_size_max_bytes request nt1)"
        by (auto simp: provider_get_def
            split: prod.splits run.splits result.splits option.splits)
      from transform_request [OF assms(1) t] nt' 2 doc show ?thesis
        by (intro exI [of _ "[http_get url, request]"])
          (auto simp: http_get_def bearer_auth_def split: credential.split option.split)
    qed
  qed
qed

end

section \<open>Documents of the registry protocol\<close>

text \<open>
  The documents that stand for a listing: an object whose members of the protocol's names are
  these, whatever their order and whatever other members there are, or the same values in a
  sequence.
\<close>

definition struct_document :: "(string \<times> (json \<Rightarrow> bool)) list \<Rightarrow> json \<Rightarrow> bool" where
  "struct_document members j \<longleftrightarrow>
     (case j of
        JObject kvs \<Rightarrow> \<forall>(n, P) \<in> set members. \<exists>v. has_member kvs n v \<and> P v
      | JArray vs \<Rightarrow> list_all2 (\<lambda>(n, P) v. P v) members vs
      | _ \<Rightarrow> False)"

definition list_document :: "('a \<Rightarrow> json \<Rightarrow> bool) \<Rightarrow> 'a list \<Rightarrow> json \<Rightarrow> bool" where
  "list_document P xs j \<longleftrightarrow> (\<exists>js. j = JArray js \<and> list_all2 P xs js)"

abbreviation string_document :: "string \<Rightarrow> json \<Rightarrow> bool" where
  "string_document s j \<equiv> j = JString s"

definition platform_document :: "provider_platform \<Rightarrow> json \<Rightarrow> bool" where
  "platform_document p = struct_document [(''os'', string_document (pp_os p)), (''arch'', string_document (pp_arch p))]"

definition version_document :: "provider_version_item \<Rightarrow> json \<Rightarrow> bool" where
  "version_document i =
     struct_document [(''version'', string_document (pv_version i)),
       (''protocols'', list_document string_document (pv_protocols i)),
       (''platforms'', list_document platform_document (pv_platforms i))]"

definition listing_document :: "provider_versions \<Rightarrow> json \<Rightarrow> bool" where
  "listing_document pv = struct_document [(''versions'', list_document version_document (pvs_versions pv))]"

lemma list_all2_flip: "list_all2 P xs ys \<longleftrightarrow> list_all2 (\<lambda>y x. P x y) ys xs"
  by (auto simp: list_all2_conv_all_nth)

lemma expect_list_document:
  "(\<And>j x. f j = Ok x \<longleftrightarrow> P x j) \<Longrightarrow> expect_list f j = Ok xs \<longleftrightarrow> list_document P xs j"
  by (auto simp: expect_list_Ok list_document_def list_all2_flip [of P])

lemma platform_of_json_Ok: "platform_of_json j = Ok p \<longleftrightarrow> platform_document p j"
  by (cases j; cases p)
    (auto simp: platform_of_json_def struct2_Ok platform_document_def struct_document_def list_all2_Cons1)

lemma version_item_of_json_Ok: "version_item_of_json j = Ok i \<longleftrightarrow> version_document i j"
  using expect_list_document [of expect_string string_document] expect_list_document [OF platform_of_json_Ok]
  by (cases j; cases i)
    (auto simp: version_item_of_json_def struct3_Ok version_document_def struct_document_def list_all2_Cons1)

section \<open>Properties\<close>

text \<open>
  C19: the listing of a registry is read as it is meant. The decoder accepts exactly the documents
  that stand for a listing, whatever the order of their members and whatever other members they
  have, and makes that listing of them.
\<close>

theorem listing_document_read: "provider_versions_of_json j = Ok pv \<longleftrightarrow> listing_document pv j"
  using expect_list_document [OF version_item_of_json_Ok]
  by (cases j; cases pv)
    (auto simp: provider_versions_of_json_def struct1_Ok listing_document_def struct_document_def list_all2_Cons1)

text \<open>
  C21: a bounded read returns the whole body, exactly when no chunk failed and the body is within
  the limit; otherwise it fails; and whatever the peer sends, the buffer never outgrows the
  limit.
\<close>

theorem read_body_limit_exact:
  "(read_body_limit [] chunks limit = (Ok (), out) \<longleftrightarrow>
      (\<exists>bs. chunks = map Ok bs \<and> out = concat bs \<and> length out \<le> limit)) \<and>
   length (snd (read_body_limit [] chunks limit)) \<le> limit"
  using read_body_limit_Ok [of "[]" chunks limit "()" out] read_body_limit_bound [of "[]" limit chunks]
  by auto

text \<open>
  C22: a peer that never stops sending is cut off: of an endless body of non-empty chunks, the
  read takes at most one more chunk than the limit has bytes, and fails with the size error,
  whatever would follow.
\<close>

theorem read_body_limit_cuts_off:
  assumes "\<forall>i. f i \<noteq> []"
  shows "\<exists>n \<le> limit + 1. \<forall>rest.
    fst (read_body_limit [] (map (\<lambda>i. Ok (f i)) [0..<n] @ rest) limit) = Err (ProviderResponseTooLarge limit)"
proof -
  have "limit < length (concat (map f [0..<limit + 1]))"
    using sum_nonempty_chunks [of "limit + 1" f] assms by simp
  with read_body_limit_prefix [of "[]" limit "map f [0..<limit + 1]"] show ?thesis
    by (intro exI [of _ "limit + 1"]) (simp add: o_def del: upt_Suc upt.simps)
qed

text \<open>
  Credentials go where they belong. One call of the client sends at most two requests: the
  discovery document of the host without any header, then one document at the base it names,
  whose only header, if the store has a token for that very host, carries that token. The stored
  credentials are unchanged.
\<close>

theorem provider_get_wire:
  assumes "pg_wf db" and "provider_get up port database_helper decode hostname path db nt = (r, db', nt')"
  shows "database_view db' = database_view db \<and> (\<exists>reqs. sent nt' = sent nt @ reqs \<and> length reqs \<le> 2 \<and>
    (\<forall>req \<in> set (take 1 reqs). req_headers req = [] \<and> url_parse up (discovery_url hostname port) = Some (req_url req)) \<and>
    (\<forall>req \<in> set (drop 1 reqs). (\<exists>base. provider_url up port hostname base path = Some (req_url req)) \<and>
       req_headers req =
         (case database_view db hostname of
            Entry (Some tok) \<Rightarrow> [(''authorization'', ''Bearer '' @ tok)] | _ \<Rightarrow> [])))"
  using pgc.provider_get_requests [OF assms] pgc.provider_get_keeps(2) [OF assms(1), of up port decode hostname path nt] assms(2)
  by simp


end
