(* ===== verification/Catalog.thy ===== *)
theory Catalog
  imports Registry
begin

text \<open>
  The catalogue of known provider versions: the statements of \<^verbatim>\<open>src/http/index.rs\<close>
  on \<^verbatim>\<open>terraform_provider\<close> and \<^verbatim>\<open>terraform_provider_version\<close>, the
  transaction that stores an upstream answer, and the index built from either. The contract
  the request handlers rely on is the locale \<open>version_catalog\<close>.
\<close>

section \<open>The index\<close>

text \<open>\<^verbatim>\<open>response_types::MirrorIndex\<close>: a map from versions to (always empty) maps.\<close>

record mirror_index =
  mi_versions :: "string \<rightharpoonup> (string \<rightharpoonup> string)"

definition index_of_strings :: "string list \<Rightarrow> mirror_index" where
  "index_of_strings vs = \<lparr>mi_versions = hash_map (map (\<lambda>v. (v, Map.empty)) vs)\<rparr>"

definition index_of_provider_versions :: "provider_versions \<Rightarrow> mirror_index" where
  "index_of_provider_versions pv =
     \<lparr>mi_versions = hash_map (map (\<lambda>i. (pv_version i, Map.empty)) (pvs_versions pv))\<rparr>"

lemma index_of_strings_set:
  "mi_versions (index_of_strings vs) = (\<lambda>v. if v \<in> set vs then Some Map.empty else None)"
  by (simp add: index_of_strings_def hash_map_const)

lemma index_of_provider_versions_set:
  "mi_versions (index_of_provider_versions pv) =
     (\<lambda>v. if v \<in> pv_version ` set (pvs_versions pv) then Some Map.empty else None)"
  by (simp add: index_of_provider_versions_def hash_map_keys)

text \<open>What is written of it; \<open>order\<close> and \<open>inner\<close> are the orders in which the maps yield their
  keys.\<close>

definition mirror_index_json :: "string list \<Rightarrow> ((string \<rightharpoonup> string) \<Rightarrow> string list) \<Rightarrow> mirror_index \<Rightarrow> json" where
  "mirror_index_json order inner idx =
     JObject [(''versions'', map_json (\<lambda>m. map_json JString (inner m) m) order (mi_versions idx))]"

section \<open>Reading\<close>

definition version_triple :: "version_row \<Rightarrow> string \<times> string \<times> string" where
  "version_triple v = (vr_version v, vr_os v, vr_arch v)"

definition select_versions :: "string \<Rightarrow> string \<Rightarrow> string \<Rightarrow> string option list statement" where
  "select_versions hostname namespace type db =
     (Ok [Some (vr_version v). v \<leftarrow> versions db, p \<leftarrow> providers db,
        vr_provider_id v = pr_id p \<and> pr_hostname p = hostname \<and> pr_namespace p = namespace \<and>
        pr_type p = type], db)"

definition list_provider_versions ::
  "string \<Rightarrow> string \<Rightarrow> string \<Rightarrow> pg \<Rightarrow> (mirror_index option, terrashine_error) result \<times> pg"
where
  "list_provider_versions hostname namespace type db =
     (case send_statement (select_versions hostname namespace type) db of
        (Err e, db') \<Rightarrow> (Err (DatabaseError e), db')
      | (Ok [], db') \<Rightarrow> (Ok None, db')
      | (Ok rows, db') \<Rightarrow>
          (Ok (Some (index_of_strings (case those rows of None \<Rightarrow> [] | Some vs \<Rightarrow> vs))), db'))"

section \<open>Writing\<close>

text \<open>The three column vectors the loop fills, and the rows \<^verbatim>\<open>unnest\<close> makes of
  them.\<close>

fun push_platforms ::
  "string \<Rightarrow> provider_platform list \<Rightarrow> string list \<times> string list \<times> string list \<Rightarrow>
    string list \<times> string list \<times> string list"
where
  "push_platforms version [] cols = cols"
| "push_platforms version (p # ps) (vs, oses, arches) =
     push_platforms version ps (vs @ [version], oses @ [pp_os p], arches @ [pp_arch p])"

fun version_columns ::
  "provider_version_item list \<Rightarrow> string list \<times> string list \<times> string list \<Rightarrow>
    string list \<times> string list \<times> string list"
where
  "version_columns [] cols = cols"
| "version_columns (item # items) cols =
     version_columns items (push_platforms (pv_version item) (pv_platforms item) cols)"

definition unnest :: "string list \<times> string list \<times> string list \<Rightarrow> (string \<times> string \<times> string) list" where
  "unnest cols = (case cols of (vs, oses, arches) \<Rightarrow> zip vs (zip oses arches))"

definition upsert_provider :: "string \<Rightarrow> string \<Rightarrow> string \<Rightarrow> nat statement" where
  "upsert_provider hostname namespace type db =
     (case nextval (provider_ids db) of
        Err e \<Rightarrow> (Err e, db)
      | Ok i \<Rightarrow>
          (let db = db\<lparr>provider_ids := i + 1\<rparr>
           in if \<not> provider_check hostname namespace type
              then (Err (CheckViolation ''terraform_provider''), db)
              else if \<exists>p \<in> set (providers db). provider_key p = (hostname, namespace, type)
              then (Ok 1, db\<lparr>providers :=
                map (\<lambda>p. if provider_key p = (hostname, namespace, type)
                         then p\<lparr>pr_last_refreshed := now db\<rparr> else p) (providers db)\<rparr>)
              else (Ok 1, db\<lparr>providers := providers db @
                [\<lparr>pr_id = i, pr_hostname = hostname, pr_namespace = namespace, pr_type = type,
                  pr_last_refreshed = now db\<rparr>]\<rparr>)))"

text \<open>The rows of the insert in order. The identity column takes a value for every row, also
  for one that meets an existing row and is left out (\<^verbatim>\<open>on conflict do nothing\<close>).\<close>

fun insert_version_rows ::
  "int \<Rightarrow> (string \<times> string \<times> string) list \<Rightarrow> (string \<times> string \<times> string) list statement"
where
  "insert_version_rows pid [] db = (Ok [], db)"
| "insert_version_rows pid ((v, os, ar) # rows) db =
     (case nextval (version_ids db) of
        Err e \<Rightarrow> (Err e, db)
      | Ok i \<Rightarrow>
          (let db = db\<lparr>version_ids := i + 1\<rparr>
           in if \<not> version_check v os ar
              then (Err (CheckViolation ''terraform_provider_version''), db)
              else if \<exists>r \<in> set (versions db). version_key r = (pid, v, os, ar)
              then insert_version_rows pid rows db
              else (case insert_version_rows pid rows
                        (db\<lparr>versions := versions db @
                          [\<lparr>vr_id = i, vr_provider_id = pid, vr_version = v, vr_os = os, vr_arch = ar,
                            vr_artifact_id = None, vr_artifact_timestamp = None\<rparr>]\<rparr>) of
                      (Err e, db') \<Rightarrow> (Err e, db')
                    | (Ok returned, db') \<Rightarrow> (Ok ((v, os, ar) # returned), db'))))"

definition insert_versions ::
  "string \<Rightarrow> string \<Rightarrow> string \<Rightarrow> (string \<times> string \<times> string) list \<Rightarrow>
    (string \<times> string \<times> string) list statement"
where
  "insert_versions hostname namespace type rows db =
     (case filter (\<lambda>p. provider_key p = (hostname, namespace, type)) (providers db) of
        [] \<Rightarrow> (Ok [], db)
      | p # _ \<Rightarrow> insert_version_rows (pr_id p) rows db)"

text \<open>
  A transaction works on a copy of the tables: \<open>abandon\<close> drops it (a \<^verbatim>\<open>Transaction\<close>
  dropped before its commit), \<open>commit\<close> is the statement that makes it the tables. Sequences
  are not transactional.
\<close>

definition abandon :: "pg \<Rightarrow> pg \<Rightarrow> pg" where
  "abandon saved w =
     w\<lparr>providers := providers saved, versions := versions saved, hosts := hosts saved\<rparr>"

definition begin_transaction :: "unit statement" where
  "begin_transaction db = (Ok (), db)"

definition commit :: "pg \<Rightarrow> unit statement" where
  "commit w db = (Ok (), db\<lparr>providers := providers w, versions := versions w, hosts := hosts w\<rparr>)"

definition store_provider_versions ::
  "string \<Rightarrow> string \<Rightarrow> string \<Rightarrow> provider_versions \<Rightarrow> pg \<Rightarrow> (nat, terrashine_error) result \<times> pg"
where
  "store_provider_versions hostname namespace type response db =
     (case send_statement begin_transaction db of
        (Err e, db1) \<Rightarrow> (Err (DatabaseError e), db1)
      | (Ok _, db1) \<Rightarrow>
          (let rows = unnest (version_columns (pvs_versions response) ([], [], []))
           in case send_statement (upsert_provider hostname namespace type) db1 of
                (Err e, w1) \<Rightarrow> (Err (DatabaseError e), abandon db1 w1)
              | (Ok _, w1) \<Rightarrow>
                  (case send_statement (insert_versions hostname namespace type rows) w1 of
                     (Err e, w2) \<Rightarrow> (Err (DatabaseError e), abandon db1 w2)
                   | (Ok records, w2) \<Rightarrow>
                       (case send_statement (commit w2) (abandon db1 w2) of
                          (Err e, db2) \<Rightarrow> (Err (DatabaseError e), db2)
                        | (Ok _, db2) \<Rightarrow> (Ok (length records), db2)))))"

text \<open>\<^verbatim>\<open>refresh_versions\<close>: fetch the listing upstream with the credentials of the same
  database, store it, return it.\<close>

definition versions_path :: "string \<Rightarrow> string \<Rightarrow> string" where
  "versions_path namespace type = namespace @ ''/'' @ type @ ''/versions''"

definition refresh_versions ::
  "'n upstream \<Rightarrow> u16 \<Rightarrow> terraform_provider \<Rightarrow> pg \<Rightarrow> 'n net \<Rightarrow>
    (provider_versions, terrashine_error) result run \<times> pg \<times> 'n net"
where
  "refresh_versions up port tp db nt =
     (case provider_get up port database_helper (json_versions up) (tp_hostname tp)
             (versions_path (tp_namespace tp) (tp_type tp)) db nt of
        (Panic, db1, nt1) \<Rightarrow> (Panic, db1, nt1)
      | (Done (Err e), db1, nt1) \<Rightarrow> (Done (Err e), db1, nt1)
      | (Done (Ok pv), db1, nt1) \<Rightarrow>
          (case store_provider_versions (tp_hostname tp) (tp_namespace tp) (tp_type tp) pv db1 of
             (Err e, db2) \<Rightarrow> (Done (Err e), db2, nt1)
           | (Ok _, db2) \<Rightarrow> (Done (Ok pv), db2, nt1)))"

section \<open>The tables stay well formed\<close>

abbreviation platform_triples :: "provider_version_item list \<Rightarrow> (string \<times> string \<times> string) list" where
  "platform_triples items \<equiv>
     concat (map (\<lambda>i. map (\<lambda>p. (pv_version i, pp_os p, pp_arch p)) (pv_platforms i)) items)"

lemma push_platforms_append:
  "push_platforms v ps (vs, oses, ars) =
     (vs @ map (\<lambda>_. v) ps, oses @ map pp_os ps, ars @ map pp_arch ps)"
  by (induction ps arbitrary: vs oses ars) auto

lemma version_columns_append:
  "version_columns items (vs, oses, ars) =
     (vs @ map fst (platform_triples items),
      oses @ map (fst \<circ> snd) (platform_triples items),
      ars @ map (snd \<circ> snd) (platform_triples items))"
  by (induction items arbitrary: vs oses ars) (auto simp: push_platforms_append o_def)

lemma unnest_columns: "unnest (version_columns items ([], [], [])) = platform_triples items"
proof -
  have "unnest (map fst ts, map (fst \<circ> snd) ts, map (snd \<circ> snd) ts) = ts" for ts
    by (induction ts) (auto simp: unnest_def)
  then show ?thesis by (simp add: version_columns_append)
qed

lemma nextval_Ok: "nextval s = Ok i \<Longrightarrow> i = s \<and> s \<le> i64_max"
  by (auto simp: nextval_def split: if_splits)

lemma upsert_provider_wf:
  assumes "pg_wf db"
  shows "pg_wf (snd (upsert_provider hostname namespace type db))"
proof (cases "nextval (provider_ids db)")
  case (Err e)
  with assms show ?thesis by (simp add: upsert_provider_def)
next
  case (Ok i)
  let ?key = "(hostname, namespace, type)"
  let ?f = "\<lambda>p. if provider_key p = ?key then p\<lparr>pr_last_refreshed := now db\<rparr> else p"
  from Ok have i: "i = provider_ids db" "i \<le> i64_max" by (auto dest: nextval_Ok)
  have bumped: "pg_wf (db\<lparr>provider_ids := i + 1\<rparr>)"
    using assms i by (auto simp: wf_defs list_all_iff id_ok_def seq_ok_def)
  have keys: "map pr_id (map ?f ps) = map pr_id ps"
      "map provider_key (map ?f ps) = map provider_key ps" for ps
    by (induction ps) (auto simp: provider_key_def)
  consider "\<not> provider_check hostname namespace type"
    | "provider_check hostname namespace type" "\<exists>p \<in> set (providers db). provider_key p = ?key"
    | "provider_check hostname namespace type" "?key \<notin> provider_key ` set (providers db)"
    by force
  then show ?thesis
  proof cases
    case 1
    with Ok bumped show ?thesis by (simp add: upsert_provider_def)
  next
    case 2
    with Ok have upd: "snd (upsert_provider hostname namespace type db) =
        db\<lparr>provider_ids := i + 1, providers := map ?f (providers db)\<rparr>"
      by (simp add: upsert_provider_def Let_def)
    have "distinct (map pr_id (map ?f (providers db)))"
        "distinct (map provider_key (map ?f (providers db)))"
      unfolding keys using bumped by (simp_all add: wf_defs)
    moreover have "pr_id ` set (map ?f (providers db)) = pr_id ` set (providers db)"
      using keys(1) [of "providers db"] by (metis list.set_map)
    ultimately show ?thesis
      using bumped by (simp add: upd wf_defs list_all_iff del: map_map set_map) auto
  next
    case 3
    then have "\<not> (\<exists>p \<in> set (providers db). provider_key p = ?key)" by (metis image_eqI)
    with Ok 3 have upd: "snd (upsert_provider hostname namespace type db) =
        db\<lparr>provider_ids := i + 1, providers := providers db @
          [\<lparr>pr_id = i, pr_hostname = hostname, pr_namespace = namespace, pr_type = type,
            pr_last_refreshed = now db\<rparr>]\<rparr>"
      by (simp add: upsert_provider_def Let_def)
    have "i \<notin> pr_id ` set (providers db)" and "1 \<le> i"
      using assms i by (auto simp: wf_defs list_all_iff id_ok_def seq_ok_def)
    with bumped 3 show ?thesis
      by (auto simp: upd wf_defs list_all_iff id_ok_def provider_key_def)
  qed
qed

text \<open>
  What an insert of version rows does, whatever its outcome: it appends rows of its provider
  without artifacts, touches nothing else but the identity column, and keeps the tables well
  formed.
\<close>

definition new_row :: "int \<Rightarrow> version_row \<Rightarrow> bool" where
  "new_row pid r \<longleftrightarrow>
     vr_provider_id r = pid \<and> vr_artifact_id r = None \<and> vr_artifact_timestamp r = None"

definition other_part :: "pg \<Rightarrow> provider_row list \<times> host_row list \<times> int \<times> int \<times> int \<times> nat" where
  "other_part db = (providers db, hosts db, provider_ids db, host_ids db, artifact_ids db, now db)"

lemma version_row_appended:
  assumes "pg_wf db" and "nextval (version_ids db) = Ok i"
    and "pid \<in> pr_id ` set (providers db)" and "version_check v os ar"
    and "\<not> (\<exists>r \<in> set (versions db). version_key r = (pid, v, os, ar))"
  shows "pg_wf (db\<lparr>version_ids := i + 1, versions := versions db @
    [\<lparr>vr_id = i, vr_provider_id = pid, vr_version = v, vr_os = os, vr_arch = ar,
      vr_artifact_id = None, vr_artifact_timestamp = None\<rparr>]\<rparr>)"
proof -
  from assms(2) have i: "i = version_ids db" "i \<le> i64_max" by (auto dest: nextval_Ok)
  have "i \<notin> vr_id ` set (versions db)" and "1 \<le> i"
    using assms(1) i by (auto simp: wf_defs list_all_iff id_ok_def seq_ok_def)
  moreover have "(pid, v, os, ar) \<notin> version_key ` set (versions db)"
    using assms(5) by (metis imageE)
  ultimately show ?thesis
    using assms(1,3,4) i
    by (auto simp: wf_defs list_all_iff id_ok_def seq_ok_def version_key_def upload_check_def
        artifact_id_column_def map_filter_def)
qed

lemma version_ids_bumped:
  assumes "pg_wf db" and "nextval (version_ids db) = Ok i"
  shows "pg_wf (db\<lparr>version_ids := i + 1\<rparr>)"
  using assms by (auto simp: wf_defs list_all_iff id_ok_def seq_ok_def dest!: nextval_Ok)

lemma insert_version_rows_spec:
  assumes "pg_wf db" and "pid \<in> pr_id ` set (providers db)"
    and "insert_version_rows pid rows db = (r, db')"
  shows "pg_wf db' \<and> other_part db' = other_part db \<and>
    (\<exists>new. versions db' = versions db @ new \<and> list_all (new_row pid) new \<and>
      version_triple ` set new \<subseteq> set rows \<and>
      (\<forall>returned. r = Ok returned \<longrightarrow> returned = map version_triple new \<and>
         set rows \<subseteq> version_triple ` {x \<in> set (versions db'). vr_provider_id x = pid}))"
  using assms
proof (induction rows arbitrary: db r)
  case Nil
  then show ?case by auto
next
  case (Cons row rows)
  obtain v os ar where row: "row = (v, os, ar)" by (cases row)
  show ?case
  proof (cases "nextval (version_ids db)")
    case (Err e)
    with Cons.prems show ?thesis by (auto simp: row)
  next
    case (Ok i)
    let ?db = "db\<lparr>version_ids := i + 1\<rparr>"
    note bumped = version_ids_bumped [OF Cons.prems(1) Ok]
    show ?thesis
    proof (cases "version_check v os ar")
      case False
      with Ok Cons.prems(3) bumped show ?thesis by (auto simp: row other_part_def)
    next
      case check: True
      show ?thesis
      proof (cases "\<exists>x \<in> set (versions db). version_key x = (pid, v, os, ar)")
        case True
        with Ok check Cons.prems(3) have rest: "insert_version_rows pid rows ?db = (r, db')"
          by (simp add: row)
        from True obtain x where "x \<in> set (versions db)" "vr_provider_id x = pid"
            "version_triple x = (v, os, ar)"
          by (auto simp: version_key_def version_triple_def)
        note x = this
        have "pid \<in> pr_id ` set (providers ?db)" using Cons.prems(2) by simp
        from Cons.IH [OF bumped this rest] obtain new where IH: "pg_wf db'"
            "other_part db' = other_part ?db" "versions db' = versions ?db @ new"
            "list_all (new_row pid) new" "version_triple ` set new \<subseteq> set rows"
            "\<forall>returned. r = Ok returned \<longrightarrow> returned = map version_triple new \<and>
               set rows \<subseteq> version_triple ` {x \<in> set (versions db'). vr_provider_id x = pid}"
          by blast
        have "(v, os, ar) \<in> version_triple ` {x \<in> set (versions db'). vr_provider_id x = pid}"
          using x IH(3) by (intro image_eqI [of _ _ x]) auto
        then show ?thesis
          using IH by (intro conjI exI [of _ new]) (auto simp: row other_part_def)
      next
        case False
        let ?row = "\<lparr>vr_id = i, vr_provider_id = pid, vr_version = v, vr_os = os, vr_arch = ar,
          vr_artifact_id = None, vr_artifact_timestamp = None\<rparr>"
        let ?db2 = "db\<lparr>version_ids := i + 1, versions := versions db @ [?row]\<rparr>"
        obtain r2 where rest: "insert_version_rows pid rows ?db2 = (r2, db')"
            and r: "r = (case r2 of Err e \<Rightarrow> Err e | Ok returned \<Rightarrow> Ok ((v, os, ar) # returned))"
          using False Ok check Cons.prems(3)
          by (cases "insert_version_rows pid rows ?db2")
            (auto simp: row Let_def split: result.splits)
        have "pid \<in> pr_id ` set (providers ?db2)" using Cons.prems(2) by simp
        from Cons.IH [OF version_row_appended [OF Cons.prems(1) Ok Cons.prems(2) check False] this rest]
        obtain new where IH: "pg_wf db'" "other_part db' = other_part ?db2"
            "versions db' = versions ?db2 @ new" "list_all (new_row pid) new"
            "version_triple ` set new \<subseteq> set rows"
            "\<forall>returned. r2 = Ok returned \<longrightarrow> returned = map version_triple new \<and>
               set rows \<subseteq> version_triple ` {x \<in> set (versions db'). vr_provider_id x = pid}"
          by blast
        have x: "new_row pid ?row" "version_triple ?row = (v, os, ar)"
          by (simp_all add: new_row_def version_triple_def)
        have app: "versions db' = versions db @ (?row # new)" using IH(3) by simp
        have "(v, os, ar) \<in> version_triple ` {x \<in> set (versions db'). vr_provider_id x = pid}"
          using x(2) app by (intro image_eqI [of _ _ ?row]) auto
        moreover have "other_part db' = other_part db" using IH(2) by (simp add: other_part_def)
        ultimately show ?thesis
          using IH(1,4,5,6) r x app
          by (intro conjI exI [of _ "?row # new"]) (auto simp: row split: result.splits)
      qed
    qed
  qed
qed

section \<open>The transaction\<close>

text \<open>What the statements of the transaction may do to a database on the way: the tables stay
  well formed and the sequences only advance.\<close>

definition advanced :: "pg \<Rightarrow> pg \<Rightarrow> bool" where
  "advanced db w \<longleftrightarrow> pg_wf w \<and> hosts w = hosts db \<and> host_ids w = host_ids db \<and>
     artifact_ids w = artifact_ids db \<and> now w = now db \<and>
     provider_ids db \<le> provider_ids w \<and> version_ids db \<le> version_ids w"

lemma fault_blind_advanced [simp]: "fault_blind (advanced db)"
  by (simp add: fault_blind_def advanced_def wf_defs)

lemma advanced_refl: "pg_wf db \<Longrightarrow> advanced db db"
  by (simp add: advanced_def)

lemma advanced_trans: "advanced a b \<Longrightarrow> advanced b c \<Longrightarrow> advanced a c"
  by (auto simp: advanced_def)

lemma advanced_abandon: "pg_wf db \<Longrightarrow> advanced db w \<Longrightarrow> pg_wf (abandon db w)"
  by (auto simp: advanced_def abandon_def wf_defs list_all_iff id_ok_def)

lemma upsert_provider_advanced:
  assumes "pg_wf db"
  shows "advanced db (snd (upsert_provider hostname namespace type db))"
  using upsert_provider_wf [OF assms]
  by (auto simp: advanced_def upsert_provider_def Let_def dest!: nextval_Ok split: result.splits)

lemma insert_version_rows_seq:
  "version_ids db \<le> version_ids (snd (insert_version_rows pid rows db))"
proof (induction rows arbitrary: db)
  case Nil
  then show ?case by simp
next
  case (Cons row rows)
  obtain v os ar where row: "row = (v, os, ar)" by (cases row)
  show ?case
  proof (cases "nextval (version_ids db)")
    case (Err e)
    then show ?thesis by (simp add: row)
  next
    case (Ok i)
    then have i: "version_ids db \<le> i + 1" by (auto dest: nextval_Ok)
    have "version_ids db \<le> version_ids (snd (insert_version_rows pid rows d))"
      if "version_ids d = i + 1" for d
      using Cons.IH [of d] that i by simp
    with Ok i show ?thesis by (simp add: row Let_def split_beta split: result.split)
  qed
qed

definition id_keys :: "pg \<Rightarrow> (int \<times> string \<times> string \<times> string) set" where
  "id_keys db = (\<lambda>p. (pr_id p, provider_key p)) ` set (providers db)"

lemma pg_wf_id_keys:
  assumes "pg_wf db" and "(i, k) \<in> id_keys db" and "(j, l) \<in> id_keys db"
  shows "i = j \<longleftrightarrow> k = l"
  using assms distinct_map_inj [of pr_id "providers db"] distinct_map_inj [of provider_key "providers db"]
  by (auto simp: id_keys_def wf_defs)

lemma upsert_provider_Ok:
  assumes "upsert_provider hostname namespace type db = (Ok k, db')"
  shows "versions db' = versions db \<and>
    (\<exists>pid. id_keys db' = insert (pid, (hostname, namespace, type)) (id_keys db))"
proof -
  let ?key = "(hostname, namespace, type)"
  let ?f = "\<lambda>p. if provider_key p = ?key then p\<lparr>pr_last_refreshed := now db\<rparr> else p"
  obtain i where i: "nextval (provider_ids db) = Ok i"
    using assms by (auto simp: upsert_provider_def split: result.splits)
  have upd: "(\<lambda>p. (pr_id p, provider_key p)) \<circ> ?f = (\<lambda>p. (pr_id p, provider_key p))"
    by (auto simp: provider_key_def)
  show ?thesis
  proof (cases "\<exists>p \<in> set (providers db). provider_key p = ?key")
    case True
    then obtain p where p: "p \<in> set (providers db)" "provider_key p = ?key" by blast
    from True i assms have db': "db' = db\<lparr>provider_ids := i + 1, providers := map ?f (providers db)\<rparr>"
      by (auto simp: upsert_provider_def Let_def split: if_splits)
    have rows: "providers db' = map ?f (providers db)" by (simp add: db')
    have "id_keys db' = id_keys db" by (simp only: id_keys_def rows set_map image_comp upd)
    also have "\<dots> = insert (pr_id p, ?key) (id_keys db)"
      using p by (auto simp: id_keys_def image_iff intro: bexI [of _ p])
    finally show ?thesis by (auto simp: db')
  next
    case False
    with i assms have "db' = db\<lparr>provider_ids := i + 1, providers := providers db @
        [\<lparr>pr_id = i, pr_hostname = hostname, pr_namespace = namespace, pr_type = type,
          pr_last_refreshed = now db\<rparr>]\<rparr>"
      by (auto simp: upsert_provider_def Let_def split: if_splits)
    then show ?thesis by (auto simp: id_keys_def provider_key_def)
  qed
qed

lemma insert_versions_advanced:
  assumes "pg_wf db"
  shows "advanced db (snd (insert_versions hostname namespace type rows db))"
proof (cases "filter (\<lambda>p. provider_key p = (hostname, namespace, type)) (providers db)")
  case Nil
  with assms show ?thesis by (simp add: insert_versions_def advanced_refl)
next
  case (Cons p ps)
  then have p: "pr_id p \<in> pr_id ` set (providers db)"
    by (auto dest: filter_first)
  obtain r db' where q: "insert_version_rows (pr_id p) rows db = (r, db')" by fastforce
  show ?thesis
    using insert_version_rows_spec [OF assms p q] insert_version_rows_seq [of db "pr_id p" rows]
    by (simp add: Cons insert_versions_def q advanced_def other_part_def)
qed

text \<open>Rows stored under one provider: appended rows that make its platform triples those of
  before plus those of the answer.\<close>

definition stored ::
  "string \<times> string \<times> string \<Rightarrow> (string \<times> string \<times> string) list \<Rightarrow> pg \<Rightarrow> pg \<Rightarrow> version_row list \<Rightarrow> bool"
where
  "stored key rows db db' new \<longleftrightarrow>
     (\<exists>pid. id_keys db' = insert (pid, key) (id_keys db) \<and>
       versions db' = versions db @ new \<and> list_all (new_row pid) new \<and>
       version_triple ` set new \<subseteq> set rows \<and>
       set rows \<subseteq> version_triple ` {x \<in> set (versions db'). vr_provider_id x = pid})"

lemma insert_versions_stored:
  assumes "pg_wf w" and "id_keys w = insert (pid, (hostname, namespace, type)) (id_keys db)"
    and "versions w = versions db"
    and "insert_versions hostname namespace type rows w = (Ok returned, w')"
  shows "\<exists>new. stored (hostname, namespace, type) rows db w' new \<and> length returned = length new"
proof (cases "filter (\<lambda>p. provider_key p = (hostname, namespace, type)) (providers w)")
  case Nil
  moreover have "(pid, (hostname, namespace, type)) \<in> id_keys w" using assms(2) by simp
  ultimately show ?thesis by (auto simp: id_keys_def filter_empty_conv)
next
  case (Cons p ps)
  then have p: "p \<in> set (providers w)" "provider_key p = (hostname, namespace, type)"
    by (auto dest: filter_first)
  then have "(pr_id p, (hostname, namespace, type)) \<in> id_keys w"
    by (auto simp: id_keys_def image_iff intro: bexI [of _ p])
  with pg_wf_id_keys [OF assms(1) this, of pid "(hostname, namespace, type)"] assms(2)
  have pid: "pr_id p = pid" by simp
  from p(1) pid have "pid \<in> pr_id ` set (providers w)" by auto
  from insert_version_rows_spec [OF assms(1) this, of rows "Ok returned" w'] assms(4) Cons pid
  obtain new where new: "other_part w' = other_part w" "versions w' = versions w @ new"
      "list_all (new_row pid) new" "version_triple ` set new \<subseteq> set rows"
      "returned = map version_triple new"
      "set rows \<subseteq> version_triple ` {x \<in> set (versions w'). vr_provider_id x = pid}"
    by (auto simp: insert_versions_def)
  moreover have "id_keys w' = id_keys w" using new(1) by (simp add: other_part_def id_keys_def)
  ultimately show ?thesis
    using assms(2,3) by (intro exI [of _ new]) (auto simp: stored_def)
qed

lemma commit_abandon: "snd (commit w ((abandon db w)\<lparr>faults := fs\<rparr>)) = w\<lparr>faults := fs\<rparr>"
  by (cases w) (simp add: commit_def abandon_def)

lemma stored_faults [simp]:
  "stored key rows (db\<lparr>faults := fs\<rparr>) db' new = stored key rows db db' new"
  "stored key rows db (db'\<lparr>faults := fs\<rparr>) new = stored key rows db db' new"
  by (simp_all add: stored_def id_keys_def)

lemma advanced_faults [simp]:
  "advanced (db\<lparr>faults := fs\<rparr>) w = advanced db w" "advanced db (w\<lparr>faults := fs\<rparr>) = advanced db w"
  by (simp_all add: advanced_def wf_defs)

text \<open>The outcome of a transaction: a failure that left the tables as they were, or the rows
  stored (which a lost reply to the commit also reports as a failure).\<close>

definition kept_or_stored ::
  "string \<times> string \<times> string \<Rightarrow> (string \<times> string \<times> string) list \<Rightarrow> pg \<Rightarrow>
    nat option \<Rightarrow> pg \<Rightarrow> bool"
where
  "kept_or_stored key rows db added db' \<longleftrightarrow> advanced db db' \<and>
     (added = None \<and> providers db' = providers db \<and> versions db' = versions db \<or>
      (\<exists>new. stored key rows db db' new \<and> (\<forall>n. added = Some n \<longrightarrow> n = length new)))"

lemma kept_or_stored_faults [simp]:
  "kept_or_stored key rows (db\<lparr>faults := fs\<rparr>) r db' = kept_or_stored key rows db r db'"
  "kept_or_stored key rows db r (db'\<lparr>faults := fs\<rparr>) = kept_or_stored key rows db r db'"
  by (simp_all add: kept_or_stored_def)

lemma abandoned:
  assumes "pg_wf db" and "advanced db w"
  shows "kept_or_stored key rows db None (abandon db w)"
  using advanced_abandon [OF assms] assms(2)
  by (auto simp: kept_or_stored_def advanced_def abandon_def)

lemma send_advanced:
  assumes "pg_wf db" and "\<And>d. pg_wf d \<Longrightarrow> advanced d (snd (q d))"
    and "send_statement q db = (r, db')"
  shows "advanced db db'"
proof -
  have "advanced db (snd (send_statement q db))"
  proof (rule send_statement_keeps)
    show "advanced db db" using assms(1) by (rule advanced_refl)
    show "advanced db (snd (q d))" if "advanced db d" for d
      using that assms(2) [of d] advanced_trans [of db d] by (simp add: advanced_def)
  qed simp
  with assms(3) show ?thesis by simp
qed

lemma committed:
  assumes "pg_wf db" and "advanced db w" and "stored key rows db w new"
    and "send_statement (commit w) (abandon db w) = (c, db')"
  shows "kept_or_stored key rows db (map_option (\<lambda>_. length new) (ok_value c)) db'"
proof -
  let ?fs = "tl (faults (abandon db w))"
  have w: "kept_or_stored key rows db (map_option (\<lambda>_. length new) (ok_value c)) (w\<lparr>faults := fs\<rparr>)" for fs
    using assms(2,3) by (auto simp: kept_or_stored_def)
  show ?thesis
  proof (cases c)
    case (Ok u)
    with assms(4) obtain fs where "commit w ((abandon db w)\<lparr>faults := fs\<rparr>) = (Ok u, db')"
      by (auto dest: send_statement_Ok)
    with commit_abandon [where w = w and db = db and fs = fs] have "db' = w\<lparr>faults := fs\<rparr>" by simp
    with w show ?thesis by simp
  next
    case (Err e)
    from send_statement_outcome [of "commit w" "abandon db w"] commit_abandon [where w = w and db = db and fs = ?fs] assms(4)
    consider "db' = w\<lparr>faults := ?fs\<rparr>" | "db' = (abandon db w)\<lparr>faults := ?fs\<rparr>" by auto
    then show ?thesis
    proof cases
      case 1
      with w show ?thesis by simp
    next
      case 2
      with abandoned [OF assms(1,2)] Err show ?thesis by simp
    qed
  qed
qed

lemma upsert_sent:
  assumes "pg_wf db"
    and "send_statement (upsert_provider hostname namespace type) db = (Ok k, w)"
  shows "\<exists>pid. id_keys w = insert (pid, (hostname, namespace, type)) (id_keys db)"
    and "versions w = versions db"
proof -
  from assms(2) obtain fs where
    "upsert_provider hostname namespace type (db\<lparr>faults := fs\<rparr>) = (Ok k, w)"
    by (auto dest: send_statement_Ok)
  from upsert_provider_Ok [OF this]
  show "\<exists>pid. id_keys w = insert (pid, (hostname, namespace, type)) (id_keys db)"
      and "versions w = versions db"
    by (simp_all add: id_keys_def)
qed

lemma insert_sent:
  assumes "pg_wf w" and "id_keys w = insert (pid, (hostname, namespace, type)) (id_keys db)"
    and "versions w = versions db"
    and "send_statement (insert_versions hostname namespace type rows) w = (Ok returned, w')"
  shows "\<exists>new. stored (hostname, namespace, type) rows db w' new \<and> length returned = length new"
proof -
  from assms(4) obtain fs where
    "insert_versions hostname namespace type rows (w\<lparr>faults := fs\<rparr>) = (Ok returned, w')"
    by (auto dest: send_statement_Ok)
  from insert_versions_stored [OF _ _ _ this, of pid db] assms(1-3) show ?thesis
    by (simp add: id_keys_def wf_defs)
qed

lemma store_provider_versions_outcome:
  assumes wf: "pg_wf db"
    and run: "store_provider_versions hostname namespace type response db = (r, db')"
  shows "kept_or_stored (hostname, namespace, type)
    (platform_triples (pvs_versions response)) db (ok_value r) db'" (is "kept_or_stored ?key ?rows _ _ _")
proof -
  obtain b db1 where b: "send_statement begin_transaction db = (b, db1)" by fastforce
  then obtain fs where db1: "db1 = db\<lparr>faults := fs\<rparr>"
    using send_statement_outcome [of begin_transaction db] by (auto simp: begin_transaction_def)
  have wf1: "pg_wf db1" using wf by (simp add: db1 wf_defs)
  obtain p w1 where p: "send_statement (upsert_provider hostname namespace type) db1 = (p, w1)"
    by fastforce
  from send_advanced [OF wf1 upsert_provider_advanced p] have w1: "advanced db1 w1" .
  then have wf_w1: "pg_wf w1" by (simp add: advanced_def)
  obtain i w2 where i: "send_statement (insert_versions hostname namespace type ?rows) w1 = (i, w2)"
    by fastforce
  from send_advanced [OF wf_w1 insert_versions_advanced i] w1 have w2: "advanced db1 w2"
    by (rule advanced_trans [rotated])
  consider e where "b = Err e" | u e where "b = Ok u" "p = Err e"
    | u k e where "b = Ok u" "p = Ok k" "i = Err e"
    | u k returned where "b = Ok u" "p = Ok k" "i = Ok returned"
    by (cases b; cases p; cases i) auto
  then have "kept_or_stored ?key ?rows db1 (ok_value r) db'"
  proof cases
    case 1
    with run b wf show ?thesis
      by (auto simp: store_provider_versions_def db1 kept_or_stored_def advanced_refl)
  next
    case 2
    with run b p abandoned [OF wf1 w1] show ?thesis by (auto simp: store_provider_versions_def)
  next
    case 3
    with run b p i abandoned [OF wf1 w2] show ?thesis
      by (auto simp: store_provider_versions_def unnest_columns)
  next
    case 4
    from b p i 4 have sent: "send_statement begin_transaction db = (Ok u, db1)"
        "send_statement (upsert_provider hostname namespace type) db1 = (Ok k, w1)"
        "send_statement (insert_versions hostname namespace type ?rows) w1 = (Ok returned, w2)"
      by simp_all
    note up = upsert_sent [OF wf1 sent(2)]
    from up(1) obtain pid where pid: "id_keys w1 = insert (pid, ?key) (id_keys db1)" ..
    from insert_sent [OF wf_w1 pid up(2) sent(3)]
    obtain new where new: "stored ?key ?rows db1 w2 new" "length returned = length new" by auto
    obtain c db2 where c: "send_statement (commit w2) (abandon db1 w2) = (c, db2)" by fastforce
    have "store_provider_versions hostname namespace type response db =
        (map_err DatabaseError (map_ok (\<lambda>_. length new) c), db2)"
      by (cases c) (simp_all add: store_provider_versions_def unnest_columns sent c new(2))
    with run have "r = map_err DatabaseError (map_ok (\<lambda>_. length new) c)" and "db' = db2"
      by simp_all
    with committed [OF wf1 w2 new(1) c] show ?thesis by simp
  qed
  then show ?thesis by (simp add: db1)
qed

section \<open>The catalogue as a set of platforms per provider\<close>

definition provider_triple :: "terraform_provider \<Rightarrow> string \<times> string \<times> string" where
  "provider_triple tp = (tp_hostname tp, tp_namespace tp, tp_type tp)"

lemma provider_triple_inj [simp]: "provider_triple a = provider_triple b \<longleftrightarrow> a = b"
  by (cases a; cases b) (auto simp: provider_triple_def)

text \<open>The version, system and architecture triples stored for a provider.\<close>

definition catalog :: "pg \<Rightarrow> terraform_provider \<Rightarrow> (string \<times> string \<times> string) set" where
  "catalog db tp =
     version_triple ` {v \<in> set (versions db). (vr_provider_id v, provider_triple tp) \<in> id_keys db}"

definition index_of_set :: "(string \<times> string \<times> string) set \<Rightarrow> mirror_index" where
  "index_of_set T = \<lparr>mi_versions = (\<lambda>v. if v \<in> fst ` T then Some Map.empty else None)\<rparr>"

lemma fault_blind_catalog_at [simp]: "fault_blind (\<lambda>db. catalog db = f)"
  by (simp add: fault_blind_def catalog_def id_keys_def fun_eq_iff)

lemma catalog_faults [simp]: "catalog (db\<lparr>faults := fs\<rparr>) = catalog db"
  by (simp add: catalog_def id_keys_def fun_eq_iff)

lemma catalog_same_tables:
  "providers db' = providers db \<Longrightarrow> versions db' = versions db \<Longrightarrow> catalog db' = catalog db"
  by (simp add: catalog_def id_keys_def fun_eq_iff)

lemma version_has_provider:
  "pg_wf db \<Longrightarrow> v \<in> set (versions db) \<Longrightarrow> \<exists>k. (vr_provider_id v, k) \<in> id_keys db"
proof -
  assume "pg_wf db" and "v \<in> set (versions db)"
  then have "vr_provider_id v \<in> pr_id ` set (providers db)"
    by (simp add: wf_defs list_all_iff)
  then obtain p where "p \<in> set (providers db)" and "vr_provider_id v = pr_id p" by auto
  then have "(vr_provider_id v, provider_key p) \<in> id_keys db" by (auto simp: id_keys_def)
  then show ?thesis ..
qed

lemma stored_catalog:
  assumes "stored (provider_triple tp) rows db db' new" and "pg_wf db" and "pg_wf db'"
  shows "catalog db' = (catalog db)(tp := catalog db tp \<union> set rows)"
proof -
  from assms(1) obtain pid where keys: "id_keys db' = insert (pid, provider_triple tp) (id_keys db)"
      and vs: "versions db' = versions db @ new" and fresh: "list_all (new_row pid) new"
      and sub: "version_triple ` set new \<subseteq> set rows"
      and all: "set rows \<subseteq> version_triple ` {x \<in> set (versions db'). vr_provider_id x = pid}"
    by (auto simp: stored_def)
  have old: "(vr_provider_id v, k) \<in> id_keys db' \<longleftrightarrow> (vr_provider_id v, k) \<in> id_keys db"
    if "v \<in> set (versions db)" for v k
    using version_has_provider [OF assms(2) that] pg_wf_id_keys [OF assms(3)] keys by blast
  have this_key: "(pid, provider_triple tp') \<in> id_keys db' \<longleftrightarrow> tp' = tp" for tp'
    using pg_wf_id_keys [OF assms(3), of pid "provider_triple tp'" pid "provider_triple tp"] keys
    by auto
  show ?thesis
  proof
    fix tp'
    have "{v \<in> set (versions db'). (vr_provider_id v, provider_triple tp') \<in> id_keys db'} =
        {v \<in> set (versions db). (vr_provider_id v, provider_triple tp') \<in> id_keys db} \<union>
        {v \<in> set new. tp' = tp}"
      using old [of _ "provider_triple tp'"] fresh this_key
      by (auto simp: vs list_all_iff new_row_def)
    then have parts: "catalog db' tp' =
        catalog db tp' \<union> (if tp' = tp then version_triple ` set new else {})"
      by (simp add: catalog_def image_Un)
    have "catalog db' tp \<supseteq> set rows"
      using all this_key [of tp] by (auto simp: catalog_def)
    then show "catalog db' tp' = ((catalog db)(tp := catalog db tp \<union> set rows)) tp'"
      using parts sub by (cases "tp' = tp") auto
  qed
qed

lemma select_versions_set:
  assumes "send_statement (select_versions h n t) db = (Ok rows, db')"
  shows "\<exists>vs. rows = map Some vs \<and> set vs = fst ` catalog db \<lparr>tp_hostname = h, tp_namespace = n, tp_type = t\<rparr>"
proof -
  let ?vs = "[vr_version v. v \<leftarrow> versions db, p \<leftarrow> providers db,
    vr_provider_id v = pr_id p \<and> pr_hostname p = h \<and> pr_namespace p = n \<and> pr_type p = t]"
  from assms have "rows = [Some (vr_version v). v \<leftarrow> versions db, p \<leftarrow> providers db,
    vr_provider_id v = pr_id p \<and> pr_hostname p = h \<and> pr_namespace p = n \<and> pr_type p = t]"
    by (auto simp: select_versions_def dest!: send_statement_Ok)
  then have "rows = map Some ?vs"
    by (simp add: map_concat comp_def if_distrib cong: if_cong)
  moreover have "set ?vs = fst ` catalog db \<lparr>tp_hostname = h, tp_namespace = n, tp_type = t\<rparr>"
    by (force simp: catalog_def id_keys_def version_triple_def provider_key_def provider_triple_def)
  ultimately show ?thesis by blast
qed

section \<open>The contract of the catalogue\<close>

text \<open>
  What the index handler and the refresher rely on: a listing is the index of the stored
  triples, or nothing when there are none; storing an answer adds its triples to those of its
  provider and to no other, and where it fails it has added them or not.
\<close>

locale version_catalog =
  fixes lst :: "'k \<Rightarrow> 'd \<Rightarrow> (mirror_index option, terrashine_error) result \<times> 'd"
    and sto :: "'k \<Rightarrow> provider_versions \<Rightarrow> 'd \<Rightarrow> (nat, terrashine_error) result \<times> 'd"
    and triples :: "'d \<Rightarrow> 'k \<Rightarrow> (string \<times> string \<times> string) set"
    and inv :: "'d \<Rightarrow> bool"
  assumes list_answer: "inv d \<Longrightarrow> lst k d = (Ok r, d') \<Longrightarrow>
      r = (if triples d k = {} then None else Some (index_of_set (triples d k)))"
    and list_triples: "inv d \<Longrightarrow> triples (snd (lst k d)) = triples d"
    and list_inv: "inv d \<Longrightarrow> inv (snd (lst k d))"
    and add_inv: "inv d \<Longrightarrow> inv (snd (sto k pv d))"
    and add_Ok: "inv d \<Longrightarrow> sto k pv d = (Ok n, d') \<Longrightarrow>
      triples d' = (triples d)(k := triples d k \<union> set (platform_triples (pvs_versions pv)))"
    and add_Err: "inv d \<Longrightarrow> sto k pv d = (Err e, d') \<Longrightarrow> triples d' = triples d \<or>
      triples d' = (triples d)(k := triples d k \<union> set (platform_triples (pvs_versions pv)))"
begin

lemma triples_grow: "inv d \<Longrightarrow> triples d k \<subseteq> triples (snd (sto k' pv d)) k"
  using add_Ok [of d k' pv] add_Err [of d k' pv]
  by (cases "sto k' pv d"; cases "fst (sto k' pv d)") force+

lemma triples_frame: "inv d \<Longrightarrow> k \<noteq> k' \<Longrightarrow> triples (snd (sto k' pv d)) k = triples d k"
  using add_Ok [of d k' pv] add_Err [of d k' pv]
  by (cases "sto k' pv d"; cases "fst (sto k' pv d)") force+

text \<open>After an answer is stored, the listing has the versions of before and every version of
  the answer that has a platform.\<close>

lemma listed_after_add:
  assumes "inv d" and "sto k pv d = (Ok n, d1)" and "lst k d1 = (Ok r, d2)"
  shows "r = (let T = triples d k \<union> set (platform_triples (pvs_versions pv))
    in if T = {} then None else Some (index_of_set T))"
  using add_inv [OF assms(1), of k pv] assms list_answer [of d1 k r d2] add_Ok [OF assms(1,2)]
  by (simp add: Let_def)

end

lemma index_of_strings_index_of_set:
  "set vs = fst ` T \<Longrightarrow> index_of_strings vs = index_of_set T"
  by (simp add: index_of_set_def index_of_strings_def hash_map_const)

lemma terraform_provider_eta [simp]:
  "\<lparr>tp_hostname = tp_hostname tp, tp_namespace = tp_namespace tp, tp_type = tp_type tp\<rparr> = tp"
  by (cases tp) simp

lemma list_provider_versions_answer:
  assumes "list_provider_versions h n t db = (Ok r, db')"
  shows "r = (let T = catalog db \<lparr>tp_hostname = h, tp_namespace = n, tp_type = t\<rparr>
    in if T = {} then None else Some (index_of_set T))"
proof -
  from assms obtain rows where rows: "send_statement (select_versions h n t) db = (Ok rows, db')"
      and r: "r = (case rows of [] \<Rightarrow> None | _ \<Rightarrow>
        Some (index_of_strings (case those rows of None \<Rightarrow> [] | Some vs \<Rightarrow> vs)))"
    by (auto simp: list_provider_versions_def split: prod.splits result.splits list.splits)
  from select_versions_set [OF rows] obtain vs where "rows = map Some vs"
      and "set vs = fst ` catalog db \<lparr>tp_hostname = h, tp_namespace = n, tp_type = t\<rparr>" by blast
  then show ?thesis
    using r index_of_strings_index_of_set [of vs] by (cases vs) (auto simp: Let_def)
qed

lemma list_provider_versions_keeps:
  assumes "fault_blind P" and "P db"
  shows "P (snd (list_provider_versions h n t db))"
proof -
  have "P (snd (send_statement (select_versions h n t) db))"
    by (rule send_statement_keeps [OF assms(1) _ assms(2)]) (simp add: select_versions_def)
  then show ?thesis
    by (cases "send_statement (select_versions h n t) db")
      (simp add: list_provider_versions_def split: result.split list.split)
qed

abbreviation list_provider :: "terraform_provider \<Rightarrow> pg \<Rightarrow> (mirror_index option, terrashine_error) result \<times> pg" where
  "list_provider tp \<equiv> list_provider_versions (tp_hostname tp) (tp_namespace tp) (tp_type tp)"

abbreviation store_provider :: "terraform_provider \<Rightarrow> provider_versions \<Rightarrow> pg \<Rightarrow> (nat, terrashine_error) result \<times> pg" where
  "store_provider tp \<equiv> store_provider_versions (tp_hostname tp) (tp_namespace tp) (tp_type tp)"

lemma kept_or_stored_catalog:
  assumes "pg_wf db" and "kept_or_stored (provider_triple tp) rows db added db'"
  shows "pg_wf db'"
    and "catalog db' = (catalog db)(tp := catalog db tp \<union> set rows) \<or>
      (added = None \<and> catalog db' = catalog db)"
  using assms stored_catalog [of tp rows db db'] catalog_same_tables [of db' db]
  by (auto simp: kept_or_stored_def advanced_def)

interpretation cat: version_catalog list_provider store_provider catalog pg_wf
proof unfold_locales
  fix db db' tp r n e pv
  assume wf: "pg_wf db"
  have outcome: "kept_or_stored (provider_triple tp) (platform_triples (pvs_versions pv)) db
      (ok_value (fst (store_provider tp pv db))) (snd (store_provider tp pv db))"
    using store_provider_versions_outcome [OF wf] by (simp add: provider_triple_def)
  show "list_provider tp db = (Ok r, db') \<Longrightarrow>
      r = (if catalog db tp = {} then None else Some (index_of_set (catalog db tp)))"
    using list_provider_versions_answer [of "tp_hostname tp" "tp_namespace tp" "tp_type tp" db r db']
    by (simp add: Let_def)
  show "catalog (snd (list_provider tp db)) = catalog db"
    using list_provider_versions_keeps [of "\<lambda>d. catalog d = catalog db"] by simp
  show "pg_wf (snd (list_provider tp db))"
    using list_provider_versions_keeps [of pg_wf] wf by simp
  show "pg_wf (snd (store_provider tp pv db))"
    using kept_or_stored_catalog(1) [OF wf outcome] .
  show "store_provider tp pv db = (Ok n, db') \<Longrightarrow> catalog db' =
      (catalog db)(tp := catalog db tp \<union> set (platform_triples (pvs_versions pv)))"
    using kept_or_stored_catalog(2) [OF wf outcome] by auto
  show "store_provider tp pv db = (Err e, db') \<Longrightarrow> catalog db' = catalog db \<or> catalog db' =
      (catalog db)(tp := catalog db tp \<union> set (platform_triples (pvs_versions pv)))"
    using kept_or_stored_catalog(2) [OF wf outcome] by auto
qed

section \<open>Refreshing\<close>

text \<open>A refresh reads credentials and writes the catalogue; only an upstream answer for this
  provider is ever added to it.\<close>

lemma provider_get_database:
  assumes wf: "pg_wf db"
    and run: "provider_get up port database_helper decode hostname path db nt = (g, db1, nt1)"
  shows "pg_wf db1" and "database_view db1 = database_view db" and "catalog_part db1 = catalog_part db"
proof -
  show "pg_wf db1" and "database_view db1 = database_view db"
    using pgc.provider_get_keeps [OF wf, of up port decode hostname path nt] run by simp_all
  have "catalog_part (snd (transform database_helper db req hostname)) = catalog_part db" for req
    using database_get_keeps [of "\<lambda>d. catalog_part d = catalog_part db" db hostname]
    by (auto simp: transform_def database_helper_def split: prod.splits result.splits
        credential.splits option.splits)
  note kept = this
  have "db1 \<in> {db} \<union> range (\<lambda>req. snd (transform database_helper db req hostname))"
    using provider_get_store [of up port database_helper decode hostname path db nt]
    unfolding run by simp
  then show "catalog_part db1 = catalog_part db"
    using kept by (elim UnE rangeE) (simp_all only: singleton_iff)
qed

lemma catalog_part_catalog: "catalog_part db' = catalog_part db \<Longrightarrow> catalog db' = catalog db"
  by (rule catalog_same_tables) (simp_all add: catalog_part_def)

lemma refresh_versions_spec:
  assumes wf: "pg_wf db" and run: "refresh_versions up port tp db nt = (r, db', nt')"
  shows "pg_wf db' \<and> database_view db' = database_view db"
    and "r = Panic \<longleftrightarrow> url_parse up (discovery_url (tp_hostname tp) port) = None"
    and "(\<exists>pv. catalog db' = (catalog db)(tp := catalog db tp \<union> set (platform_triples (pvs_versions pv))) \<and>
        (\<forall>pv'. r = Done (Ok pv') \<longrightarrow> pv' = pv)) \<or>
      ((\<nexists>pv. r = Done (Ok pv)) \<and> catalog db' = catalog db)"
proof -
  obtain g db1 nt1 where g: "provider_get up port database_helper (json_versions up) (tp_hostname tp)
      (versions_path (tp_namespace tp) (tp_type tp)) db nt = (g, db1, nt1)"
    by (metis prod_cases3)
  note db1 = provider_get_database [OF wf g]
  note cat1 = catalog_part_catalog [OF db1(3)]
  have panic: "g = Panic \<longleftrightarrow> url_parse up (discovery_url (tp_hostname tp) port) = None"
    using provider_get_Panic [of up port database_helper "json_versions up" "tp_hostname tp"
        "versions_path (tp_namespace tp) (tp_type tp)" db nt] g by simp
  consider "g = Panic" "r = Panic" "db' = db1" | e where "g = Done (Err e)" "r = Done (Err e)" "db' = db1"
    | pv st where "g = Done (Ok pv)" "store_provider tp pv db1 = (st, db')"
        "r = Done (map_ok (\<lambda>_. pv) st)"
    using run g by (auto simp: refresh_versions_def split: run.splits result.splits prod.splits)
  note cases = this
  show "pg_wf db' \<and> database_view db' = database_view db"
    using cases
  proof cases
    case 3
    from store_provider_versions_outcome [OF db1(1) 3(2)]
    have "advanced db1 db'" by (simp add: kept_or_stored_def)
    with db1 show ?thesis by (simp add: advanced_def database_view_def fun_eq_iff)
  qed (use db1 in auto)
  show "r = Panic \<longleftrightarrow> url_parse up (discovery_url (tp_hostname tp) port) = None"
    using cases panic by cases auto
  show "(\<exists>pv. catalog db' = (catalog db)(tp := catalog db tp \<union> set (platform_triples (pvs_versions pv))) \<and>
        (\<forall>pv'. r = Done (Ok pv') \<longrightarrow> pv' = pv)) \<or>
      ((\<nexists>pv. r = Done (Ok pv)) \<and> catalog db' = catalog db)"
    using cases
  proof cases
    case 3
    show ?thesis
      using cat.add_Ok [OF db1(1), of tp pv _ db'] cat.add_Err [OF db1(1), of tp pv _ db'] 3 cat1
      by (cases st) auto
  qed (use cat1 in auto)
qed

section \<open>Storing twice\<close>

text \<open>The rows a store appends carry triples its provider did not have.\<close>

lemma stored_fresh:
  assumes "stored (provider_triple tp) rows db db' new" and "pg_wf db'" and "r \<in> set new"
  shows "version_triple r \<notin> catalog db tp"
proof
  assume "version_triple r \<in> catalog db tp"
  then obtain v where v: "v \<in> set (versions db)" "(vr_provider_id v, provider_triple tp) \<in> id_keys db"
      and tr: "version_triple v = version_triple r" by (auto simp: catalog_def)
  from assms(1) obtain pid where keys: "id_keys db' = insert (pid, provider_triple tp) (id_keys db)"
      and vs: "versions db' = versions db @ new" and new: "list_all (new_row pid) new"
    by (auto simp: stored_def)
  have "vr_provider_id v = pid"
    using pg_wf_id_keys [OF assms(2), of "vr_provider_id v" "provider_triple tp" pid "provider_triple tp"] v keys
    by auto
  moreover have "vr_provider_id r = pid" using new assms(3) by (simp add: list_all_iff new_row_def)
  ultimately have "version_key v = version_key r"
    using tr by (simp add: version_key_def version_triple_def)
  moreover have "version_key v \<noteq> version_key r"
    using assms(2,3) v vs by (auto simp: wf_defs)
  ultimately show False by contradiction
qed

section \<open>Properties\<close>

lemma store_provider_cases:
  assumes "pg_wf db" and "store_provider tp pv db = (r, db')"
  obtains (kept) e where "r = Err e" and "providers db' = providers db" and "versions db' = versions db"
      and "catalog db' = catalog db" and "pg_wf db'" and "hosts db' = hosts db"
  | (added) new where "stored (provider_triple tp) (platform_triples (pvs_versions pv)) db db' new"
      and "\<And>n. r = Ok n \<Longrightarrow> n = length new" and "pg_wf db'" and "hosts db' = hosts db"
proof -
  have "kept_or_stored (provider_triple tp) (platform_triples (pvs_versions pv)) db (ok_value r) db'"
    using store_provider_versions_outcome [OF assms] by (simp add: provider_triple_def)
  moreover from this have "pg_wf db'" "hosts db' = hosts db"
    by (simp_all add: kept_or_stored_def advanced_def)
  ultimately show ?thesis
    using kept added catalog_same_tables [of db' db] by (cases r) (auto simp: kept_or_stored_def)
qed


text \<open>
  Storing the same listing again adds nothing: the second store reports no new rows and
  leaves the version rows as they are.
\<close>

theorem store_provider_versions_idempotent:
  assumes "pg_wf db" and "store_provider_versions h n t pv db = (Ok k, db1)"
    and "store_provider_versions h n t pv db1 = (Ok l, db2)"
  shows "l = 0 \<and> versions db2 = versions db1"
proof -
  define tp where "tp = \<lparr>tp_hostname = h, tp_namespace = n, tp_type = t\<rparr>"
  from assms have one: "store_provider tp pv db = (Ok k, db1)" and two: "store_provider tp pv db1 = (Ok l, db2)"
    by (simp_all add: tp_def)
  have wf1: "pg_wf db1" using cat.add_inv [OF assms(1), of tp pv] one by simp
  from cat.add_Ok [OF assms(1) one]
  have "set (platform_triples (pvs_versions pv)) \<subseteq> catalog db1 tp" by simp
  moreover from wf1 two obtain new where
      new: "stored (provider_triple tp) (platform_triples (pvs_versions pv)) db1 db2 new" "l = length new" "pg_wf db2"
    by (cases rule: store_provider_cases) auto
  moreover have "version_triple ` set new \<subseteq> set (platform_triples (pvs_versions pv))"
    using new(1) by (auto simp: stored_def)
  ultimately have "version_triple ` set new \<subseteq> catalog db1 tp" by simp
  then have "version_triple x \<in> catalog db1 tp" if "x \<in> set new" for x using that by auto
  with stored_fresh [OF new(1,3)] have "x \<notin> set new" for x by auto
  then have "new = []" by (cases new) auto
  with new(1,2) show ?thesis by (auto simp: stored_def)
qed

text \<open>The versions a listing shows.\<close>

fun listed_versions :: "mirror_index option \<Rightarrow> string set" where
  "listed_versions None = {}"
| "listed_versions (Some idx) = dom (mi_versions idx)"

lemma listed_catalog:
  assumes "pg_wf db" and "list_provider tp db = (Ok listing, db')"
  shows "listed_versions listing = fst ` catalog db tp"
  using cat.list_answer [OF assms] by (auto simp: index_of_set_def dom_def)

lemma platform_triples_versions:
  "fst ` set (platform_triples items) = {v. \<exists>i \<in> set items. pv_version i = v \<and> pv_platforms i \<noteq> []}"
  by (auto simp: image_UN image_image image_constant_conv split: if_splits)

text \<open>
  C27: after a successful refresh the mirror lists the versions it knew and every version of the
  answer that has a platform, while the index made of the answer itself, which only the request
  that waited for the refresh gets, has the versions without a platform too.
\<close>

theorem listing_after_refresh:
  assumes "pg_wf db" and "refresh_versions up port tp db nt = (Done (Ok pv), db1, nt1)"
    and "list_provider_versions (tp_hostname tp) (tp_namespace tp) (tp_type tp) db1 = (Ok listing, db2)"
  shows "listed_versions listing =
      fst ` catalog db tp \<union> {v. \<exists>i \<in> set (pvs_versions pv). pv_version i = v \<and> pv_platforms i \<noteq> []} \<and>
    listed_versions (Some (index_of_provider_versions pv)) = pv_version ` set (pvs_versions pv)"
proof -
  note spec = refresh_versions_spec [OF assms(1,2)]
  then have "catalog db1 tp = catalog db tp \<union> set (platform_triples (pvs_versions pv))" by auto
  with listed_catalog [OF _ assms(3)] spec(1)
  have "listed_versions listing = fst ` catalog db tp \<union> fst ` set (platform_triples (pvs_versions pv))"
    by (simp add: image_Un)
  then show ?thesis
    unfolding platform_triples_versions by (simp add: index_of_provider_versions_set dom_def)
qed

end
