(* ===== verification/Uploads.thy ===== *)
theory Uploads
  imports Registry
begin

text \<open>
  The streaming half of \<^verbatim>\<open>src/http/artifacts.rs\<close>: the S3 client and the multipart
  upload inside \<^verbatim>\<open>stash_artifact\<close>. The S3 SDK is not part of the repository: its
  operations are the fields of \<open>s3_client\<close>. Every call is also written to a log that no
  definition reads.
\<close>

section \<open>The S3 client\<close>

type_synonym i32 = "32 word"

record completed_part =
  cp_e_tag :: string
  cp_part_number :: i32

record 's s3_client =
  create_multipart_upload :: "string \<Rightarrow> string \<Rightarrow> 's \<Rightarrow> (string option, sdk_error) result \<times> 's"
  upload_part :: "string \<Rightarrow> string \<Rightarrow> string \<Rightarrow> bytes \<Rightarrow> i32 \<Rightarrow> 's \<Rightarrow>
    (string option, sdk_error) result \<times> 's"
  complete_multipart_upload :: "string \<Rightarrow> string \<Rightarrow> string \<Rightarrow> completed_part list \<Rightarrow> 's \<Rightarrow>
    (unit, sdk_error) result \<times> 's"
  abort_multipart_upload :: "string \<Rightarrow> string \<Rightarrow> string \<Rightarrow> 's \<Rightarrow> (unit, sdk_error) result \<times> 's"
  presign_get_object :: "string \<Rightarrow> string \<Rightarrow> nat \<Rightarrow> (string, sdk_error) result"
  uri_parse :: "string \<Rightarrow> string option"

datatype s3_call =
    Create string string
  | Upload string string string bytes i32
  | Complete string string string "completed_part list"
  | Abort string string string

record 's s3 =
  s3_peer :: 's
  s3_calls :: "s3_call list"

definition s3_do :: "s3_call \<Rightarrow> ('s \<Rightarrow> ('a, sdk_error) result \<times> 's) \<Rightarrow> 's s3 \<Rightarrow>
    ('a, sdk_error) result \<times> 's s3" where
  "s3_do call f st =
     (let (r, p) = f (s3_peer st) in (r, st\<lparr>s3_peer := p, s3_calls := s3_calls st @ [call]\<rparr>))"

section \<open>Streaming into the bucket\<close>

definition s3_minimum_upload_chunk_bytes :: nat where
  "s3_minimum_upload_chunk_bytes = 10485760"

definition send_part ::
  "'s s3_client \<Rightarrow> string \<Rightarrow> string \<Rightarrow> string \<Rightarrow> bytes \<Rightarrow> i32 \<Rightarrow> 's s3 \<Rightarrow>
    (completed_part, anyhow_error) result \<times> 's s3"
where
  "send_part cl bucket key upload_id body part_number st =
     (case s3_do (Upload bucket key upload_id body part_number)
             (upload_part cl bucket key upload_id body part_number) st of
        (Err e, st') \<Rightarrow> (Err (From_sdk e), st')
      | (Ok None, st') \<Rightarrow> (Err (Message ''No etag found on response''), st')
      | (Ok (Some tag), st') \<Rightarrow> (Ok \<lparr>cp_e_tag = tag, cp_part_number = part_number\<rparr>, st'))"

definition abort_upload ::
  "'s s3_client \<Rightarrow> string \<Rightarrow> string \<Rightarrow> string \<Rightarrow> reqwest_error \<Rightarrow> 's s3 \<Rightarrow> anyhow_error \<times> 's s3"
where
  "abort_upload cl bucket key upload_id e st =
     (case s3_do (Abort bucket key upload_id) (abort_multipart_upload cl bucket key upload_id) st of
        (Ok _, st') \<Rightarrow> (With_context ''Upstream aborted while streaming'' (From_reqwest e), st')
      | (Err response_err, st') \<Rightarrow> (With_error_context e (From_sdk response_err), st'))"

text \<open>The loop, its variables as arguments; it ends with the buffer, the parts and the next part
  number.\<close>

fun stash_loop ::
  "'s s3_client \<Rightarrow> string \<Rightarrow> string \<Rightarrow> string \<Rightarrow> (bytes, reqwest_error) result list \<Rightarrow>
    bytes \<Rightarrow> completed_part list \<Rightarrow> i32 \<Rightarrow> 's s3 \<Rightarrow>
    (bytes \<times> completed_part list \<times> i32, anyhow_error) result \<times> 's s3"
where
  "stash_loop cl bucket key upload_id [] buffer parts part_number st =
     (Ok (buffer, parts, part_number), st)"
| "stash_loop cl bucket key upload_id (Err e # chunks) buffer parts part_number st =
     (let (err, st') = abort_upload cl bucket key upload_id e st in (Err err, st'))"
| "stash_loop cl bucket key upload_id (Ok chunk # chunks) buffer parts part_number st =
     (let buffer = buffer @ chunk
      in if length buffer < s3_minimum_upload_chunk_bytes
         then stash_loop cl bucket key upload_id chunks buffer parts part_number st
         else (case send_part cl bucket key upload_id buffer part_number st of
                 (Err e, st') \<Rightarrow> (Err e, st')
               | (Ok part, st') \<Rightarrow>
                   stash_loop cl bucket key upload_id chunks [] (parts @ [part]) (part_number + 1) st'))"

definition stash_rest ::
  "'s s3_client \<Rightarrow> string \<Rightarrow> string \<Rightarrow> string \<Rightarrow> bytes \<times> completed_part list \<times> i32 \<Rightarrow> 's s3 \<Rightarrow>
    (completed_part list, anyhow_error) result \<times> 's s3"
where
  "stash_rest cl bucket key upload_id rest st =
     (case rest of (buffer, parts, part_number) \<Rightarrow>
        if buffer = [] then (Ok parts, st)
        else (case send_part cl bucket key upload_id buffer part_number st of
                (Err e, st') \<Rightarrow> (Err e, st')
              | (Ok part, st') \<Rightarrow> (Ok (parts @ [part]), st')))"

definition stash_upload ::
  "'s s3_client \<Rightarrow> string \<Rightarrow> string \<Rightarrow> (bytes, reqwest_error) result list \<Rightarrow> 's s3 \<Rightarrow>
    (unit, anyhow_error) result \<times> 's s3"
where
  "stash_upload cl bucket key stream st =
     (case s3_do (Create bucket key) (create_multipart_upload cl bucket key) st of
        (Err e, st1) \<Rightarrow> (Err (From_sdk e), st1)
      | (Ok None, st1) \<Rightarrow> (Err (Message ''No upload id returned from endpoint''), st1)
      | (Ok (Some upload_id), st1) \<Rightarrow>
          (case stash_loop cl bucket key upload_id stream [] [] 1 st1 of
             (Err e, st2) \<Rightarrow> (Err e, st2)
           | (Ok rest, st2) \<Rightarrow>
               (case stash_rest cl bucket key upload_id rest st2 of
                  (Err e, st3) \<Rightarrow> (Err e, st3)
                | (Ok upload_parts, st3) \<Rightarrow>
                    (let (r, st4) = s3_do (Complete bucket key upload_id upload_parts)
                       (complete_multipart_upload cl bucket key upload_id upload_parts) st3
                     in (map_err From_sdk r, st4)))))"

section \<open>What an upload sends\<close>

text \<open>The calls a loop makes, seen from the log it appends to.\<close>

lemma s3_do_calls [simp]: "s3_calls (snd (s3_do call f st)) = s3_calls st @ [call]"
  by (simp add: s3_do_def split_beta Let_def)

lemma send_part_calls:
  assumes "send_part cl bucket key uid body n st = (r, st')"
  shows "s3_calls st' = s3_calls st @ [Upload bucket key uid body n]"
    and "r = Ok part \<Longrightarrow> cp_part_number part = n"
  using assms s3_do_calls [of "Upload bucket key uid body n" "upload_part cl bucket key uid body n" st]
  by (auto simp: send_part_def simp del: s3_do_calls split: prod.splits result.splits option.splits)

text \<open>Consecutive uploads of \<open>bodies\<close>, numbered from \<open>n\<close>.\<close>

fun uploads :: "string \<Rightarrow> string \<Rightarrow> string \<Rightarrow> i32 \<Rightarrow> bytes list \<Rightarrow> s3_call list" where
  "uploads bucket key uid n [] = []"
| "uploads bucket key uid n (b # bs) = Upload bucket key uid b n # uploads bucket key uid (n + 1) bs"

fun numbered :: "i32 \<Rightarrow> completed_part list \<Rightarrow> bool" where
  "numbered n [] = True"
| "numbered n (p # ps) \<longleftrightarrow> cp_part_number p = n \<and> numbered (n + 1) ps"

lemma uploads_append:
  "uploads bucket key uid n (bs @ cs) =
     uploads bucket key uid n bs @ uploads bucket key uid (n + of_nat (length bs)) cs"
  by (induction bs arbitrary: n) (simp_all add: add.assoc)

lemma numbered_append:
  "numbered n (ps @ qs) \<longleftrightarrow> numbered n ps \<and> numbered (n + of_nat (length ps)) qs"
  by (induction ps arbitrary: n) (simp_all add: add.assoc)

text \<open>
  The reference the loop implements: cut the stream into pieces of at least the minimal size
  (\<open>regroup\<close>), and upload the pieces one after the other (\<open>upload_all\<close>).
\<close>

fun regroup :: "bytes \<Rightarrow> bytes list \<Rightarrow> bytes list \<times> bytes" where
  "regroup buffer [] = ([], buffer)"
| "regroup buffer (c # cs) =
     (if length (buffer @ c) < s3_minimum_upload_chunk_bytes then regroup (buffer @ c) cs
      else (let (bodies, rest) = regroup [] cs in ((buffer @ c) # bodies, rest)))"

fun upload_all ::
  "'s s3_client \<Rightarrow> string \<Rightarrow> string \<Rightarrow> string \<Rightarrow> bytes list \<Rightarrow> completed_part list \<Rightarrow> i32 \<Rightarrow> 's s3 \<Rightarrow>
    (completed_part list \<times> i32, anyhow_error) result \<times> 's s3"
where
  "upload_all cl bucket key uid [] parts n st = (Ok (parts, n), st)"
| "upload_all cl bucket key uid (b # bs) parts n st =
     (case send_part cl bucket key uid b n st of
        (Err e, st') \<Rightarrow> (Err e, st')
      | (Ok p, st') \<Rightarrow> upload_all cl bucket key uid bs (parts @ [p]) (n + 1) st')"

lemma regroup_content:
  "concat (fst (regroup buffer cs)) @ snd (regroup buffer cs) = buffer @ concat cs"
  by (induction buffer cs rule: regroup.induct) (auto simp: split_beta Let_def)

lemma regroup_sizes:
  assumes "length buffer < s3_minimum_upload_chunk_bytes"
  shows "list_all (\<lambda>b. s3_minimum_upload_chunk_bytes \<le> length b) (fst (regroup buffer cs)) \<and>
    length (snd (regroup buffer cs)) < s3_minimum_upload_chunk_bytes"
  using assms
  by (induction buffer cs rule: regroup.induct)
    (auto simp: split_beta Let_def s3_minimum_upload_chunk_bytes_def)

lemma stash_loop_regroup:
  "stash_loop cl bucket key uid (map Ok cs @ tail) buffer parts n st =
     (case upload_all cl bucket key uid (fst (regroup buffer cs)) parts n st of
        (Err e, st') \<Rightarrow> (Err e, st')
      | (Ok (parts', n'), st') \<Rightarrow>
          stash_loop cl bucket key uid tail (snd (regroup buffer cs)) parts' n' st')"
proof (induction cs arbitrary: buffer parts n st)
  case Nil
  then show ?case by simp
next
  case (Cons c cs)
  show ?case
  proof (cases "length (buffer @ c) < s3_minimum_upload_chunk_bytes")
    case True
    then have g: "regroup buffer (c # cs) = regroup (buffer @ c) cs" by simp
    from True Cons.IH [of "buffer @ c" parts n st] show ?thesis
      unfolding g by (simp add: Let_def)
  next
    case False
    then show ?thesis
      by (auto simp: Let_def split_beta Cons.IH split: prod.split result.split)
  qed
qed

text \<open>A stream is a run of chunks that ends, or breaks off with an error.\<close>

lemma stream_cases:
  obtains (complete) cs where "stream = map Ok cs"
  | (broken) cs e rest where "stream = map Ok cs @ Err e # rest"
proof -
  have "(\<exists>cs. stream = map Ok cs) \<or> (\<exists>cs e rest. stream = map Ok cs @ Err e # rest)"
  proof (induction stream)
    case Nil
    then show ?case by simp
  next
    case (Cons x xs)
    show ?case
    proof (cases x)
      case (Ok c)
      with Cons show ?thesis by (metis append_Cons list.simps(9))
    next
      case (Err e)
      then show ?thesis by (metis append_Nil list.simps(8))
    qed
  qed
  then show ?thesis using that by blast
qed

text \<open>All the bodies of an upload that completes: the pieces, and the remainder if any.\<close>

definition part_bodies :: "bytes list \<Rightarrow> bytes list" where
  "part_bodies cs =
     (case regroup [] cs of (bodies, rest) \<Rightarrow> if rest = [] then bodies else bodies @ [rest])"

lemma upload_all_append:
  "upload_all cl bucket key uid (bs @ cs) parts n st =
     (case upload_all cl bucket key uid bs parts n st of
        (Err e, st') \<Rightarrow> (Err e, st')
      | (Ok (parts', n'), st') \<Rightarrow> upload_all cl bucket key uid cs parts' n' st')"
  by (induction bs arbitrary: parts n st) (auto split: prod.split result.split)

lemma stash_parts:
  "(case stash_loop cl bucket key uid (map Ok cs) [] [] 1 st of
      (Err e, st') \<Rightarrow> (Err e, st')
    | (Ok rest, st') \<Rightarrow> stash_rest cl bucket key uid rest st') =
   (case upload_all cl bucket key uid (part_bodies cs) [] 1 st of
      (r, st') \<Rightarrow> (map_ok fst r, st'))"
  using stash_loop_regroup [of cl bucket key uid cs "[]" "[]" "[]" 1 st]
  by (auto simp: part_bodies_def split_beta stash_rest_def upload_all_append
      split: prod.split result.split)

lemma part_bodies_content: "concat (part_bodies cs) = concat cs"
  using regroup_content [of "[]" cs] by (auto simp: part_bodies_def split_beta)

lemma part_bodies_sizes:
  "list_all (\<lambda>b. s3_minimum_upload_chunk_bytes \<le> length b) (butlast (part_bodies cs))"
  "[] \<notin> set (part_bodies cs)"
proof -
  have min: "0 < s3_minimum_upload_chunk_bytes" by (simp add: s3_minimum_upload_chunk_bytes_def)
  note sizes = regroup_sizes [of "[]" cs]
  show "list_all (\<lambda>b. s3_minimum_upload_chunk_bytes \<le> length b) (butlast (part_bodies cs))"
    using sizes min by (auto simp: part_bodies_def split_beta list_all_iff dest: in_set_butlastD)
  show "[] \<notin> set (part_bodies cs)"
    using sizes min by (auto simp: part_bodies_def split_beta list_all_iff)
qed

text \<open>How many parts there are, so that their numbers stay positive.\<close>

lemma part_bodies_number:
  "(length (part_bodies cs) - 1) * s3_minimum_upload_chunk_bytes \<le> length (concat cs)"
proof -
  have "length bs * m \<le> length (concat bs)" if "list_all (\<lambda>b. m \<le> length b) bs" for m and bs :: "bytes list"
    using that by (induction bs) auto
  from this [OF part_bodies_sizes(1) [of cs]]
  have "(length (part_bodies cs) - 1) * s3_minimum_upload_chunk_bytes \<le> length (concat (butlast (part_bodies cs)))"
    by simp
  also have "\<dots> \<le> length (concat (part_bodies cs))"
    by (cases "part_bodies cs" rule: rev_cases) simp_all
  finally show ?thesis by (simp add: part_bodies_content)
qed

section \<open>Sequential uploads\<close>



text \<open>A whole upload, on a complete and on a broken stream.\<close>

lemma stash_upload_complete:
  "stash_upload cl bucket key (map Ok cs) st =
     (case s3_do (Create bucket key) (create_multipart_upload cl bucket key) st of
        (Err e, st1) \<Rightarrow> (Err (From_sdk e), st1)
      | (Ok None, st1) \<Rightarrow> (Err (Message ''No upload id returned from endpoint''), st1)
      | (Ok (Some uid), st1) \<Rightarrow>
          (case upload_all cl bucket key uid (part_bodies cs) [] 1 st1 of
             (Err e, st2) \<Rightarrow> (Err e, st2)
           | (Ok (parts, _), st2) \<Rightarrow>
               (let (r, st3) = s3_do (Complete bucket key uid parts)
                  (complete_multipart_upload cl bucket key uid parts) st2
                in (map_err From_sdk r, st3))))"
proof -
  obtain c st1 where c: "s3_do (Create bucket key) (create_multipart_upload cl bucket key) st = (c, st1)"
    by fastforce
  consider e where "c = Err e" | "c = Ok None" | uid where "c = Ok (Some uid)"
    by (cases c) auto
  then show ?thesis
  proof cases
    case 3
    with c stash_parts [of cl bucket key uid cs st1] show ?thesis
      by (auto simp: stash_upload_def split: prod.splits result.splits)
  qed (use c in \<open>simp_all add: stash_upload_def\<close>)
qed

lemma stash_upload_broken:
  "stash_upload cl bucket key (map Ok cs @ Err e # rest) st =
     (case s3_do (Create bucket key) (create_multipart_upload cl bucket key) st of
        (Err e, st1) \<Rightarrow> (Err (From_sdk e), st1)
      | (Ok None, st1) \<Rightarrow> (Err (Message ''No upload id returned from endpoint''), st1)
      | (Ok (Some uid), st1) \<Rightarrow>
          (case upload_all cl bucket key uid (fst (regroup [] cs)) [] 1 st1 of
             (Err e, st2) \<Rightarrow> (Err e, st2)
           | (Ok _, st2) \<Rightarrow>
               (let (err, st3) = abort_upload cl bucket key uid e st2 in (Err err, st3))))"
  unfolding stash_upload_def stash_loop_regroup
  by (auto simp: Let_def split: prod.split result.split option.split)


lemma stash_upload_Ok:
  assumes "stash_upload cl bucket key stream st = (Ok u, st')"
  obtains cs uid parts n st1 st2 where "stream = map Ok cs"
    and "s3_do (Create bucket key) (create_multipart_upload cl bucket key) st = (Ok (Some uid), st1)"
    and "upload_all cl bucket key uid (part_bodies cs) [] 1 st1 = (Ok (parts, n), st2)"
    and "s3_do (Complete bucket key uid parts) (complete_multipart_upload cl bucket key uid parts) st2 = (Ok u, st')"
proof (cases rule: stream_cases [of stream])
  case (complete cs)
  with assms that show ?thesis
    by (auto simp: stash_upload_complete Let_def split: prod.splits result.splits option.splits)
next
  case (broken cs e rest)
  with assms show ?thesis
    by (auto simp: stash_upload_broken split_beta Let_def split: prod.splits result.splits option.splits)
qed

section \<open>What S3 promises\<close>

text \<open>
  The documented behaviour of a multipart upload that the code relies on. \<open>object\<close> is what a
  bucket holds under a key, \<open>pending\<close> the parts of an upload so far: an uploaded part replaces
  the one of its number; completing assembles the named parts, in the order given, into the
  object; no call touches the objects under other keys, and only completing touches any.
\<close>

type_synonym 's s3_object = "'s \<Rightarrow> string \<Rightarrow> string \<Rightarrow> bytes option"
type_synonym 's s3_pending = "'s \<Rightarrow> string \<Rightarrow> i32 \<rightharpoonup> string \<times> bytes"

definition s3_uploads :: "'s s3_client \<Rightarrow> 's s3_object \<Rightarrow> 's s3_pending \<Rightarrow> bool" where
  "s3_uploads cl object pending \<longleftrightarrow>
     (\<forall>bucket key s. object (snd (create_multipart_upload cl bucket key s)) = object s) \<and>
     (\<forall>bucket key uid s. object (snd (abort_multipart_upload cl bucket key uid s)) = object s) \<and>
     (\<forall>bucket key uid body n s. object (snd (upload_part cl bucket key uid body n s)) = object s) \<and>
     (\<forall>bucket key uid body n s tag s'. upload_part cl bucket key uid body n s = (Ok (Some tag), s') \<longrightarrow>
        pending s' uid = (pending s uid)(n \<mapsto> (tag, body)))"

definition s3_completes :: "'s s3_client \<Rightarrow> 's s3_object \<Rightarrow> 's s3_pending \<Rightarrow> bool" where
  "s3_completes cl object pending \<longleftrightarrow>
     (\<forall>bucket key uid parts s r s'. complete_multipart_upload cl bucket key uid parts s = (r, s') \<longrightarrow>
        (\<forall>b k. (b, k) \<noteq> (bucket, key) \<longrightarrow> object s' b k = object s b k) \<and>
        (r = Ok () \<longrightarrow> object s' bucket key =
           Some (concat (map (\<lambda>p. snd (the (pending s uid (cp_part_number p)))) parts))))"

lemma s3_do_result: "s3_do call f st = (r, st') \<Longrightarrow> f (s3_peer st) = (r, s3_peer st')"
  by (auto simp: s3_do_def split: prod.splits)

lemma send_part_object:
  assumes "s3_uploads cl object pending"
  shows "object (s3_peer (snd (send_part cl bucket key uid b n st))) = object (s3_peer st)"
proof -
  obtain r st1 where d: "s3_do (Upload bucket key uid b n) (upload_part cl bucket key uid b n) st = (r, st1)"
    by fastforce
  then have "snd (send_part cl bucket key uid b n st) = st1"
    by (simp add: send_part_def split: result.split option.split)
  moreover have "object (snd (upload_part cl bucket key uid b n (s3_peer st))) = object (s3_peer st)"
    using assms by (simp add: s3_uploads_def)
  ultimately show ?thesis using s3_do_result [OF d] by simp
qed

lemma send_part_pending:
  assumes "s3_uploads cl object pending" and "send_part cl bucket key uid b n st = (Ok part, st')"
  shows "pending (s3_peer st') uid = (pending (s3_peer st) uid)(n \<mapsto> (cp_e_tag part, b))"
proof -
  from assms(2) obtain tag where
      d: "s3_do (Upload bucket key uid b n) (upload_part cl bucket key uid b n) st = (Ok (Some tag), st')"
    and "part = \<lparr>cp_e_tag = tag, cp_part_number = n\<rparr>"
    by (auto simp: send_part_def split: prod.splits result.splits option.splits)
  with assms(1) s3_do_result [OF d] show ?thesis by (simp add: s3_uploads_def)
qed

lemma upload_all_object:
  assumes "s3_uploads cl object pending"
  shows "object (s3_peer (snd (upload_all cl bucket key uid bodies parts n st))) = object (s3_peer st)"
proof (induction bodies arbitrary: parts n st)
  case Nil
  then show ?case by simp
next
  case (Cons b bs)
  with send_part_object [OF assms, of bucket key uid b n st] show ?case
    by (cases "send_part cl bucket key uid b n st") (simp split: result.split)
qed

lemma upload_all_pending:
  assumes "s3_uploads cl object pending"
    and "upload_all cl bucket key uid bodies parts n st = (Ok (parts', n'), st')"
  shows "\<exists>more. parts' = parts @ more \<and> length more = length bodies \<and> numbered n more \<and>
    pending (s3_peer st') uid =
      (pending (s3_peer st) uid)(map cp_part_number more [\<mapsto>] zip (map cp_e_tag more) bodies)"
  using assms(2)
proof (induction bodies arbitrary: parts n st)
  case Nil
  then show ?case by simp
next
  case (Cons b bs)
  then obtain part st1 where up: "send_part cl bucket key uid b n st = (Ok part, st1)"
      and rest: "upload_all cl bucket key uid bs (parts @ [part]) (n + 1) st1 = (Ok (parts', n'), st')"
    by (auto split: prod.splits result.splits)
  from Cons.IH [OF rest] obtain more where more: "parts' = (parts @ [part]) @ more"
      "length more = length bs" "numbered (n + 1) more" "pending (s3_peer st') uid =
      (pending (s3_peer st1) uid)(map cp_part_number more [\<mapsto>] zip (map cp_e_tag more) bs)"
    by blast
  with send_part_calls(2) [OF up refl] send_part_pending [OF assms(1) up] show ?case
    by (intro exI [of _ "part # more"]) simp
qed

text \<open>Part numbers are distinct as long as they do not wrap around.\<close>

lemma numbered_nth:
  "numbered n ps \<Longrightarrow> i < length ps \<Longrightarrow> cp_part_number (ps ! i) = n + of_nat i"
proof (induction ps arbitrary: n i)
  case Nil
  then show ?case by simp
next
  case (Cons p ps)
  then show ?case using Cons.IH [of "n + 1" "i - 1"] by (cases i) (simp_all add: algebra_simps)
qed

lemma numbered_distinct:
  assumes "numbered n ps" and "length ps \<le> 2 ^ 32"
  shows "distinct (map cp_part_number ps)"
proof -
  have "of_nat i \<noteq> (of_nat j :: i32)" if "i < length ps" "j < length ps" "i \<noteq> j" for i j
    using that assms(2) by (simp add: word_unat_eq_iff unat_of_nat take_bit_eq_mod)
  with numbered_nth [OF assms(1)] show ?thesis
    by (auto simp: distinct_conv_nth)
qed

lemma lookup_parts:
  assumes "distinct ks" and "length ks = length tags" and "length ks = length bodies"
  shows "map (\<lambda>k. snd (the ((m(ks [\<mapsto>] zip tags bodies)) k))) ks = bodies"
  using assms
proof (induction ks arbitrary: m tags bodies)
  case Nil
  then show ?case by simp
next
  case (Cons k ks)
  then obtain t ts b bs where "tags = t # ts" "bodies = b # bs"
    by (metis length_Suc_conv)
  with Cons.prems Cons.IH [of ts bs "m(k \<mapsto> (t, b))"] show ?case
    by (simp del: map_upds_twist fun_upd_apply) simp
qed

lemma map_filter_ok_value [simp]: "List.map_filter ok_value (map Ok xs) = xs"
  by (induction xs) (simp_all add: map_filter_simps)

lemma complete_other_object:
  assumes "s3_completes cl object pending" and "(b, k) \<noteq> (bucket, key)"
  shows "object (snd (complete_multipart_upload cl bucket key uid parts s)) b k = object s b k"
proof -
  obtain r s' where "complete_multipart_upload cl bucket key uid parts s = (r, s')" by fastforce
  with assms show ?thesis unfolding s3_completes_def by auto
qed

text \<open>A completed upload leaves the whole stream under its key; none touches another key.\<close>

lemma stash_upload_object:
  assumes s3: "s3_uploads cl object pending" "s3_completes cl object pending"
    and run: "stash_upload cl bucket key stream st = (Ok u, st')"
    and size: "length (concat (List.map_filter ok_value stream)) < 2 ^ 32 * s3_minimum_upload_chunk_bytes"
  shows "\<exists>cs. stream = map Ok cs \<and> object (s3_peer st') bucket key = Some (concat cs)"
proof -
  from run obtain cs uid parts n st1 st2 where stream: "stream = map Ok cs"
      and up: "upload_all cl bucket key uid (part_bodies cs) [] 1 st1 = (Ok (parts, n), st2)"
      and fin: "s3_do (Complete bucket key uid parts)
        (complete_multipart_upload cl bucket key uid parts) st2 = (Ok u, st')"
    by (rule stash_upload_Ok)
  from upload_all_pending [OF s3(1) up] have parts: "length parts = length (part_bodies cs)"
      "numbered 1 parts" "pending (s3_peer st2) uid = (pending (s3_peer st1) uid)
        (map cp_part_number parts [\<mapsto>] zip (map cp_e_tag parts) (part_bodies cs))"
    by auto
  from size have "length (concat cs) < 2 ^ 32 * s3_minimum_upload_chunk_bytes"
    by (simp add: stream)
  with part_bodies_number [of cs]
  have "(length (part_bodies cs) - 1) * s3_minimum_upload_chunk_bytes < 2 ^ 32 * s3_minimum_upload_chunk_bytes"
    by (rule le_less_trans)
  then have "length parts \<le> 2 ^ 32" using parts(1) by simp arith
  with parts have "map (\<lambda>p. snd (the (pending (s3_peer st2) uid (cp_part_number p)))) parts = part_bodies cs"
    using lookup_parts [OF numbered_distinct [OF parts(2)], of "map cp_e_tag parts" "part_bodies cs"
        "pending (s3_peer st1) uid"]
    by (simp add: o_def)
  with s3(2) s3_do_result [OF fin] have "object (s3_peer st') bucket key = Some (concat cs)"
    by (auto simp: s3_completes_def part_bodies_content)
  with stream show ?thesis by blast
qed

lemma s3_do_object:
  assumes "\<And>s. object (snd (f s)) b k = object s b k"
  shows "object (s3_peer (snd (s3_do call f st))) b k = object (s3_peer st) b k"
  using assms by (simp add: s3_do_def split_beta Let_def)

lemma abort_upload_object:
  assumes "s3_uploads cl object pending"
  shows "object (s3_peer (snd (abort_upload cl bucket key uid e st))) = object (s3_peer st)"
proof -
  have "snd (abort_upload cl bucket key uid e st) =
      snd (s3_do (Abort bucket key uid) (abort_multipart_upload cl bucket key uid) st)"
    by (simp add: abort_upload_def split: prod.split result.split)
  with assms show ?thesis by (simp add: s3_do_def split_beta Let_def s3_uploads_def)
qed

lemma stash_upload_other_objects:
  assumes s3: "s3_uploads cl object pending" "s3_completes cl object pending"
    and other: "(b, k) \<noteq> (bucket, key)"
  shows "object (s3_peer (snd (stash_upload cl bucket key stream st))) b k = object (s3_peer st) b k"
proof -
  obtain c st1 where c: "s3_do (Create bucket key) (create_multipart_upload cl bucket key) st = (c, st1)"
    by fastforce
  have st1: "object (s3_peer st1) = object (s3_peer st)"
    using s3_do_result [OF c] s3(1) by (metis s3_uploads_def snd_conv)
  have finish: "object (s3_peer (snd (s3_do (Complete bucket key uid parts)
      (complete_multipart_upload cl bucket key uid parts) st2))) b k = object (s3_peer st2) b k" for uid parts st2
    by (rule s3_do_object) (rule complete_other_object [OF s3(2) other])
  show ?thesis
  proof (cases rule: stream_cases [of stream])
    case (complete cs)
    show ?thesis
    proof (cases "\<exists>uid. c = Ok (Some uid)")
      case True
      then obtain uid where uid: "c = Ok (Some uid)" ..
      obtain r st2 where up: "upload_all cl bucket key uid (part_bodies cs) [] 1 st1 = (r, st2)" by fastforce
      with upload_all_object [OF s3(1), of bucket key uid "part_bodies cs" "[]" 1 st1] st1
      have "object (s3_peer st2) = object (s3_peer st)" by simp
      with finish c uid up show ?thesis
        by (simp add: complete stash_upload_complete split_beta Let_def split: result.split)
    qed (use c st1 in \<open>auto simp: complete stash_upload_complete split: result.split option.split\<close>)
  next
    case (broken cs e rest)
    show ?thesis
    proof (cases "\<exists>uid. c = Ok (Some uid)")
      case True
      then obtain uid where uid: "c = Ok (Some uid)" ..
      obtain r st2 where up: "upload_all cl bucket key uid (fst (regroup [] cs)) [] 1 st1 = (r, st2)" by fastforce
      with upload_all_object [OF s3(1), of bucket key uid "fst (regroup [] cs)" "[]" 1 st1] st1
        abort_upload_object [OF s3(1), of bucket key uid e st2]
      show ?thesis
        by (simp add: c uid broken stash_upload_broken split_beta Let_def split: result.split)
    qed (use c st1 in \<open>auto simp: broken stash_upload_broken split: result.split option.split\<close>)
  qed
qed

section \<open>The calls of an upload\<close>

text \<open>
  What an upload may send after creating it, and whether it then succeeds: nothing, when S3 did
  not give it an upload id; parts with a prefix of the stream, the last of which failed; a broken stream's parts and
  an abort; a complete stream's parts and the completion, whose bodies concatenate to the
  stream, are not empty, and but for the last are large enough.
\<close>

inductive upload_trace ::
  "string \<Rightarrow> string \<Rightarrow> (bytes, reqwest_error) result list \<Rightarrow> bool \<Rightarrow> s3_call list \<Rightarrow> bool"
  for bucket key stream
where
  not_created: "upload_trace bucket key stream False []"
| part_failed: "bodies \<noteq> [] \<Longrightarrow> stream = map Ok cs @ rest \<Longrightarrow> concat bodies @ buffer = concat cs \<Longrightarrow>
    upload_trace bucket key stream False (uploads bucket key uid 1 bodies)"
| aborted: "stream = map Ok cs @ Err e # rest \<Longrightarrow> concat bodies @ buffer = concat cs \<Longrightarrow>
    upload_trace bucket key stream False (uploads bucket key uid 1 bodies @ [Abort bucket key uid])"
| completed: "stream = map Ok cs \<Longrightarrow> concat bodies = concat cs \<Longrightarrow> [] \<notin> set bodies \<Longrightarrow>
    list_all (\<lambda>b. s3_minimum_upload_chunk_bytes \<le> length b) (butlast bodies) \<Longrightarrow>
    numbered 1 parts \<Longrightarrow> length parts = length bodies \<Longrightarrow>
    upload_trace bucket key stream ok (uploads bucket key uid 1 bodies @ [Complete bucket key uid parts])"

inductive_cases upload_trace_okE: "upload_trace bucket key stream True calls"






section \<open>Properties\<close>


text \<open>
  The upload loop, with its buffer and its three loop variables, is the composition of two
  simple functions on every complete stream and whatever S3 answers: cut the stream into pieces
  that are large enough, then upload them one after the other. Pieces and remainder together
  are the stream, and the remainder is smaller than a piece.
\<close>

theorem stash_loop_reference:
  "stash_loop cl bucket key uid (map Ok cs) [] [] 1 st =
     (case upload_all cl bucket key uid (fst (regroup [] cs)) [] 1 st of
        (Err e, st') \<Rightarrow> (Err e, st')
      | (Ok (parts, n), st') \<Rightarrow> (Ok (snd (regroup [] cs), parts, n), st')) \<and>
   concat (fst (regroup [] cs)) @ snd (regroup [] cs) = concat cs \<and>
   list_all (\<lambda>b. s3_minimum_upload_chunk_bytes \<le> length b) (fst (regroup [] cs)) \<and>
   length (snd (regroup [] cs)) < s3_minimum_upload_chunk_bytes"
  using stash_loop_regroup [of cl bucket key uid cs "[]" "[]" "[]" 1 st] regroup_content [of "[]" cs]
    regroup_sizes [of "[]" cs]
  by (auto simp: s3_minimum_upload_chunk_bytes_def split: prod.splits result.splits)

text \<open>
  An upload that succeeds leaves under its key the whole body that came from upstream, byte
  for byte, and no upload changes an object under another key, given what S3 documents of its
  multipart calls. The size bound is the one below which part numbers do not wrap around; it is
  far above the largest object S3 takes.
\<close>

theorem stash_upload_stores:
  assumes "s3_uploads cl object pending" and "s3_completes cl object pending"
    and "stash_upload cl bucket key stream st = (r, st')"
    and "length (concat (List.map_filter ok_value stream)) < 2 ^ 32 * s3_minimum_upload_chunk_bytes"
  shows "(is_ok r \<longrightarrow> (\<exists>cs. stream = map Ok cs \<and> object (s3_peer st') bucket key = Some (concat cs))) \<and>
    (\<forall>b k. (b, k) \<noteq> (bucket, key) \<longrightarrow> object (s3_peer st') b k = object (s3_peer st) b k)"
  using stash_upload_object [OF assms(1,2) _ assms(4)] assms(3)
    stash_upload_other_objects [OF assms(1,2), of _ _ bucket key stream st]
  by (auto simp: is_ok_conv)

end
