(* ===== verification/Artifacts.thy ===== *)
theory Artifacts
  imports Catalog Uploads
begin

text \<open>
  \<^verbatim>\<open>src/http/artifacts.rs\<close>: the third endpoint, which redirects to an archive in
  the S3 bucket and, the first time, streams it there from upstream.
\<close>

section \<open>Rows and keys\<close>

record artifact_details =
  ad_version_id :: int
  ad_hostname :: string
  ad_namespace :: string
  ad_provider_type :: string
  ad_version :: string
  ad_os :: string
  ad_arch :: string
  ad_artifact_id :: "int option"

record artifact =
  af_version_id :: int
  af_hostname :: string
  af_namespace :: string
  af_provider_type :: string
  af_version :: string
  af_os :: string
  af_arch :: string
  af_artifact_id :: int

definition artifact_of :: "artifact_details \<Rightarrow> int \<Rightarrow> artifact" where
  "artifact_of d i =
     \<lparr>af_version_id = ad_version_id d, af_hostname = ad_hostname d, af_namespace = ad_namespace d,
      af_provider_type = ad_provider_type d, af_version = ad_version d, af_os = ad_os d,
      af_arch = ad_arch d, af_artifact_id = i\<rparr>"

definition to_s3_key :: "artifact \<Rightarrow> string \<Rightarrow> string" where
  "to_s3_key a prefix = prefix @ ''artifacts/'' @ show_int (af_artifact_id a)"

definition select_artifact :: "int \<Rightarrow> artifact_details option statement" where
  "select_artifact version_id db =
     (Ok (case [\<lparr>ad_version_id = vr_id v, ad_hostname = pr_hostname p, ad_namespace = pr_namespace p,
                 ad_provider_type = pr_type p, ad_version = vr_version v, ad_os = vr_os v,
                 ad_arch = vr_arch v, ad_artifact_id = vr_artifact_id v\<rparr>.
               v \<leftarrow> versions db, p \<leftarrow> providers db,
               vr_provider_id v = pr_id p \<and> vr_id v = version_id] of
            [] \<Rightarrow> None
          | d # _ \<Rightarrow> Some d), db)"

definition get_artifact_from_database ::
  "int \<Rightarrow> pg \<Rightarrow> (artifact_details option, anyhow_error) result \<times> pg"
where
  "get_artifact_from_database version_id db =
     (let (r, db') = send_statement (select_artifact version_id) db in (map_err From_sqlx r, db'))"

definition next_artifact_id :: "int statement" where
  "next_artifact_id db =
     (case nextval (artifact_ids db) of
        Err e \<Rightarrow> (Err e, db)
      | Ok i \<Rightarrow> (Ok i, db\<lparr>artifact_ids := i + 1\<rparr>))"

definition allocate_artifact_id :: "pg \<Rightarrow> (int, anyhow_error) result \<times> pg" where
  "allocate_artifact_id db =
     (let (r, db') = send_statement next_artifact_id db
      in (map_err (\<lambda>e. With_context ''Failure allocating next id'' (From_sqlx e)) r, db'))"

text \<open>The update changes at most the one row of that id; the unique constraint fails it when
  another row has the artifact id.\<close>

definition update_artifact :: "int \<Rightarrow> int \<Rightarrow> unit statement" where
  "update_artifact aid version_id db =
     (if \<exists>v \<in> set (versions db). vr_id v = version_id \<and>
           (\<exists>w \<in> set (versions db). vr_id w \<noteq> version_id \<and> vr_artifact_id w = Some aid)
      then (Err (UniqueViolation ''unique_artifact_id''), db)
      else (Ok (), db\<lparr>versions :=
        map (\<lambda>v. if vr_id v = version_id
                 then v\<lparr>vr_artifact_id := Some aid, vr_artifact_timestamp := Some (now db)\<rparr> else v)
          (versions db)\<rparr>))"

definition store_artifact_in_database :: "artifact \<Rightarrow> pg \<Rightarrow> (unit, anyhow_error) result \<times> pg" where
  "store_artifact_in_database a db =
     (let (r, db') = send_statement (update_artifact (af_artifact_id a) (af_version_id a)) db
      in (map_err (\<lambda>e. With_context
            (''Writing artifact id('' @ show_int (af_artifact_id a) @ '') to database'') (From_sqlx e)) r,
          db'))"

section \<open>Upstream\<close>

definition download_path :: "artifact_details \<Rightarrow> string" where
  "download_path d =
     ad_namespace d @ ''/'' @ ad_provider_type d @ ''/'' @ ad_version d @ ''/download/'' @
     ad_os d @ ''/'' @ ad_arch d"

text \<open>The download URL, which the decoder has parsed, is fetched as it is, without
  credentials; one without a host is an error of \<^verbatim>\<open>send\<close>.\<close>

definition get_upstream ::
  "'n upstream \<Rightarrow> u16 \<Rightarrow> artifact_details \<Rightarrow> pg \<Rightarrow> 'n net \<Rightarrow>
    ((bytes, reqwest_error) result list, anyhow_error) result run \<times> pg \<times> 'n net"
where
  "get_upstream up port d db nt =
     (case provider_get up port database_helper (json_provider up) (ad_hostname d)
             (download_path d) db nt of
        (Panic, db1, nt1) \<Rightarrow> (Panic, db1, nt1)
      | (Done (Err e), db1, nt1) \<Rightarrow> (Done (Err (From_terrashine e)), db1, nt1)
      | (Done (Ok provider), db1, nt1) \<Rightarrow>
          (case http_send up (http_get (ps_download_url provider)) nt1 of
             (Err e, nt2) \<Rightarrow> (Done (Err (From_reqwest e)), db1, nt2)
           | (Ok response, nt2) \<Rightarrow>
               (Done (map_ok resp_body (map_err From_reqwest (error_for_status response))), db1, nt2)))"

section \<open>Stashing\<close>

definition stash_artifact ::
  "'s s3_client \<Rightarrow> string \<Rightarrow> string \<Rightarrow> artifact \<Rightarrow> (bytes, reqwest_error) result list \<Rightarrow> pg \<Rightarrow> 's s3 \<Rightarrow>
    (unit, anyhow_error) result \<times> pg \<times> 's s3"
where
  "stash_artifact cl bucket prefix a stream db st =
     (case stash_upload cl bucket (to_s3_key a prefix) stream st of
        (Err e, st') \<Rightarrow> (Err e, db, st')
      | (Ok _, st') \<Rightarrow> (let (r, db') = store_artifact_in_database a db in (r, db', st')))"

section \<open>The redirect\<close>

definition presign_seconds :: nat where "presign_seconds = 120"

definition max_age_seconds :: nat where "max_age_seconds = 60"

definition presign_request ::
  "'s s3_client \<Rightarrow> string \<Rightarrow> string \<Rightarrow> artifact \<Rightarrow> (string, anyhow_error) result"
where
  "presign_request cl bucket prefix a =
     (case presign_get_object cl bucket (to_s3_key a prefix) presign_seconds of
        Err e \<Rightarrow> Err (From_sdk e)
      | Ok text \<Rightarrow> (case uri_parse cl text of
                     None \<Rightarrow> Err (Message ''invalid uri'') | Some uri \<Rightarrow> Ok uri))"

text \<open>\<^verbatim>\<open>HeaderValue::try_from\<close>: visible characters, spaces, tabs and bytes above
  127.\<close>

definition header_value_ok :: "string \<Rightarrow> bool" where
  "header_value_ok s \<longleftrightarrow>
     list_all (\<lambda>c. let n = of_char c in (32::nat) \<le> n \<and> n \<noteq> 127 \<or> n = 9) s"

record redirect =
  rd_status :: status_code
  rd_headers :: "(string \<times> string) list"

definition artifact_response :: "string \<Rightarrow> redirect run" where
  "artifact_response uri =
     (if header_value_ok uri
      then Done \<lparr>rd_status = S_TEMPORARY_REDIRECT,
        rd_headers = [(''location'', uri),
          (''cache-control'', ''public, max-age='' @ show_nat max_age_seconds)]\<rparr>
      else Panic)"

section \<open>The handler\<close>

text \<open>
  \<^verbatim>\<open>try_join!\<close> runs the allocation and the fetch concurrently and returns with the
  first error. \<open>join_order\<close> says which of the two is done first; where the first fails, the
  other is dropped and counts as not started.
\<close>

datatype join_order = Allocate_first | Fetch_first

definition join_upstream ::
  "'n upstream \<Rightarrow> u16 \<Rightarrow> join_order \<Rightarrow> artifact_details \<Rightarrow> pg \<Rightarrow> 'n net \<Rightarrow>
    (int \<times> (bytes, reqwest_error) result list, status_code) result run \<times> pg \<times> 'n net"
where
  "join_upstream up port order d db nt =
     (case order of
        Allocate_first \<Rightarrow>
          (case allocate_artifact_id db of
             (Err e, db1) \<Rightarrow> (Done (Err S_INTERNAL_SERVER_ERROR), db1, nt)
           | (Ok i, db1) \<Rightarrow>
               (case get_upstream up port d db1 nt of
                  (Panic, db2, nt2) \<Rightarrow> (Panic, db2, nt2)
                | (Done (Err e), db2, nt2) \<Rightarrow> (Done (Err S_BAD_GATEWAY), db2, nt2)
                | (Done (Ok body), db2, nt2) \<Rightarrow> (Done (Ok (i, body)), db2, nt2)))
      | Fetch_first \<Rightarrow>
          (case get_upstream up port d db nt of
             (Panic, db1, nt1) \<Rightarrow> (Panic, db1, nt1)
           | (Done (Err e), db1, nt1) \<Rightarrow> (Done (Err S_BAD_GATEWAY), db1, nt1)
           | (Done (Ok body), db1, nt1) \<Rightarrow>
               (case allocate_artifact_id db1 of
                  (Err e, db2) \<Rightarrow> (Done (Err S_INTERNAL_SERVER_ERROR), db2, nt1)
                | (Ok i, db2) \<Rightarrow> (Done (Ok (i, body)), db2, nt1))))"

record bucket_args =
  s3_bucket_name :: string
  s3_bucket_prefix :: string

definition redirect_to :: "'s s3_client \<Rightarrow> bucket_args \<Rightarrow> artifact \<Rightarrow> (redirect, status_code) result run" where
  "redirect_to cl args a =
     (case presign_request cl (s3_bucket_name args) (s3_bucket_prefix args) a of
        Err e \<Rightarrow> Done (Err S_INTERNAL_SERVER_ERROR)
      | Ok uri \<Rightarrow> (case artifact_response uri of Panic \<Rightarrow> Panic | Done r \<Rightarrow> Done (Ok r)))"

record ('n, 's) artifact_world =
  aw_db :: pg
  aw_net :: "'n net"
  aw_s3 :: "'s s3"

text \<open>The branch for a row without an artifact, and the handler.\<close>

definition fetch_and_stash ::
  "'n upstream \<Rightarrow> u16 \<Rightarrow> 's s3_client \<Rightarrow> bucket_args \<Rightarrow> join_order \<Rightarrow> artifact_details \<Rightarrow>
    ('n, 's) artifact_world \<Rightarrow> (artifact, status_code) result run \<times> ('n, 's) artifact_world"
where
  "fetch_and_stash up port cl args order d w =
     (case join_upstream up port order d (aw_db w) (aw_net w) of
        (Panic, db, nt) \<Rightarrow> (Panic, w\<lparr>aw_db := db, aw_net := nt\<rparr>)
      | (Done (Err s), db, nt) \<Rightarrow> (Done (Err s), w\<lparr>aw_db := db, aw_net := nt\<rparr>)
      | (Done (Ok (i, body)), db, nt) \<Rightarrow>
          (let a = artifact_of d i
           in case stash_artifact cl (s3_bucket_name args) (s3_bucket_prefix args) a body db (aw_s3 w) of
                (r, db', st) \<Rightarrow>
                  (Done (map_err (\<lambda>_. S_INTERNAL_SERVER_ERROR) (map_ok (\<lambda>_. a) r)),
                   w\<lparr>aw_db := db', aw_net := nt, aw_s3 := st\<rparr>)))"

definition artifacts_handler ::
  "'n upstream \<Rightarrow> u16 \<Rightarrow> 's s3_client \<Rightarrow> bucket_args \<Rightarrow> join_order \<Rightarrow> int \<Rightarrow>
    ('n, 's) artifact_world \<Rightarrow> (redirect, status_code) result run \<times> ('n, 's) artifact_world"
where
  "artifacts_handler up port cl args order version_id w =
     (case get_artifact_from_database version_id (aw_db w) of
        (Err e, db) \<Rightarrow> (Done (Err S_INTERNAL_SERVER_ERROR), w\<lparr>aw_db := db\<rparr>)
      | (Ok None, db) \<Rightarrow> (Done (Err S_NOT_FOUND), w\<lparr>aw_db := db\<rparr>)
      | (Ok (Some d), db) \<Rightarrow>
          (case ad_artifact_id d of
             Some i \<Rightarrow> (redirect_to cl args (artifact_of d i), w\<lparr>aw_db := db\<rparr>)
           | None \<Rightarrow>
               (case fetch_and_stash up port cl args order d (w\<lparr>aw_db := db\<rparr>) of
                  (Panic, w') \<Rightarrow> (Panic, w')
                | (Done (Err s), w') \<Rightarrow> (Done (Err s), w')
                | (Done (Ok a), w') \<Rightarrow> (redirect_to cl args a, w'))))"

section \<open>The statements\<close>

lemma select_artifact_same [simp]: "snd (select_artifact i db) = db"
  by (simp add: select_artifact_def)

lemma get_artifact_keeps:
  assumes "fault_blind P" and "P db"
  shows "P (snd (get_artifact_from_database i db))"
  using send_statement_keeps [OF assms(1) _ assms(2), of "select_artifact i"]
  by (simp add: get_artifact_from_database_def split_beta)

text \<open>The details are those of the row of that id.\<close>

definition details_of :: "version_row \<Rightarrow> provider_row \<Rightarrow> artifact_details" where
  "details_of v p =
     \<lparr>ad_version_id = vr_id v, ad_hostname = pr_hostname p, ad_namespace = pr_namespace p,
      ad_provider_type = pr_type p, ad_version = vr_version v, ad_os = vr_os v,
      ad_arch = vr_arch v, ad_artifact_id = vr_artifact_id v\<rparr>"

lemma details_of_simps [simp]:
  "ad_version_id (details_of v p) = vr_id v" "ad_artifact_id (details_of v p) = vr_artifact_id v"
  "ad_hostname (details_of v p) = pr_hostname p"
  by (simp_all add: details_of_def)

definition artifact_rows :: "int \<Rightarrow> pg \<Rightarrow> artifact_details list" where
  "artifact_rows i db =
     [details_of v p. v \<leftarrow> versions db, p \<leftarrow> providers db, vr_provider_id v = pr_id p \<and> vr_id v = i]"

lemma artifact_rows_set:
  "d \<in> set (artifact_rows i db) \<longleftrightarrow> (\<exists>v \<in> set (versions db). \<exists>p \<in> set (providers db).
     vr_id v = i \<and> vr_provider_id v = pr_id p \<and> d = details_of v p)"
  by (auto simp: artifact_rows_def)

lemma select_artifact_rows:
  "select_artifact i db = (Ok (case artifact_rows i db of [] \<Rightarrow> None | d # _ \<Rightarrow> Some d), db)"
  by (simp add: select_artifact_def artifact_rows_def details_of_def cong: if_cong)

lemma artifact_rows_faults [simp]: "artifact_rows i (db\<lparr>faults := fs\<rparr>) = artifact_rows i db"
  by (simp add: artifact_rows_def)

lemma get_artifact_Ok:
  "get_artifact_from_database i db = (Ok r, db') \<Longrightarrow>
     r = (case artifact_rows i db of [] \<Rightarrow> None | d # _ \<Rightarrow> Some d)"
  by (auto simp: get_artifact_from_database_def select_artifact_rows split: prod.splits
      dest!: send_statement_Ok)

lemma get_artifact_Some:
  assumes "get_artifact_from_database i db = (Ok (Some d), db')"
  shows "\<exists>v \<in> set (versions db). \<exists>p \<in> set (providers db). vr_id v = i \<and> vr_provider_id v = pr_id p \<and> d = details_of v p"
proof -
  from get_artifact_Ok [OF assms] have "d \<in> set (artifact_rows i db)" by (auto split: list.splits)
  then show ?thesis by (simp add: artifact_rows_set)
qed



lemma artifact_id_column_set: "set (artifact_id_column vs) = {i. \<exists>v \<in> set vs. vr_artifact_id v = Some i}"
  by (induction vs) (auto simp: artifact_id_column_def map_filter_simps split: option.split)

abbreviation record_artifact :: "int \<Rightarrow> int \<Rightarrow> nat \<Rightarrow> version_row \<Rightarrow> version_row" where
  "record_artifact aid i t v \<equiv>
     if vr_id v = i then v\<lparr>vr_artifact_id := Some aid, vr_artifact_timestamp := Some t\<rparr> else v"

lemma recorded_column:
  assumes "distinct (map vr_id vs)" and "distinct (artifact_id_column vs)"
    and "\<And>w. w \<in> set vs \<Longrightarrow> vr_id w \<noteq> i \<Longrightarrow> vr_artifact_id w \<noteq> Some aid"
  shows "distinct (artifact_id_column (map (record_artifact aid i t) vs)) \<and>
    set (artifact_id_column (map (record_artifact aid i t) vs)) \<subseteq> insert aid (set (artifact_id_column vs))"
  using assms
proof (induction vs)
  case Nil
  then show ?case by (simp add: artifact_id_column_def map_filter_simps)
next
  case (Cons v vs)
  have tail: "distinct (artifact_id_column vs)" and head: "\<And>a. vr_artifact_id v = Some a \<Longrightarrow> a \<notin> set (artifact_id_column vs)"
    using Cons.prems(2) by (auto simp: artifact_id_column_def map_filter_simps split: option.splits)
  show ?case
  proof (cases "vr_id v = i")
    case True
    with Cons.prems(1) have "map (record_artifact aid i t) vs = vs"
      by (intro map_idI) (auto simp: image_iff)
    moreover have "aid \<notin> set (artifact_id_column vs)"
    proof -
      have "vr_id w \<noteq> i" if "w \<in> set vs" for w
        using True Cons.prems(1) that by (auto simp: image_iff)
      with Cons.prems(3) show ?thesis by (simp add: artifact_id_column_set)
    qed
    ultimately show ?thesis
      using True tail by (auto simp: artifact_id_column_def map_filter_simps split: option.splits)
  next
    case False
    with Cons.prems(3) [of v] Cons.IH tail Cons.prems head show ?thesis
      by (auto simp: artifact_id_column_def map_filter_simps split: option.split)
  qed
qed

lemma update_artifact_wf:
  assumes wf: "pg_wf db" and aid: "id_ok (artifact_ids db) aid"
  shows "pg_wf (snd (update_artifact aid i db))"
proof (cases "\<exists>v \<in> set (versions db). vr_id v = i \<and> (\<exists>w \<in> set (versions db). vr_id w \<noteq> i \<and> vr_artifact_id w = Some aid)")
  case True
  with wf show ?thesis by (simp add: update_artifact_def)
next
  case False
  let ?f = "record_artifact aid i (now db)"
  have db': "snd (update_artifact aid i db) = db\<lparr>versions := map ?f (versions db)\<rparr>"
    by (simp only: update_artifact_def False if_False snd_conv)
  have keys: "map vr_id (map ?f (versions db)) = map vr_id (versions db)"
      "map version_key (map ?f (versions db)) = map version_key (versions db)"
    by (auto simp: version_key_def)
  have col: "distinct (artifact_id_column (map ?f (versions db))) \<and>
      set (artifact_id_column (map ?f (versions db))) \<subseteq> insert aid (set (artifact_id_column (versions db)))"
  proof (cases "i \<in> vr_id ` set (versions db)")
    case True
    with False wf show ?thesis by (intro recorded_column) (auto simp: wf_defs)
  next
    case absent: False
    then have "map ?f (versions db) = versions db" by (intro map_idI) (auto simp: image_iff)
    with wf show ?thesis by (auto simp: wf_defs)
  qed
  have rows: "list_all (\<lambda>v. version_check (vr_version v) (vr_os v) (vr_arch v) \<and> upload_check v \<and>
       vr_provider_id v \<in> pr_id ` set (providers db) \<and> id_ok (version_ids db) (vr_id v)) (map ?f (versions db))"
    using wf by (auto simp: wf_defs list_all_iff upload_check_def)
  have "versions_wf (db\<lparr>versions := map ?f (versions db)\<rparr>)"
    using wf keys col rows by (simp add: wf_defs del: map_map)
  moreover have "artifacts_wf (db\<lparr>versions := map ?f (versions db)\<rparr>)"
    using wf col aid by (auto simp: wf_defs list_all_iff)
  ultimately show ?thesis
    using wf by (simp add: db' pg_wf_def hosts_wf_def providers_wf_def)
qed

section \<open>The handler keeps the database and the bucket in step\<close>

lemma allocate_artifact_id_keeps:
  assumes "pg_wf db" and "allocate_artifact_id db = (r, db')"
  shows "pg_wf db'" and "versions db' = versions db" and "providers db' = providers db"
    and "r = Ok i \<Longrightarrow> i = artifact_ids db \<and> artifact_ids db' = i + 1"
    and "artifact_ids db \<le> artifact_ids db'"
proof -
  let ?db = "db\<lparr>faults := tl (faults db)\<rparr>"
  have db': "db' = snd (send_statement next_artifact_id db)"
    using assms(2) by (simp add: allocate_artifact_id_def split_beta Let_def)
  have next_ok: "pg_wf (snd (next_artifact_id d)) \<and> versions (snd (next_artifact_id d)) = versions d \<and>
      providers (snd (next_artifact_id d)) = providers d \<and> artifact_ids d \<le> artifact_ids (snd (next_artifact_id d))"
    if "pg_wf d" for d
    using that by (auto simp: next_artifact_id_def wf_defs list_all_iff id_ok_def seq_ok_def
        split: result.split dest!: nextval_Ok)
  have "pg_wf ?db" using assms(1) by (simp add: wf_defs)
  from next_ok [OF this] assms(1)
  show "pg_wf db'" and "versions db' = versions db" and "providers db' = providers db"
      and "artifact_ids db \<le> artifact_ids db'"
    using send_statement_outcome [of next_artifact_id db] by (auto simp: db' wf_defs)
  show "r = Ok i \<Longrightarrow> i = artifact_ids db \<and> artifact_ids db' = i + 1"
    using assms(2) by (auto simp: allocate_artifact_id_def next_artifact_id_def
        split: prod.splits result.splits dest!: send_statement_Ok nextval_Ok)
qed

lemma get_upstream_database:
  assumes "pg_wf db" and "get_upstream up port d db nt = (r, db', nt')"
  shows "pg_wf db'" and "catalog_part db' = catalog_part db"
proof -
  obtain g db1 nt1 where g: "provider_get up port database_helper (json_provider up) (ad_hostname d)
      (download_path d) db nt = (g, db1, nt1)" by (metis prod_cases3)
  with assms(2) have "db' = db1"
    by (auto simp: get_upstream_def split: prod.splits run.splits result.splits option.splits)
  with provider_get_database [OF assms(1) g] show "pg_wf db'" and "catalog_part db' = catalog_part db"
    by simp_all
qed

lemma join_upstream_database:
  assumes wf: "pg_wf db" and run: "join_upstream up port order d db nt = (r, db', nt')"
  shows "pg_wf db' \<and> versions db' = versions db \<and> providers db' = providers db \<and>
    artifact_ids db \<le> artifact_ids db' \<and>
    (\<forall>i body. r = Done (Ok (i, body)) \<longrightarrow> artifact_ids db \<le> i \<and> i < artifact_ids db')"
proof (cases order)
  case Allocate_first
  obtain a db1 where a: "allocate_artifact_id db = (a, db1)" by fastforce
  note alloc = allocate_artifact_id_keeps [OF wf a]
  obtain g db2 nt2 where g: "get_upstream up port d db1 nt = (g, db2, nt2)" by (metis prod_cases3)
  note up = get_upstream_database [OF alloc(1) g]
  show ?thesis
  proof (cases a)
    case (Err e)
    with run a alloc Allocate_first show ?thesis by (auto simp: join_upstream_def)
  next
    case (Ok i)
    with run a g Allocate_first have "db' = db2" and "\<forall>j body. r = Done (Ok (j, body)) \<longrightarrow> j = i"
      by (auto simp: join_upstream_def split: run.splits result.splits)
    with up alloc(2,3) alloc(4) [OF Ok] show ?thesis by (auto simp: catalog_part_def)
  qed
next
  case Fetch_first
  obtain g db1 nt1 where g: "get_upstream up port d db nt = (g, db1, nt1)" by (metis prod_cases3)
  note up = get_upstream_database [OF wf g]
  obtain a db2 where a: "allocate_artifact_id db1 = (a, db2)" by fastforce
  note alloc = allocate_artifact_id_keeps [OF up(1) a]
  from run a g Fetch_first consider "db' = db1" "\<nexists>x. r = Done (Ok x)"
    | "db' = db2" "\<forall>j body. r = Done (Ok (j, body)) \<longrightarrow> a = Ok j"
    by (auto simp: join_upstream_def split: run.splits result.splits)
  then show ?thesis
    using up alloc by cases (auto simp: catalog_part_def)
qed

lemma store_artifact_database:
  assumes "pg_wf db" and "id_ok (artifact_ids db) (af_artifact_id a)"
    and "store_artifact_in_database a db = (r, db')"
  shows "pg_wf db'"
    and "set (artifact_id_column (versions db')) \<subseteq> insert (af_artifact_id a) (set (artifact_id_column (versions db)))"
    and "is_ok r \<Longrightarrow> v \<in> set (versions db) \<Longrightarrow> vr_id v = af_version_id a \<Longrightarrow>
      \<exists>v' \<in> set (versions db'). vr_id v' = af_version_id a \<and> vr_artifact_id v' = Some (af_artifact_id a)"
proof -
  let ?q = "update_artifact (af_artifact_id a) (af_version_id a)"
  have db': "db' = snd (send_statement ?q db)"
    using assms(3) by (simp add: store_artifact_in_database_def split_beta Let_def)
  have "pg_wf (snd (?q d))" if "pg_wf d" "artifact_ids d = artifact_ids db" for d
    using update_artifact_wf [OF that(1)] that(2) assms(2) by simp
  from this [of "db\<lparr>faults := tl (faults db)\<rparr>"] assms(1) show "pg_wf db'"
    using send_statement_outcome [of ?q db] by (auto simp: db' wf_defs)
  have "set (artifact_id_column (versions (snd (?q d)))) \<subseteq>
      insert (af_artifact_id a) (set (artifact_id_column (versions d)))" for d
    by (auto simp: update_artifact_def artifact_id_column_set split: if_splits)
  from this [of "db\<lparr>faults := tl (faults db)\<rparr>"]
  show "set (artifact_id_column (versions db')) \<subseteq> insert (af_artifact_id a) (set (artifact_id_column (versions db)))"
    using send_statement_outcome [of ?q db] by (auto simp: db')
  assume "is_ok r" and v: "v \<in> set (versions db)" "vr_id v = af_version_id a"
  with assms(3) obtain fs where "?q (db\<lparr>faults := fs\<rparr>) = (Ok (), db')"
    by (auto simp: store_artifact_in_database_def is_ok_conv split: prod.splits dest!: send_statement_Ok)
  then have "versions db' = map (record_artifact (af_artifact_id a) (af_version_id a) (now db)) (versions db)"
    by (auto simp: update_artifact_def split: if_splits)
  with v have "record_artifact (af_artifact_id a) (af_version_id a) (now db) v \<in> set (versions db')" by simp
  with v show "\<exists>v' \<in> set (versions db'). vr_id v' = af_version_id a \<and> vr_artifact_id v' = Some (af_artifact_id a)"
    by (intro bexI [of _ "record_artifact (af_artifact_id a) (af_version_id a) (now db) v"]) auto
qed

text \<open>Every artifact id on record has its object in the bucket.\<close>

definition artifact_key :: "bucket_args \<Rightarrow> int \<Rightarrow> string" where
  "artifact_key args i = s3_bucket_prefix args @ ''artifacts/'' @ show_int i"

definition artifacts_present :: "'s s3_object \<Rightarrow> bucket_args \<Rightarrow> pg \<Rightarrow> 's s3 \<Rightarrow> bool" where
  "artifacts_present object args db st \<longleftrightarrow>
     (\<forall>i \<in> set (artifact_id_column (versions db)).
        object (s3_peer st) (s3_bucket_name args) (artifact_key args i) \<noteq> None)"

lemma to_s3_key_eq [simp]: "to_s3_key a (s3_bucket_prefix args) = artifact_key args (af_artifact_id a)"
  by (simp add: to_s3_key_def artifact_key_def)

lemma artifact_key_inj: "in_i64 i \<Longrightarrow> in_i64 j \<Longrightarrow> artifact_key args i = artifact_key args j \<Longrightarrow> i = j"
  by (auto simp: artifact_key_def dest: show_int_inj)

lemma recorded_in_i64: "pg_wf db \<Longrightarrow> i \<in> set (artifact_id_column (versions db)) \<Longrightarrow> in_i64 i"
  by (auto simp: wf_defs list_all_iff id_ok_def seq_ok_def in_i64_def i64_min_def i64_max_def)

lemma stash_upload_present:
  assumes s3: "s3_uploads cl object pending" "s3_completes cl object pending"
    and wf: "pg_wf db" and here: "artifacts_present object args db st"
    and fresh: "i \<notin> set (artifact_id_column (versions db))" "in_i64 i"
    and run: "stash_upload cl (s3_bucket_name args) (artifact_key args i) stream st = (r, st')"
  shows "artifacts_present object args db st'"
proof -
  have "object (s3_peer st') (s3_bucket_name args) (artifact_key args j) =
      object (s3_peer st) (s3_bucket_name args) (artifact_key args j)"
    if "j \<in> set (artifact_id_column (versions db))" for j
  proof -
    have "artifact_key args j \<noteq> artifact_key args i"
      using artifact_key_inj [OF recorded_in_i64 [OF wf that] fresh(2)] fresh(1) that by auto
    then show ?thesis
      using stash_upload_other_objects [OF s3, of "s3_bucket_name args" "artifact_key args j"
          "s3_bucket_name args" "artifact_key args i" stream st] run by simp
  qed
  with here show ?thesis by (simp add: artifacts_present_def)
qed

lemma stash_artifact_present:
  assumes s3: "s3_uploads cl object pending" "s3_completes cl object pending"
    and wf: "pg_wf db" and here: "artifacts_present object args db st"
    and fresh: "af_artifact_id a \<notin> set (artifact_id_column (versions db))" "id_ok (artifact_ids db) (af_artifact_id a)"
    and size: "length (concat (List.map_filter ok_value stream)) < 2 ^ 32 * s3_minimum_upload_chunk_bytes"
    and run: "stash_artifact cl (s3_bucket_name args) (s3_bucket_prefix args) a stream db st = (r, db', st')"
  shows "pg_wf db'" and "artifacts_present object args db' st'"
    and "is_ok r \<Longrightarrow> v \<in> set (versions db) \<Longrightarrow> vr_id v = af_version_id a \<Longrightarrow>
      \<exists>v' \<in> set (versions db'). vr_id v' = af_version_id a \<and> vr_artifact_id v' = Some (af_artifact_id a)"
proof -
  have i64: "in_i64 (af_artifact_id a)"
    using wf fresh(2) by (auto simp: wf_defs id_ok_def seq_ok_def in_i64_def i64_min_def i64_max_def)
  obtain u st1 where up: "stash_upload cl (s3_bucket_name args) (artifact_key args (af_artifact_id a)) stream st = (u, st1)"
    by fastforce
  note present = stash_upload_present [OF s3 wf here fresh(1) i64 up]
  have both: "pg_wf db' \<and> artifacts_present object args db' st' \<and>
      (is_ok r \<longrightarrow> v \<in> set (versions db) \<longrightarrow> vr_id v = af_version_id a \<longrightarrow>
        (\<exists>v' \<in> set (versions db'). vr_id v' = af_version_id a \<and> vr_artifact_id v' = Some (af_artifact_id a)))" for v
  proof (cases u)
    case (Err e)
    with run up wf present show ?thesis by (auto simp: stash_artifact_def)
  next
    case (Ok x)
    with run up obtain q where q: "store_artifact_in_database a db = (q, db')" "r = q" "st' = st1"
      by (auto simp: stash_artifact_def split: prod.splits)
    note stored = store_artifact_database [OF wf fresh(2) q(1)]
    from stash_upload_object [OF s3 up [unfolded Ok] size]
    have "object (s3_peer st1) (s3_bucket_name args) (artifact_key args (af_artifact_id a)) \<noteq> None" by auto
    with present stored(2) have "artifacts_present object args db' st1"
      by (auto simp: artifacts_present_def)
    with stored q show ?thesis by blast
  qed
  then show "pg_wf db'" and "artifacts_present object args db' st'"
      and "is_ok r \<Longrightarrow> v \<in> set (versions db) \<Longrightarrow> vr_id v = af_version_id a \<Longrightarrow>
        \<exists>v' \<in> set (versions db'). vr_id v' = af_version_id a \<and> vr_artifact_id v' = Some (af_artifact_id a)"
    by blast+
qed

section \<open>The handler\<close>

text \<open>No response body is larger than what part numbers can count; the client's timeout of 60
  seconds keeps real ones far below.\<close>

definition bounded_bodies :: "'n upstream \<Rightarrow> bool" where
  "bounded_bodies up \<longleftrightarrow> (\<forall>req p response p'. http_reply up req p = (Ok response, p') \<longrightarrow>
     length (concat (List.map_filter ok_value (resp_body response))) < 2 ^ 32 * s3_minimum_upload_chunk_bytes)"

lemma get_upstream_body:
  assumes "bounded_bodies up" and "get_upstream up port d db nt = (Done (Ok body), db', nt')"
  shows "length (concat (List.map_filter ok_value body)) < 2 ^ 32 * s3_minimum_upload_chunk_bytes"
proof -
  from assms(2) obtain url nt1 response where "http_send up (http_get url) nt1 = (Ok response, nt')"
      and "resp_body response = body"
    by (auto simp: get_upstream_def error_for_status_def
        split: prod.splits run.splits result.splits option.splits if_splits)
  with assms(1) show ?thesis
    by (auto simp: bounded_bodies_def http_send_def split: prod.splits)
qed

lemma join_upstream_body:
  assumes "bounded_bodies up" and "join_upstream up port order d db nt = (Done (Ok (i, body)), db', nt')"
  shows "length (concat (List.map_filter ok_value body)) < 2 ^ 32 * s3_minimum_upload_chunk_bytes"
  using assms(2) get_upstream_body [OF assms(1)]
  by (auto simp: join_upstream_def split: join_order.splits prod.splits run.splits result.splits)

lemma fetch_and_stash_present:
  assumes s3: "s3_uploads cl object pending" "s3_completes cl object pending" and small: "bounded_bodies up"
    and wf: "pg_wf (aw_db w)" and here: "artifacts_present object args (aw_db w) (aw_s3 w)"
    and v: "v \<in> set (versions (aw_db w))" "vr_id v = ad_version_id d"
    and run: "fetch_and_stash up port cl args order d w = (r, w')"
  shows "pg_wf (aw_db w') \<and> artifacts_present object args (aw_db w') (aw_s3 w') \<and>
    (\<forall>a. r = Done (Ok a) \<longrightarrow> (\<exists>v' \<in> set (versions (aw_db w')).
       vr_id v' = ad_version_id d \<and> vr_artifact_id v' = Some (af_artifact_id a)))"
proof -
  obtain j db nt where j: "join_upstream up port order d (aw_db w) (aw_net w) = (j, db, nt)"
    by (metis prod_cases3)
  note joined = join_upstream_database [OF wf j]
  with here have here': "artifacts_present object args db (aw_s3 w)" by (simp add: artifacts_present_def)
  show ?thesis
  proof (cases "\<exists>i body. j = Done (Ok (i, body))")
    case False
    with run j joined here' show ?thesis
      by (auto simp: fetch_and_stash_def split: run.splits result.splits)
  next
    case True
    then obtain i body where ok: "j = Done (Ok (i, body))" by blast
    define a where "a = artifact_of d i"
    obtain q db2 st2 where q: "stash_artifact cl (s3_bucket_name args) (s3_bucket_prefix args) a body db (aw_s3 w) = (q, db2, st2)"
      by (metis prod_cases3)
    have a: "af_artifact_id a = i" "af_version_id a = ad_version_id d" by (simp_all add: a_def artifact_of_def)
    have "i \<notin> set (artifact_id_column (versions db))" "id_ok (artifact_ids db) i"
      using joined ok wf by (auto simp: wf_defs list_all_iff id_ok_def seq_ok_def)
    with a have fresh: "af_artifact_id a \<notin> set (artifact_id_column (versions db))"
        "id_ok (artifact_ids db) (af_artifact_id a)" by simp_all
    from join_upstream_body [OF small j [unfolded ok]]
    have "length (concat (List.map_filter ok_value body)) < 2 ^ 32 * s3_minimum_upload_chunk_bytes" .
    note stashed = stash_artifact_present [OF s3 _ here' fresh this q]
    from run j ok q have "aw_db w' = db2" "aw_s3 w' = st2"
        "\<forall>x. r = Done (Ok x) \<longrightarrow> x = a \<and> is_ok q"
      by (auto simp: fetch_and_stash_def Let_def a_def is_ok_conv)
    with stashed(1,2) stashed(3) [of v] joined v a show ?thesis by auto
  qed
qed

text \<open>
  What a redirect is: a link to the object of that artifact, signed for two minutes.
\<close>

lemma redirect_to_Ok:
  "redirect_to cl args a = Done (Ok rd) \<longleftrightarrow>
     (\<exists>link uri. presign_get_object cl (s3_bucket_name args) (artifact_key args (af_artifact_id a)) presign_seconds = Ok link \<and>
        uri_parse cl link = Some uri \<and> artifact_response uri = Done rd)"
  by (auto simp: redirect_to_def presign_request_def split: result.splits option.splits run.splits)

lemma redirect_to_Err: "redirect_to cl args a = Done (Err s) \<Longrightarrow> s = S_INTERNAL_SERVER_ERROR"
  by (auto simp: redirect_to_def split: result.splits run.splits)

text \<open>What the safety of an answer means; both branches of the handler establish it.\<close>

definition safe_answer ::
  "'s s3_client \<Rightarrow> 's s3_object \<Rightarrow> bucket_args \<Rightarrow> int \<Rightarrow> (redirect, status_code) result run \<Rightarrow> pg \<Rightarrow> 's s3 \<Rightarrow> bool"
where
  "safe_answer cl object args i r db st \<longleftrightarrow>
     (\<forall>rd. r = Done (Ok rd) \<longrightarrow> (\<exists>v \<in> set (versions db). \<exists>aid link uri.
       vr_id v = i \<and> vr_artifact_id v = Some aid \<and>
       object (s3_peer st) (s3_bucket_name args) (artifact_key args aid) \<noteq> None \<and>
       presign_get_object cl (s3_bucket_name args) (artifact_key args aid) presign_seconds = Ok link \<and>
       uri_parse cl link = Some uri \<and> artifact_response uri = Done rd))"

lemma redirect_to_safe:
  assumes "artifacts_present object args db st" and "v \<in> set (versions db)" and "vr_id v = i"
    and "vr_artifact_id v = Some (af_artifact_id a)"
  shows "safe_answer cl object args i (redirect_to cl args a) db st"
  using assms by (fastforce simp: safe_answer_def redirect_to_Ok artifacts_present_def artifact_id_column_set)

lemma get_artifact_database:
  assumes "pg_wf db" and "get_artifact_from_database i db = (g, db')"
  shows "pg_wf db'" and "versions db' = versions db"
proof -
  have "fault_blind (\<lambda>d. versions d = versions db)" by (simp add: fault_blind_def)
  with get_artifact_keeps [of pg_wf db i] get_artifact_keeps [of "\<lambda>d. versions d = versions db" db i] assms
  show "pg_wf db'" and "versions db' = versions db" by simp_all
qed

lemma stashed_answer_safe:
  assumes s3: "s3_uploads cl object pending" "s3_completes cl object pending" "bounded_bodies up"
    and wf: "pg_wf (aw_db w)" "artifacts_present object args (aw_db w) (aw_s3 w)"
    and v: "v \<in> set (versions (aw_db w))" "vr_id v = ad_version_id d"
    and run: "(case fetch_and_stash up port cl args order d w of
        (Panic, w') \<Rightarrow> (Panic, w')
      | (Done (Err s), w') \<Rightarrow> (Done (Err s), w')
      | (Done (Ok a), w') \<Rightarrow> (redirect_to cl args a, w')) = (r, w')"
  shows "pg_wf (aw_db w') \<and> artifacts_present object args (aw_db w') (aw_s3 w') \<and>
    safe_answer cl object args (ad_version_id d) r (aw_db w') (aw_s3 w')"
proof -
  obtain f w1 where f: "fetch_and_stash up port cl args order d w = (f, w1)" by fastforce
  note kept = fetch_and_stash_present [OF s3 wf v f]
  from run f consider "w' = w1" "\<nexists>rd. r = Done (Ok rd)" | a where "w' = w1" "f = Done (Ok a)" "r = redirect_to cl args a"
    by (auto split: run.splits result.splits)
  then show ?thesis
  proof cases
    case 1
    with kept show ?thesis by (simp add: safe_answer_def)
  next
    case 2
    with kept redirect_to_safe [of object args "aw_db w1" "aw_s3 w1" _ "ad_version_id d" a cl] show ?thesis by auto
  qed
qed

text \<open>A request changes no row but for its artifact.\<close>

definition row_core :: "version_row \<Rightarrow> int \<times> int \<times> string \<times> string \<times> string" where
  "row_core v = (vr_id v, vr_provider_id v, version_triple v)"

definition same_rows :: "pg \<Rightarrow> pg \<Rightarrow> bool" where
  "same_rows db db' \<longleftrightarrow> providers db' = providers db \<and> map row_core (versions db') = map row_core (versions db)"

lemma same_rows_catalog: "same_rows db db' \<Longrightarrow> catalog db' = catalog db"
proof -
  assume same: "same_rows db db'"
  then have "set (map row_core (versions db')) = set (map row_core (versions db))"
      and "id_keys db' = id_keys db" by (simp_all only: same_rows_def id_keys_def)
  moreover have "catalog d tp = {t. \<exists>i pid. (i, pid, t) \<in> set (map row_core (versions d)) \<and> (pid, provider_triple tp) \<in> id_keys d}"
    for d tp by (auto simp: catalog_def row_core_def)
  ultimately show ?thesis by (simp only: fun_eq_iff) simp
qed

lemma store_artifact_same_rows:
  assumes "store_artifact_in_database a db = (r, db')"
  shows "same_rows db db'"
proof -
  have "map row_core (map (record_artifact aid i t) vs) = map row_core vs" for aid i t vs
    by (auto simp: row_core_def version_triple_def)
  then have "same_rows d (snd (update_artifact aid i d))" for aid i d
    unfolding update_artifact_def same_rows_def by (simp del: map_map)
  then show ?thesis
    using assms send_statement_outcome [of "update_artifact (af_artifact_id a) (af_version_id a)" db]
    by (auto simp: store_artifact_in_database_def split_beta Let_def same_rows_def)
qed

lemma fetch_and_stash_same_rows:
  assumes wf: "pg_wf (aw_db w)" and run: "fetch_and_stash up port cl args order d w = (r, w')"
  shows "same_rows (aw_db w) (aw_db w')"
proof -
  obtain j db nt where j: "join_upstream up port order d (aw_db w) (aw_net w) = (j, db, nt)"
    by (metis prod_cases3)
  from join_upstream_database [OF wf j] have db: "same_rows (aw_db w) db" by (simp add: same_rows_def)
  have stash: "same_rows db db2"
    if "stash_artifact cl (s3_bucket_name args) (s3_bucket_prefix args) a body db st = (q, db2, st2)" for a body st q db2 st2
    using that store_artifact_same_rows [of a db]
    by (auto simp: stash_artifact_def same_rows_def split: prod.splits result.splits)
  from run j consider "aw_db w' = db"
    | a body st2 q where "stash_artifact cl (s3_bucket_name args) (s3_bucket_prefix args) a body db (aw_s3 w) = (q, aw_db w', st2)"
    by (auto simp: fetch_and_stash_def Let_def split: run.splits result.splits prod.splits)
  then show ?thesis
    using db by cases (auto dest: stash simp: same_rows_def)
qed

lemma artifacts_handler_same_rows:
  assumes "pg_wf (aw_db w)" and "artifacts_handler up port cl args order i w = (r, w')"
  shows "same_rows (aw_db w) (aw_db w')"
proof -
  obtain g db where g: "get_artifact_from_database i (aw_db w) = (g, db)" by fastforce
  note db = get_artifact_database [OF assms(1) g]
  have "fault_blind (\<lambda>d. same_rows (aw_db w) d)" by (simp add: fault_blind_def same_rows_def)
  from get_artifact_keeps [OF this, of "aw_db w" i] g have same: "same_rows (aw_db w) db"
    by (simp add: same_rows_def)
  from assms(2) g consider "aw_db w' = db"
    | d f where "fetch_and_stash up port cl args order d (w\<lparr>aw_db := db\<rparr>) = (f, w')"
    by (auto simp: artifacts_handler_def split: result.splits option.splits prod.splits run.splits)
  then show ?thesis
  proof cases
    case 2
    with fetch_and_stash_same_rows [OF _ 2] db same show ?thesis by (simp add: same_rows_def)
  qed (use same in simp)
qed

lemma artifacts_handler_kept:
  assumes "s3_uploads cl object pending" and "s3_completes cl object pending" and "bounded_bodies up"
    and "pg_wf (aw_db w)" and "artifacts_present object args (aw_db w) (aw_s3 w)"
    and "artifacts_handler up port cl args order i w = (r, w')"
  shows "pg_wf (aw_db w') \<and> artifacts_present object args (aw_db w') (aw_s3 w') \<and>
    safe_answer cl object args i r (aw_db w') (aw_s3 w')"
proof -
  obtain g db where g: "get_artifact_from_database i (aw_db w) = (g, db)" by fastforce
  note db = get_artifact_database [OF assms(4) g]
  with assms(5) have here: "artifacts_present object args db (aw_s3 w)" by (simp add: artifacts_present_def)
  show ?thesis
  proof (cases "\<exists>d. g = Ok (Some d)")
    case False
    with assms(6) g db here show ?thesis
      by (auto simp: artifacts_handler_def safe_answer_def split: result.splits option.splits)
  next
    case True
    then obtain d where d: "g = Ok (Some d)" ..
    from get_artifact_Some [OF g [unfolded d]] obtain v p where v: "v \<in> set (versions db)" "vr_id v = i"
        and dv: "d = details_of v p" unfolding db(2) by auto
    show ?thesis
    proof (cases "vr_artifact_id v")
      case (Some aid)
      with assms(6) g d dv db here v redirect_to_safe [OF here v, of "artifact_of d aid"] show ?thesis
        by (auto simp: artifacts_handler_def artifact_of_def)
    next
      case None
      with assms(6) g d dv db here v
        stashed_answer_safe [OF assms(1-3), of "w\<lparr>aw_db := db\<rparr>" args v d port order r w'] show ?thesis
        by (simp add: artifacts_handler_def)
    qed
  qed
qed


section \<open>Properties\<close>

text \<open>
  C1: the database and the bucket stay in step through any request: the tables stay well
  formed, every artifact id on record has its object, and an answer that is a redirect links to
  the object of an artifact on record for the requested row, so the link resolves.
\<close>

theorem artifacts_handler_safe:
  assumes "s3_uploads cl object pending" and "s3_completes cl object pending" and "bounded_bodies up"
    and "pg_wf (aw_db w)" and "artifacts_present object args (aw_db w) (aw_s3 w)"
    and "artifacts_handler up port cl args order i w = (r, w')"
  shows "pg_wf (aw_db w') \<and> artifacts_present object args (aw_db w') (aw_s3 w') \<and>
    safe_answer cl object args i r (aw_db w') (aw_s3 w')"
  using assms by (rule artifacts_handler_kept)


end
