(* ===== verification/Refresher.thy ===== *)
theory Refresher
  imports Catalog
begin

text \<open>
  \<^verbatim>\<open>src/refresh.rs\<close>: the background task that refreshes providers. It remembers
  when it last refreshed each one and refuses to do so again before the refresh interval has
  passed. Instants and durations are natural numbers of one unit; their difference saturates
  at zero, as \<^verbatim>\<open>Instant - Instant\<close> does. Tracing spans are left out.
\<close>

section \<open>Messages\<close>

text \<open>A \<^verbatim>\<open>oneshot\<close> sender is the number of the handler that holds its receiver.\<close>

record refresh_request =
  rq_provider :: terraform_provider
  rq_response_channel :: "nat option"

datatype refresh_response =
    RefreshPerformed "(provider_versions, terrashine_error) result"
  | ProviderVersionNotStale

record 'n refresher_state =
  last_refresh :: "terraform_provider \<rightharpoonup> nat"
  rs_db :: pg
  rs_net :: "'n net"

section \<open>One message\<close>

text \<open>
  The body of the \<^verbatim>\<open>rx.recv()\<close> branch. \<open>now_check\<close> is what the guard's
  \<^verbatim>\<open>Instant::now()\<close> reads, \<open>now_done\<close> what the insert's reads after the fetch.
  The response is what goes to the channel, if the request has one (\<open>reply_to\<close>).
\<close>

definition refresh_provider ::
  "'n upstream \<Rightarrow> u16 \<Rightarrow> terraform_provider \<Rightarrow> 'n refresher_state \<Rightarrow>
    (provider_versions, terrashine_error) result run \<times> 'n refresher_state"
where
  "refresh_provider up port tp st =
     (let (r, db', nt') = refresh_versions up port tp (rs_db st) (rs_net st)
      in (r, st\<lparr>rs_db := db', rs_net := nt'\<rparr>))"

definition handle_request ::
  "'n upstream \<Rightarrow> u16 \<Rightarrow> nat \<Rightarrow> refresh_request \<Rightarrow> nat \<Rightarrow> nat \<Rightarrow> 'n refresher_state \<Rightarrow>
    refresh_response run \<times> 'n refresher_state"
where
  "handle_request up port refresh_interval message now_check now_done st =
     (let provider = rq_provider message
      in case last_refresh st provider of
           None \<Rightarrow>
             (case refresh_provider up port provider st of
                (Panic, st') \<Rightarrow> (Panic, st')
              | (Done result, st') \<Rightarrow>
                  (Done (RefreshPerformed result),
                   if is_ok result
                   then st'\<lparr>last_refresh := (last_refresh st')(provider \<mapsto> now_done)\<rparr> else st'))
         | Some t \<Rightarrow>
             if now_check - t > refresh_interval
             then (case refresh_provider up port provider st of
                     (Panic, st') \<Rightarrow> (Panic, st')
                   | (Done result, st') \<Rightarrow>
                       (Done (RefreshPerformed result),
                        st'\<lparr>last_refresh := (last_refresh st')(provider \<mapsto> now_done)\<rparr>))
             else (Done ProviderVersionNotStale, st))"

definition reply_to :: "refresh_request \<Rightarrow> refresh_response \<Rightarrow> (nat \<times> refresh_response) option" where
  "reply_to message response = map_option (\<lambda>ch. (ch, response)) (rq_response_channel message)"

lemma refresh_provider_last [simp]:
  "last_refresh (snd (refresh_provider up port tp st)) = last_refresh st"
  by (simp add: refresh_provider_def split_beta Let_def)

lemma handle_request_last:
  assumes "handle_request up port interval m c d st = (Done resp, st')"
  shows "last_refresh st' = (case resp of
    ProviderVersionNotStale \<Rightarrow> last_refresh st
  | RefreshPerformed r \<Rightarrow>
      if is_ok r \<or> last_refresh st (rq_provider m) \<noteq> None
      then (last_refresh st)(rq_provider m \<mapsto> d) else last_refresh st)"
  using assms refresh_provider_last [of up port "rq_provider m" st]
  by (auto simp: handle_request_def Let_def simp del: refresh_provider_last
      split: option.splits prod.splits run.splits if_splits)

lemma handle_request_due:
  assumes "handle_request up port interval m c d st = (Done (RefreshPerformed r), st')"
    and "last_refresh st (rq_provider m) = Some t"
  shows "t + interval < c"
  using assms by (auto simp: handle_request_def Let_def split: prod.splits run.splits if_splits)

lemma handle_request_not_stale:
  "handle_request up port interval m c d st = (Done ProviderVersionNotStale, st') \<longleftrightarrow>
     st' = st \<and> (\<exists>t. last_refresh st (rq_provider m) = Some t \<and> c \<le> t + interval)"
  by (auto simp: handle_request_def Let_def split: option.splits prod.splits run.splits if_splits)

text \<open>All a message does to the rest of the state is at most one refresh of its provider.\<close>

lemma handle_request_effect:
  assumes "handle_request up port interval m c d st = (r, st')"
  obtains (ignored) "r = Done ProviderVersionNotStale" and "st' = st"
  | (refreshed) q where "refresh_versions up port (rq_provider m) (rs_db st) (rs_net st) = (q, rs_db st', rs_net st')"
      and "r = (case q of Panic \<Rightarrow> Panic | Done x \<Rightarrow> Done (RefreshPerformed x))"
proof (cases "refresh_versions up port (rq_provider m) (rs_db st) (rs_net st)")
  case (fields q db nt)
  have p: "refresh_provider up port (rq_provider m) st = (q, st\<lparr>rs_db := db, rs_net := nt\<rparr>)"
    by (simp add: refresh_provider_def fields)
  show ?thesis
  proof (cases "r = Done ProviderVersionNotStale")
    case True
    with assms ignored show ?thesis by (simp add: handle_request_not_stale)
  next
    case False
    with assms p have "rs_db st' = db \<and> rs_net st' = nt \<and>
        r = (case q of Panic \<Rightarrow> Panic | Done x \<Rightarrow> Done (RefreshPerformed x))"
      by (auto simp: handle_request_def Let_def split: option.splits run.splits if_splits)
    with fields refreshed [of q] show ?thesis by simp
  qed
qed

section \<open>The loop\<close>

text \<open>
  What wakes the task: a message, with the two clock readings its handling makes, or the
  cancellation. The task ends when it is cancelled, dies with a panic, and otherwise waits
  for the next event. The history pairs each handled message with its response.
\<close>

datatype refresher_event = Received refresh_request nat nat | Cancelled

datatype refresher_end = Waiting | Stopped | Crashed

type_synonym history = "(refresh_request \<times> refresh_response \<times> nat \<times> nat) list"

fun refresher ::
  "'n upstream \<Rightarrow> u16 \<Rightarrow> nat \<Rightarrow> refresher_event list \<Rightarrow> 'n refresher_state \<Rightarrow>
    history \<times> refresher_end \<times> 'n refresher_state"
where
  "refresher up port interval [] st = ([], Waiting, st)"
| "refresher up port interval (Cancelled # es) st = ([], Stopped, st)"
| "refresher up port interval (Received m c d # es) st =
     (case handle_request up port interval m c d st of
        (Panic, st') \<Rightarrow> ([], Crashed, st')
      | (Done resp, st') \<Rightarrow>
          (let (h, e, st'') = refresher up port interval es st'
           in ((m, resp, c, d) # h, e, st'')))"

definition replies :: "history \<Rightarrow> (nat \<times> refresh_response) list" where
  "replies h = List.map_filter (\<lambda>(m, resp, c, d). reply_to m resp) h"

text \<open>The clock never goes backwards: every reading is at least the one before.\<close>

fun clock_from :: "nat \<Rightarrow> refresher_event list \<Rightarrow> bool" where
  "clock_from t [] = True"
| "clock_from t (Cancelled # es) = clock_from t es"
| "clock_from t (Received m c d # es) \<longleftrightarrow> t \<le> c \<and> c \<le> d \<and> clock_from d es"

lemma clock_from_mono: "clock_from t es \<Longrightarrow> s \<le> t \<Longrightarrow> clock_from s es"
  by (induction es arbitrary: s t rule: clock_from.induct)
    (auto intro: order_trans)

text \<open>Once a provider has a time on record, every later refresh of it starts more than an
  interval after that time.\<close>

lemma refresher_spacing:
  assumes "last_refresh st p = Some t" and "clock_from t es"
    and "(m, RefreshPerformed r, c, d) \<in> set (fst (refresher up port interval es st))"
    and "rq_provider m = p"
  shows "t + interval < c"
  using assms(1-3)
proof (induction up port interval es st arbitrary: t rule: refresher.induct)
  case (3 up port interval m' c' d' es st)
  from "3.prems"(3) obtain resp st' where h: "handle_request up port interval m' c' d' st = (Done resp, st')"
    by (auto split: prod.splits run.splits)
  note last = handle_request_last [OF h]
  show ?case
  proof (cases "(m, RefreshPerformed r, c, d) = (m', resp, c', d')")
    case True
    with h "3.prems"(1) assms(4) show ?thesis
      by (auto dest: handle_request_due)
  next
    case False
    with "3.prems"(3) h have later:
      "(m, RefreshPerformed r, c, d) \<in> set (fst (refresher up port interval es st'))"
      by (auto simp: split_beta Let_def)
    from "3.prems"(2) have clock: "t \<le> d'" "clock_from d' es" by auto
    show ?thesis
    proof (cases "rq_provider m' = p \<and> resp \<noteq> ProviderVersionNotStale")
      case True
      with last "3.prems"(1) have "last_refresh st' p = Some d'"
        by (auto split: refresh_response.splits)
      from "3.IH" [OF h [symmetric] refl this clock(2) later] clock(1) show ?thesis by simp
    next
      case False
      with last "3.prems"(1) have "last_refresh st' p = Some t"
        by (auto split: refresh_response.splits)
      from "3.IH" [OF h [symmetric] refl this clock_from_mono [OF clock(2,1)] later]
      show ?thesis .
    qed
  qed
qed simp_all

text \<open>The messages up to a cancellation.\<close>

fun received :: "refresher_event list \<Rightarrow> refresh_request list" where
  "received [] = []"
| "received (Cancelled # es) = []"
| "received (Received m c d # es) = m # received es"

section \<open>Properties\<close>

text \<open>
  The refresher takes the messages in order and answers each one once: what it has handled
  are the first messages received, and all of them unless a panic has ended it. It stops exactly
  when it is cancelled.
\<close>

theorem refresher_in_order:
  "\<exists>h e st' rest. refresher up port interval es st = (h, e, st') \<and> received es = map fst h @ rest \<and>
     (rest = [] \<longleftrightarrow> e \<noteq> Crashed) \<and> (e = Stopped \<longrightarrow> Cancelled \<in> set es)"
proof (induction up port interval es st rule: refresher.induct)
  case (3 up port interval m c d es st)
  obtain r st1 where h: "handle_request up port interval m c d st = (r, st1)" by fastforce
  show ?case
  proof (cases r)
    case (Done resp)
    with "3.IH" [OF h [symmetric]] obtain h' e st' rest where
      "refresher up port interval es st1 = (h', e, st')" "received es = map fst h' @ rest"
      "(rest = [] \<longleftrightarrow> e \<noteq> Crashed) \<and> (e = Stopped \<longrightarrow> Cancelled \<in> set es)" by blast
    with h Done show ?thesis by auto
  next
    case Panic
    with h show ?thesis by simp
  qed
qed simp_all

text \<open>
  C16: refreshes of one provider are rate limited: after one that succeeded, any later one of the
  same provider starts more than a refresh interval after the end of the first, however many
  requests for it arrive in between.
\<close>

theorem refresher_rate_limit:
  assumes "clock_from t es"
    and "fst (refresher up port interval es st) = pre @ (m, RefreshPerformed (Ok pv), c, d) # post"
    and "(m', RefreshPerformed r, c', d') \<in> set post" and "rq_provider m' = rq_provider m"
  shows "d + interval < c'"
  using assms(1,2)
proof (induction up port interval es st arbitrary: t pre rule: refresher.induct)
  case (3 up port interval m1 c1 d1 es st)
  from "3.prems"(2) obtain resp st1 where h: "handle_request up port interval m1 c1 d1 st = (Done resp, st1)"
    by (auto split: prod.splits run.splits)
  have clock: "clock_from d1 es" using "3.prems"(1) by simp
  have hist: "(m1, resp, c1, d1) # fst (refresher up port interval es st1) =
      pre @ (m, RefreshPerformed (Ok pv), c, d) # post"
    using "3.prems"(2) h by (simp add: split_beta Let_def)
  show ?case
  proof (cases pre)
    case Nil
    with hist have here: "m1 = m" "resp = RefreshPerformed (Ok pv)" "d1 = d"
        and post: "fst (refresher up port interval es st1) = post" by simp_all
    from handle_request_last [OF h] here have last: "last_refresh st1 (rq_provider m) = Some d" by simp
    have "clock_from d es" using clock here by simp
    moreover have "(m', RefreshPerformed r, c', d') \<in> set (fst (refresher up port interval es st1))"
      using post assms(3) by simp
    ultimately show ?thesis by (rule refresher_spacing [OF last _ _ assms(4)])
  next
    case (Cons x pre')
    with hist have "fst (refresher up port interval es st1) = pre' @ (m, RefreshPerformed (Ok pv), c, d) # post"
      by simp
    from "3.IH" [OF h [symmetric] refl clock this] show ?thesis .
  qed
qed simp_all

text \<open>
  A failure does not silence a new provider: after a first refresh that failed, the very
  next request for the provider fetches again, whenever it comes, and so does every one until
  a refresh succeeds.
\<close>

theorem failed_first_refresh_retried:
  assumes "last_refresh st (rq_provider m) = None"
    and "handle_request up port interval m c d st = (Done (RefreshPerformed (Err e)), st')"
    and "rq_provider m' = rq_provider m"
  shows "last_refresh st' (rq_provider m) = None \<and>
    fst (handle_request up port interval m' c' d' st') \<noteq> Done ProviderVersionNotStale"
proof -
  from handle_request_last [OF assms(2)] assms(1) have none: "last_refresh st' (rq_provider m) = None" by simp
  obtain r st1 where "handle_request up port interval m' c' d' st' = (r, st1)" by fastforce
  with none assms(3) show ?thesis
    using handle_request_not_stale [of up port interval m' c' d' st' st1] by auto
qed

end
