(* ===== verification/Index_Endpoint.thy ===== *)
theory Index_Endpoint
  imports Refresher
begin

text \<open>
  \<^verbatim>\<open>index_handler\<close> of \<^verbatim>\<open>src/http/index.rs\<close> and the channel between it and
  the refresher. The handler awaits twice, for a slot of the channel and for the refresher's
  reply, so it is three pieces: up to the send, one attempt at the send, and from the reply on.
\<close>

section \<open>The channel\<close>

text \<open>\<^verbatim>\<open>mpsc::channel(10000)\<close>: the messages not yet received, and whether the
  receiver still exists.\<close>

record channel =
  ch_queue :: "refresh_request list"
  ch_open :: bool

definition channel_capacity :: nat where "channel_capacity = 10000"

definition new_channel :: channel where
  "new_channel = \<lparr>ch_queue = [], ch_open = True\<rparr>"

datatype send_error = Full | Closed

definition try_send :: "refresh_request \<Rightarrow> channel \<Rightarrow> (unit, send_error) result \<times> channel" where
  "try_send m ch =
     (if \<not> ch_open ch then (Err Closed, ch)
      else if channel_capacity \<le> length (ch_queue ch) then (Err Full, ch)
      else (Ok (), ch\<lparr>ch_queue := ch_queue ch @ [m]\<rparr>))"

definition recv :: "channel \<Rightarrow> (refresh_request \<times> channel) option" where
  "recv ch = (case ch_queue ch of [] \<Rightarrow> None | m # ms \<Rightarrow> Some (m, ch\<lparr>ch_queue := ms\<rparr>))"

text \<open>Dropping the receiver drops the messages, and with them the reply channels.\<close>

definition close_channel :: "channel \<Rightarrow> channel" where
  "close_channel ch = \<lparr>ch_queue = [], ch_open = False\<rparr>"

section \<open>The handler\<close>

type_synonym index_result = "(mirror_index, terrashine_error) result"

text \<open>\<open>Sending tp t\<close> waits for a slot since time \<open>t\<close>, \<open>Awaiting tp\<close> for the reply.\<close>

datatype index_phase =
    Responded index_result
  | Sending terraform_provider nat
  | Awaiting terraform_provider

definition send_timeout_ms :: nat where "send_timeout_ms = 1000"

text \<open>From the request to its first wait.\<close>

definition index_start ::
  "string \<Rightarrow> string \<Rightarrow> string \<Rightarrow> nat \<Rightarrow> pg \<Rightarrow> channel \<Rightarrow> index_phase \<times> pg \<times> channel"
where
  "index_start hostname namespace type time db tx =
     (let provider = \<lparr>tp_hostname = hostname, tp_namespace = namespace, tp_type = type\<rparr>
      in case list_provider_versions hostname namespace type db of
           (Ok (Some mirror_index), db') \<Rightarrow>
             (let (sent, tx') = try_send \<lparr>rq_provider = provider, rq_response_channel = None\<rparr> tx
              in (Responded (Ok mirror_index), db', tx'))
         | (Ok None, db') \<Rightarrow> (Sending provider time, db', tx)
         | (Err e, db') \<Rightarrow> (Sending provider time, db', tx))"

text \<open>\<^verbatim>\<open>send_timeout\<close>, tried when the task runs: a full channel is waited for until the
  second is over. \<open>me\<close> names the receiver of the reply.\<close>

definition index_send ::
  "nat \<Rightarrow> terraform_provider \<Rightarrow> nat \<Rightarrow> nat \<Rightarrow> channel \<Rightarrow> index_phase \<times> channel"
where
  "index_send me provider start time tx =
     (case try_send \<lparr>rq_provider = provider, rq_response_channel = Some me\<rparr> tx of
        (Ok _, tx') \<Rightarrow> (Awaiting provider, tx')
      | (Err Closed, tx') \<Rightarrow> (Responded (Err BrokenRefresherChannel), tx')
      | (Err Full, tx') \<Rightarrow>
          (if start + send_timeout_ms \<le> time
           then (Responded (Err (TooManyRequestsInChannel ''refresher'')), tx')
           else (Sending provider start, tx')))"

text \<open>\<^verbatim>\<open>match resp_rx.await\<close>; no reply is a dropped sender.\<close>

definition index_reply :: "terraform_provider \<Rightarrow> refresh_response option \<Rightarrow> index_result" where
  "index_reply provider reply =
     (case reply of
        Some (RefreshPerformed (Ok pv)) \<Rightarrow> Ok (index_of_provider_versions pv)
      | Some (RefreshPerformed (Err err)) \<Rightarrow> Err err
      | Some ProviderVersionNotStale \<Rightarrow> Err (ConcurrentProviderFetch provider)
      | None \<Rightarrow> Err BrokenRefresherChannel)"

section \<open>The response\<close>

record http_answer =
  ha_status :: status_code
  ha_headers :: "(string \<times> string) list"
  ha_body :: "mirror_index option"

definition index_response :: "index_result \<Rightarrow> http_answer" where
  "index_response r =
     (case r of
        Ok mirror_index \<Rightarrow>
          \<lparr>ha_status = S_OK,
           ha_headers = [(''content-type'', ''application/json''), (''cache-control'', ''public, max-age=60'')],
           ha_body = Some mirror_index\<rparr>
      | Err e \<Rightarrow> \<lparr>ha_status = error_response e, ha_headers = [], ha_body = None\<rparr>)"

lemma try_send_bound:
  "length (ch_queue ch) \<le> channel_capacity \<Longrightarrow> length (ch_queue (snd (try_send m ch))) \<le> channel_capacity"
  by (simp add: try_send_def)

lemma try_send_queue:
  "try_send m ch = (r, ch') \<Longrightarrow> ch_open ch' = ch_open ch \<and>
     (r = Ok () \<and> ch_open ch \<and> ch_queue ch' = ch_queue ch @ [m] \<or> \<not> is_ok r \<and> ch' = ch)"
  by (auto simp: try_send_def split: if_splits)

lemma index_start_cases:
  assumes "index_start hostname namespace type time db tx = (ph, db', tx')"
  obtains (listed) idx where "list_provider_versions hostname namespace type db = (Ok (Some idx), db')"
      and "ph = Responded (Ok idx)"
      and "tx' = snd (try_send \<lparr>rq_provider = \<lparr>tp_hostname = hostname, tp_namespace = namespace, tp_type = type\<rparr>,
        rq_response_channel = None\<rparr> tx)"
  | (unknown) "ph = Sending \<lparr>tp_hostname = hostname, tp_namespace = namespace, tp_type = type\<rparr> time" and "tx' = tx"
      and "\<And>idx. fst (list_provider_versions hostname namespace type db) \<noteq> Ok (Some idx)"
proof (cases "list_provider_versions hostname namespace type db")
  case (Pair r db1)
  with assms that show ?thesis
    by (cases r) (auto simp: index_start_def split_beta Let_def split: option.splits)
qed

lemma index_start_db:
  "fst (snd (index_start hostname namespace type time db tx)) =
     snd (list_provider_versions hostname namespace type db)"
  by (auto simp: index_start_def split_beta Let_def split: prod.split result.split option.split)

lemma index_send_cases:
  assumes "index_send me tp start time tx = (ph, tx')"
  obtains (sent) "ph = Awaiting tp" and "ch_open tx"
      and "tx' = tx\<lparr>ch_queue := ch_queue tx @ [\<lparr>rq_provider = tp, rq_response_channel = Some me\<rparr>]\<rparr>"
      and "length (ch_queue tx) < channel_capacity"
  | (closed) "ph = Responded (Err BrokenRefresherChannel)" and "tx' = tx" and "\<not> ch_open tx"
  | (timeout) "ph = Responded (Err (TooManyRequestsInChannel ''refresher''))" and "tx' = tx"
      and "start + send_timeout_ms \<le> time" and "channel_capacity \<le> length (ch_queue tx)"
  | (waiting) "ph = Sending tp start" and "tx' = tx" and "time < start + send_timeout_ms"
      and "channel_capacity \<le> length (ch_queue tx)"
  using assms by (auto simp: index_send_def try_send_def split: if_splits)

lemma index_reply_429:
  "index_reply tp reply = Err e \<and> error_response e = S_TOO_MANY_REQUESTS \<longleftrightarrow>
     e = ConcurrentProviderFetch tp \<and> reply = Some ProviderVersionNotStale \<or>
     (\<exists>p. e = ConcurrentProviderFetch p \<and> reply = Some (RefreshPerformed (Err e)))"
  by (auto simp: index_reply_def error_response_429 split: option.splits refresh_response.splits result.splits)

section \<open>Which error means what\<close>

text \<open>A refresh never reports a concurrent fetch; only the refresher's refusal becomes one.\<close>

lemma fetch_json_error:
  assumes "fetch_json up decode limit req nt = (Err e, nt')"
  shows "e \<noteq> ConcurrentProviderFetch p"
proof -
  have "fst (read_body_limit [] chunks limit) = Err e \<Longrightarrow> e \<noteq> ConcurrentProviderFetch p" for chunks e
    by (auto dest!: read_body_limit_TooLarge)
  note read = this
  show ?thesis
  proof
    assume c: "e = ConcurrentProviderFetch p"
    with assms obtain chunks buffer where "read_body_limit [] chunks limit = (Err e, buffer)"
      by (auto simp: fetch_json_def split: prod.splits result.splits)
    with read [of chunks e] c show False by simp
  qed
qed

lemma provider_get_error:
  assumes "provider_get up port h decode hostname path c nt = (Done (Err e), c', nt')"
  shows "e \<noteq> ConcurrentProviderFetch p"
  using assms
  by (auto simp: provider_get_def discover_services_def
      split: prod.splits run.splits result.splits option.splits dest: fetch_json_error)

lemma store_provider_versions_error:
  "store_provider_versions h n t pv db = (Err e, db') \<Longrightarrow> \<exists>d. e = DatabaseError d"
  by (auto simp: store_provider_versions_def Let_def split: prod.splits result.splits)

lemma refresh_versions_error:
  assumes "refresh_versions up port tp db nt = (Done (Err e), db', nt')"
  shows "e \<noteq> ConcurrentProviderFetch p"
  using assms
  by (auto simp: refresh_versions_def split: prod.splits run.splits result.splits
      dest: provider_get_error store_provider_versions_error)

section \<open>Properties\<close>

text \<open>
  A 429 means that the refresher refused: the reply that a request gets from a handled
  message becomes the status 429 exactly when the provider's last refresh is at most an
  interval old; any failure of a refresh that was made is a 500 or a 502.
\<close>

theorem index_429_iff_refused:
  assumes "handle_request up port interval m c d st = (Done resp, st')"
  shows "ha_status (index_response (index_reply tp (Some resp))) = S_TOO_MANY_REQUESTS \<longleftrightarrow>
    (\<exists>t. last_refresh st (rq_provider m) = Some t \<and> c \<le> t + interval)"
  using assms
proof (cases rule: handle_request_effect)
  case ignored
  with assms have "\<exists>t. last_refresh st (rq_provider m) = Some t \<and> c \<le> t + interval"
    using handle_request_not_stale by blast
  with ignored show ?thesis by (simp add: index_response_def index_reply_def)
next
  case (refreshed q)
  then obtain x where x: "q = Done x" "resp = RefreshPerformed x" by (cases q) auto
  have "error_response e \<noteq> S_TOO_MANY_REQUESTS" if "x = Err e" for e
    using refresh_versions_error [OF refreshed(1) [unfolded x that]] by (auto simp: error_response_429)
  then have "ha_status (index_response (index_reply tp (Some resp))) \<noteq> S_TOO_MANY_REQUESTS"
    using x by (cases x) (auto simp: index_response_def index_reply_def)
  moreover have "\<not> (\<exists>t. last_refresh st (rq_provider m) = Some t \<and> c \<le> t + interval)"
    using handle_request_due [OF assms [unfolded x]] by auto
  ultimately show ?thesis by simp
qed


text \<open>
  An index request always has a response and never waits longer than it should: a provider
  with stored versions is answered at once whatever the state of the channel; and a request
  that waits for a slot is past that as soon as the channel has room, is closed, or a second
  has passed.
\<close>

theorem index_request_progress:
  assumes "index_start h n ty t0 db tx = (ph, db', tx')"
  shows "(\<forall>idx. fst (list_provider_versions h n ty db) = Ok (Some idx) \<longrightarrow> ph = Responded (Ok idx)) \<and>
    (ph = Sending tp t0 \<longrightarrow> ch_open ch = False \<or> length (ch_queue ch) < channel_capacity \<or>
        t0 + send_timeout_ms \<le> time \<longrightarrow>
      (\<nexists>s. fst (index_send me tp t0 time ch) = Sending tp s))"
  using assms
  by (cases rule: index_start_cases) (auto simp: index_send_def try_send_def)

end
