(* ===== verification/Version_Endpoint.thy ===== *)
theory Version_Endpoint
  imports Catalog
begin

text \<open>
  \<^verbatim>\<open>src/http/version.rs\<close> and the types of \<^verbatim>\<open>src/http/response_types.rs\<close>:
  the second endpoint of the mirror protocol, which lists the archives of one version and
  points each at \<^verbatim>\<open>artifacts/{id}\<close> under the configured redirect URL.
\<close>

section \<open>The last path segment\<close>

text \<open>\<^verbatim>\<open>Version\<close> is only built by its \<^verbatim>\<open>TryFrom\<close>; \<^verbatim>\<open>prefix\<close>
  unwraps.\<close>

record version_segment = full :: string

definition json_suffix :: string where
  "json_suffix = ''.json''"

definition version_try_from :: "string \<Rightarrow> (version_segment, string) result" where
  "version_try_from value =
     (case strip_suffix value json_suffix of
        Some _ \<Rightarrow> Ok \<lparr>full = value\<rparr>
      | None \<Rightarrow> Err (''Could not parse '' @ value))"

definition version_prefix :: "version_segment \<Rightarrow> string run" where
  "version_prefix v =
     (case strip_suffix (full v) json_suffix of None \<Rightarrow> Panic | Some p \<Rightarrow> Done p)"

section \<open>The response\<close>

record target_platform_identifier = tpi_url :: string

record mirror_version =
  archives :: "string \<rightharpoonup> target_platform_identifier"

record database_download_result =
  dl_os :: string
  dl_arch :: string
  dl_id :: int

definition archive_name :: "string \<Rightarrow> string \<Rightarrow> string" where
  "archive_name os arch = os @ ''_'' @ arch"

definition build_url :: "string \<Rightarrow> int \<Rightarrow> string" where
  "build_url base_url i = base_url @ ''artifacts/'' @ show_int i"

text \<open>What is written of it, in the order in which the map yields its keys, and what is read.\<close>

definition mirror_version_json :: "string list \<Rightarrow> mirror_version \<Rightarrow> json" where
  "mirror_version_json order mv =
     JObject [(''archives'', map_json (\<lambda>t. JObject [(''url'', JString (tpi_url t))]) order (archives mv))]"

definition mirror_version_of_json :: "json \<Rightarrow> (mirror_version, serde_error) result" where
  "mirror_version_of_json =
     struct1 ''archives'' (required (expect_map (struct1 ''url'' (required expect_string) (\<lambda>u. \<lparr>tpi_url = u\<rparr>))))
       (\<lambda>m. \<lparr>archives = m\<rparr>)"

definition mirror_version_build :: "database_download_result list \<Rightarrow> string \<Rightarrow> mirror_version" where
  "mirror_version_build result base_url =
     \<lparr>archives = hash_map (map (\<lambda>d.
        (archive_name (dl_os d) (dl_arch d), \<lparr>tpi_url = build_url base_url (dl_id d)\<rparr>)) result)\<rparr>"

definition select_downloads ::
  "string \<Rightarrow> string \<Rightarrow> string \<Rightarrow> string \<Rightarrow> database_download_result list statement"
where
  "select_downloads hostname namespace type version db =
     (Ok [\<lparr>dl_os = vr_os v, dl_arch = vr_arch v, dl_id = vr_id v\<rparr>.
        v \<leftarrow> versions db, p \<leftarrow> providers db,
        vr_provider_id v = pr_id p \<and> vr_version v = version \<and> pr_hostname p = hostname \<and>
        pr_namespace p = namespace \<and> pr_type p = type], db)"

text \<open>\<^verbatim>\<open>list_downloads\<close>; the rows are fetched one by one, but a row fetch that fails
  makes the whole call fail, as a failing statement does.\<close>

definition list_downloads ::
  "string \<Rightarrow> string \<Rightarrow> string \<Rightarrow> string \<Rightarrow> pg \<Rightarrow>
    (database_download_result list, anyhow_error) result \<times> pg"
where
  "list_downloads hostname namespace type version db =
     (let (r, db') = send_statement (select_downloads hostname namespace type version) db
      in (map_err From_sqlx r, db'))"

text \<open>The handler on an already extracted path; \<open>version_endpoint\<close> is the route with its
  extraction, where a rejected last segment is a 400 of the framework's path extractor and
  never reaches the handler.\<close>

definition version_handler ::
  "string \<Rightarrow> terraform_provider \<Rightarrow> version_segment \<Rightarrow> pg \<Rightarrow>
    (mirror_version, status_code) result run \<times> pg"
where
  "version_handler http_redirect_url tp version db =
     (case version_prefix version of
        Panic \<Rightarrow> (Panic, db)
      | Done v \<Rightarrow>
          (case list_downloads (tp_hostname tp) (tp_namespace tp) (tp_type tp) v db of
             (Err e, db') \<Rightarrow> (Done (Err S_INTERNAL_SERVER_ERROR), db')
           | (Ok d, db') \<Rightarrow> (Done (Ok (mirror_version_build d http_redirect_url)), db')))"

definition version_endpoint ::
  "string \<Rightarrow> terraform_provider \<Rightarrow> string \<Rightarrow> pg \<Rightarrow>
    (mirror_version, status_code) result option run \<times> pg"
where
  "version_endpoint http_redirect_url tp segment db =
     (case version_try_from segment of
        Err e \<Rightarrow> (Done None, db)
      | Ok version \<Rightarrow>
          (case version_handler http_redirect_url tp version db of
             (Panic, db') \<Rightarrow> (Panic, db')
           | (Done r, db') \<Rightarrow> (Done (Some r), db')))"

text \<open>The response: JSON, without a cache header. Serialising a map of strings cannot fail, so the
  branch of its failure is left out.\<close>

record version_answer =
  va_status :: status_code
  va_headers :: "(string \<times> string) list"
  va_body :: "mirror_version option"

definition version_response :: "(mirror_version, status_code) result \<Rightarrow> version_answer" where
  "version_response r =
     (case r of
        Ok mv \<Rightarrow> \<lparr>va_status = S_OK, va_headers = [(''content-type'', ''application/json'')], va_body = Some mv\<rparr>
      | Err s \<Rightarrow> \<lparr>va_status = s, va_headers = [], va_body = None\<rparr>)"

section \<open>What the rows of a version are\<close>

text \<open>The rows the endpoint reads: those of one version of one provider.\<close>

definition version_rows :: "pg \<Rightarrow> terraform_provider \<Rightarrow> string \<Rightarrow> version_row set" where
  "version_rows db tp version =
     {v \<in> set (versions db). (vr_provider_id v, provider_triple tp) \<in> id_keys db \<and> vr_version v = version}"

definition row_download :: "version_row \<Rightarrow> database_download_result" where
  "row_download v = \<lparr>dl_os = vr_os v, dl_arch = vr_arch v, dl_id = vr_id v\<rparr>"

definition row_archive :: "version_row \<Rightarrow> string" where
  "row_archive v = archive_name (vr_os v) (vr_arch v)"

lemma list_downloads_rows:
  assumes "list_downloads (tp_hostname tp) (tp_namespace tp) (tp_type tp) version db = (Ok ds, db')"
  shows "set ds = row_download ` version_rows db tp version"
proof -
  from assms have "ds = [row_download v. v \<leftarrow> versions db, p \<leftarrow> providers db,
      vr_provider_id v = pr_id p \<and> vr_version v = version \<and> pr_hostname p = tp_hostname tp \<and>
      pr_namespace p = tp_namespace tp \<and> pr_type p = tp_type tp]"
    by (auto simp: list_downloads_def select_downloads_def row_download_def split: prod.splits
        cong: if_cong dest!: send_statement_Ok)
  then show ?thesis
    by (force simp: version_rows_def id_keys_def provider_key_def provider_triple_def)
qed

lemma list_downloads_same_tables:
  "providers (snd (list_downloads h n t v db)) = providers db \<and>
   versions (snd (list_downloads h n t v db)) = versions db"
  using send_statement_outcome [of "select_downloads h n t v" db]
  by (auto simp: list_downloads_def split_beta select_downloads_def)

text \<open>An archive always names a row of the version; all rows have their archive where no two
  share a name.\<close>

lemma build_archive:
  assumes "archives (mirror_version_build ds base) k = Some t"
  shows "\<exists>d \<in> set ds. k = archive_name (dl_os d) (dl_arch d) \<and> t = \<lparr>tpi_url = build_url base (dl_id d)\<rparr>"
proof -
  from assms have "(k, t) \<in> set (map (\<lambda>d. (archive_name (dl_os d) (dl_arch d),
      \<lparr>tpi_url = build_url base (dl_id d)\<rparr>)) ds)"
    by (auto simp: mirror_version_build_def hash_map_map_of simp del: set_map dest!: map_of_SomeD)
  then show ?thesis by (simp add: image_iff)
qed

lemma build_archives:
  assumes "inj_on (\<lambda>d. archive_name (dl_os d) (dl_arch d)) (set ds)"
  shows "archives (mirror_version_build ds base) k = Some t \<longleftrightarrow>
    (\<exists>d \<in> set ds. k = archive_name (dl_os d) (dl_arch d) \<and> t = \<lparr>tpi_url = build_url base (dl_id d)\<rparr>)"
proof
  assume "archives (mirror_version_build ds base) k = Some t"
  then show "\<exists>d \<in> set ds. k = archive_name (dl_os d) (dl_arch d) \<and> t = \<lparr>tpi_url = build_url base (dl_id d)\<rparr>"
    by (rule build_archive)
next
  assume "\<exists>d \<in> set ds. k = archive_name (dl_os d) (dl_arch d) \<and> t = \<lparr>tpi_url = build_url base (dl_id d)\<rparr>"
  then obtain d where d: "d \<in> set ds" "k = archive_name (dl_os d) (dl_arch d)"
      "t = \<lparr>tpi_url = build_url base (dl_id d)\<rparr>" by blast
  then have "k \<in> dom (archives (mirror_version_build ds base))"
    by (auto simp: mirror_version_build_def dom_hash_map image_iff)
  then obtain t' where t': "archives (mirror_version_build ds base) k = Some t'" by blast
  with build_archive [OF this] obtain d' where "d' \<in> set ds" "k = archive_name (dl_os d') (dl_arch d')"
      "t' = \<lparr>tpi_url = build_url base (dl_id d')\<rparr>" by blast
  with d t' assms show "archives (mirror_version_build ds base) k = Some t"
    by (auto dest: inj_onD)
qed

text \<open>A name without the separator before the first one determines both parts.\<close>

lemma archive_name_inj:
  assumes "CHR ''_'' \<notin> set os" and "CHR ''_'' \<notin> set os'"
    and "archive_name os arch = archive_name os' arch'"
  shows "os = os' \<and> arch = arch'"
  using assms
proof (induction os arbitrary: os')
  case Nil
  then show ?case by (cases os') (auto simp: archive_name_def)
next
  case (Cons c cs)
  then show ?case by (cases os') (auto simp: archive_name_def)
qed

text \<open>The id behind an archive URL, read the way the artifact route reads it.\<close>

lemma build_url_id:
  "in_i64 i \<Longrightarrow> build_url base i = base @ ''artifacts/'' @ text \<Longrightarrow> parse_i64 text = Some i"
  by (auto simp: build_url_def parse_i64_show_int)

lemma version_row_in_i64: "pg_wf db \<Longrightarrow> v \<in> set (versions db) \<Longrightarrow> in_i64 (vr_id v)"
  by (auto simp: wf_defs list_all_iff id_ok_def seq_ok_def in_i64_def i64_min_def i64_max_def)

lemma version_rows_key:
  assumes "pg_wf db" and "v \<in> version_rows db tp version" and "w \<in> version_rows db tp version"
    and "vr_os v = vr_os w" and "vr_arch v = vr_arch w"
  shows "v = w"
proof -
  from assms(2,3) have "vr_provider_id v = vr_provider_id w"
    using pg_wf_id_keys [OF assms(1), of "vr_provider_id v" "provider_triple tp"
        "vr_provider_id w" "provider_triple tp"]
    by (simp add: version_rows_def)
  with assms have "version_key v = version_key w" by (simp add: version_key_def version_rows_def)
  with assms show ?thesis
    using distinct_map_inj [of version_key "versions db" v w] by (simp add: wf_defs version_rows_def)
qed

text \<open>The two shapes of a last segment, and the whole endpoint on each.\<close>

lemma strip_suffix_append [simp]: "strip_suffix (p @ suf) suf = Some p"
  by simp

lemma version_endpoint_json:
  "version_endpoint base tp (version @ json_suffix) db =
     (case list_downloads (tp_hostname tp) (tp_namespace tp) (tp_type tp) version db of
        (Err e, db') \<Rightarrow> (Done (Some (Err S_INTERNAL_SERVER_ERROR)), db')
      | (Ok ds, db') \<Rightarrow> (Done (Some (Ok (mirror_version_build ds base))), db'))"
  by (simp add: version_endpoint_def version_try_from_def version_handler_def version_prefix_def
      del: strip_suffix_Some split: prod.split result.split)

lemma version_endpoint_not_json:
  "\<not> ends_with segment json_suffix \<Longrightarrow> version_endpoint base tp segment db = (Done None, db)"
  by (simp add: version_endpoint_def version_try_from_def strip_suffix_def)

lemma version_endpoint_Ok:
  assumes "version_endpoint base tp segment db = (Done (Some (Ok mv)), db')"
  obtains version ds where "segment = version @ json_suffix"
    and "set ds = row_download ` version_rows db tp version"
    and "mv = mirror_version_build ds base"
proof (cases "ends_with segment json_suffix")
  case True
  then obtain version where seg: "segment = version @ json_suffix" by (auto simp: ends_with_conv)
  with assms obtain ds where
      "list_downloads (tp_hostname tp) (tp_namespace tp) (tp_type tp) version db = (Ok ds, db')"
    and mv: "mv = mirror_version_build ds base"
    by (auto simp: version_endpoint_json split: prod.splits result.splits)
  from list_downloads_rows [OF this(1)] seg mv show ?thesis using that by blast
next
  case False
  with assms show ?thesis by (simp add: version_endpoint_not_json)
qed

text \<open>The endpoint only reads.\<close>

lemma version_endpoint_keeps:
  assumes "fault_blind P" and "P db"
  shows "P (snd (version_endpoint base tp segment db))"
proof (cases "ends_with segment json_suffix")
  case True
  then obtain version where seg: "segment = version @ json_suffix" by (auto simp: ends_with_conv)
  have "P (snd (list_downloads (tp_hostname tp) (tp_namespace tp) (tp_type tp) version db))"
    using send_statement_keeps [OF assms(1) _ assms(2), of "select_downloads (tp_hostname tp) (tp_namespace tp) (tp_type tp) version"]
    by (simp add: list_downloads_def split_beta Let_def select_downloads_def)
  then show ?thesis unfolding seg version_endpoint_json by (auto split: prod.split result.split)
next
  case False
  with assms(2) show ?thesis by (simp add: version_endpoint_not_json)
qed

text \<open>All archives of an answer.\<close>

lemma version_endpoint_archives:
  assumes "pg_wf db" and "version_endpoint base tp (version @ json_suffix) db = (Done (Some (Ok mv)), db')"
    and "\<forall>v \<in> version_rows db tp version. CHR ''_'' \<notin> set (vr_os v)"
  shows "archives mv k = Some t \<longleftrightarrow>
    (\<exists>v \<in> version_rows db tp version. k = row_archive v \<and> t = \<lparr>tpi_url = build_url base (vr_id v)\<rparr>)"
proof -
  from assms(2) obtain ds where
      ds: "set ds = row_download ` version_rows db tp version" "mv = mirror_version_build ds base"
    by (auto elim: version_endpoint_Ok)
  have "inj_on (\<lambda>d. archive_name (dl_os d) (dl_arch d)) (set ds)"
    using version_rows_key [OF assms(1)] assms(3)
    by (auto simp: ds inj_on_def row_download_def dest!: archive_name_inj [rotated 2]; metis)
  from build_archives [OF this] show ?thesis
    by (simp add: ds row_download_def row_archive_def)
qed

section \<open>Properties\<close>

text \<open>
  C25: the endpoint never panics: the \<^verbatim>\<open>unwrap\<close> in \<^verbatim>\<open>prefix\<close> cannot fire
  because the path extractor only admits segments that end in \<^verbatim>\<open>.json\<close>. Exactly the
  other segments are rejected, before any statement is sent, and an admitted request is
  answered from the tables it leaves alone, with status 200 or 500 and never with leave to
  cache the answer.
\<close>

theorem version_endpoint_total:
  "\<exists>r. fst (version_endpoint base tp segment db) = Done r \<and>
     (r = None \<longleftrightarrow> \<not> ends_with segment json_suffix) \<and>
     (r = None \<longrightarrow> snd (version_endpoint base tp segment db) = db) \<and>
     (\<forall>a. r = Some a \<longrightarrow> va_status (version_response a) \<in> {S_OK, S_INTERNAL_SERVER_ERROR} \<and>
        ''cache-control'' \<notin> fst ` set (va_headers (version_response a))) \<and>
     versions (snd (version_endpoint base tp segment db)) = versions db"
proof (cases "ends_with segment json_suffix")
  case True
  then obtain version where seg: "segment = version @ json_suffix" by (auto simp: ends_with_conv)
  show ?thesis
    using list_downloads_same_tables [of "tp_hostname tp" "tp_namespace tp" "tp_type tp" version db] True
    unfolding seg version_endpoint_json by (auto simp: version_response_def split: prod.split result.split)
next
  case False
  then show ?thesis by (simp add: version_endpoint_not_json)
qed

text \<open>
  C24: every archive of an answer points, under the redirect URL and \<^verbatim>\<open>artifacts/\<close>,
  at a decimal id that the artifact route parses back to the id of a stored row of the asked
  provider and version, and the archive's name is the one of that row's platform.
\<close>

theorem version_endpoint_sound:
  assumes "pg_wf db" and "version_endpoint base tp segment db = (Done (Some (Ok mv)), db')"
    and "archives mv k = Some t"
  shows "\<exists>v version digits. segment = version @ json_suffix \<and> v \<in> version_rows db tp version \<and>
    k = row_archive v \<and> tpi_url t = base @ ''artifacts/'' @ digits \<and> parse_i64 digits = Some (vr_id v)"
proof -
  from assms(2) obtain version ds where seg: "segment = version @ json_suffix"
      and ds: "set ds = row_download ` version_rows db tp version"
      and mv: "mv = mirror_version_build ds base"
    by (rule version_endpoint_Ok)
  from build_archive assms(3) mv obtain d where d: "d \<in> set ds"
      "k = archive_name (dl_os d) (dl_arch d)" "t = \<lparr>tpi_url = build_url base (dl_id d)\<rparr>"
    by blast
  with ds obtain v where v: "v \<in> version_rows db tp version" "d = row_download v" by auto
  with version_row_in_i64 [OF assms(1), of v] have "in_i64 (vr_id v)"
    by (simp add: version_rows_def)
  with seg v d show ?thesis
    by (intro exI [of _ v] exI [of _ version] exI [of _ "show_int (vr_id v)"])
      (simp add: row_archive_def row_download_def build_url_def parse_i64_show_int)
qed

text \<open>
  Where no operating system name of the version has an underscore, the answer lists exactly
  the stored rows of the version, each under its own name with its own URL, in whatever order
  the database returned them.
\<close>

theorem version_endpoint_complete:
  assumes "pg_wf db" and "version_endpoint base tp (version @ json_suffix) db = (Done (Some (Ok mv)), db')"
    and "\<forall>v \<in> version_rows db tp version. CHR ''_'' \<notin> set (vr_os v)"
  shows "archives mv k = Some t \<longleftrightarrow>
    (\<exists>v \<in> version_rows db tp version. k = row_archive v \<and> t = \<lparr>tpi_url = build_url base (vr_id v)\<rparr>)"
  using assms by (rule version_endpoint_archives)

text \<open>
  C26: the underscore in the archive name is not unambiguous: where two stored rows of a version
  share a name (say systems \<open>a_b\<close> and \<open>a\<close> with architectures \<open>c\<close> and \<open>b_c\<close>), the answer has
  fewer archives than the version has rows.
\<close>

theorem version_endpoint_collision:
  assumes "version_endpoint base tp (version @ json_suffix) db = (Done (Some (Ok mv)), db')"
    and "v \<in> version_rows db tp version" and "w \<in> version_rows db tp version" and "v \<noteq> w"
    and "row_archive v = row_archive w"
  shows "card (dom (archives mv)) < card (version_rows db tp version)"
proof -
  from assms(1) obtain ds where
      ds: "set ds = row_download ` version_rows db tp version" "mv = mirror_version_build ds base"
    by (auto elim: version_endpoint_Ok)
  have "dom (archives mv) = (\<lambda>d. archive_name (dl_os d) (dl_arch d)) ` set ds"
    by (simp add: ds(2) mirror_version_build_def dom_hash_map image_image)
  also have "\<dots> = row_archive ` version_rows db tp version"
    unfolding ds(1) by (simp add: image_image row_archive_def row_download_def)
  finally have "dom (archives mv) = row_archive ` version_rows db tp version" .
  moreover have "finite (version_rows db tp version)" by (simp add: version_rows_def)
  moreover have "\<not> inj_on row_archive (version_rows db tp version)"
    using assms by (auto dest: inj_onD)
  ultimately show ?thesis
    by (metis card_image_le inj_on_iff_eq_card le_neq_implies_less)
qed

text \<open>
  A version answer survives its JSON. In whatever order the hash map yields its keys, the
  object that is written reads back as the same archives with the same links.
\<close>

theorem mirror_version_roundtrip:
  assumes "set order = dom (archives mv)"
  shows "mirror_version_of_json (mirror_version_json order mv) = Ok mv"
proof -
  let ?read = "struct1 ''url'' (required expect_string) (\<lambda>u. \<lparr>tpi_url = u\<rparr>)"
  have "?read (JObject [(''url'', JString (tpi_url t))]) = Ok t" for t :: target_platform_identifier
    by (simp add: struct1_Ok has_member_def)
  from map_json_read [of order "archives mv" ?read "\<lambda>t. JObject [(''url'', JString (tpi_url t))]", OF assms this] show ?thesis
    by (simp add: mirror_version_of_json_def mirror_version_json_def struct1_Ok has_member_def)
qed

end
