(* ===== verification/Credential_Api.thy ===== *)
theory Credential_Api
  imports Credentials Json
begin

text \<open>
  \<^verbatim>\<open>src/http/api/\<close>: the three handlers of
  \<^verbatim>\<open>/api/v1/credentials/{hostname}\<close>, generic in the credential store as the code
  is, and what a client of the API can rely on, proved once from the store's contract.
\<close>

section \<open>Handlers\<close>

record 'c api_state =
  credentials :: 'c

type_synonym reply = "status_code \<times> json"

record update_data = ud_token :: string
record update_request = ur_data :: update_data

definition update_request_of_json :: "json \<Rightarrow> (update_request, serde_error) result" where
  "update_request_of_json =
     struct1 ''data'' (required (struct1 ''token'' (required expect_string) (\<lambda>t. \<lparr>ud_token = t\<rparr>))) (\<lambda>d. \<lparr>ur_data = d\<rparr>)"

definition empty_data :: json where
  "empty_data = JObject [(''data'', JObject [])]"

definition error_msg :: "string \<Rightarrow> json" where
  "error_msg m = JObject [(''error'', JObject [(''msg'', JString m)])]"

definition exists_data :: "bool \<Rightarrow> json" where
  "exists_data b = JObject [(''data'', JObject [(''exists'', JBool b)])]"

definition update ::
  "'c helper \<Rightarrow> 'c api_state \<Rightarrow> string \<Rightarrow> update_request \<Rightarrow> reply \<times> 'c api_state"
where
  "update h st hostname body =
     (case cred_store h (credentials st) hostname (ud_token (ur_data body)) of
        (Ok _, c) \<Rightarrow> ((S_OK, empty_data), st\<lparr>credentials := c\<rparr>)
      | (Err e, c) \<Rightarrow>
          ((S_INTERNAL_SERVER_ERROR, error_msg ''Error occurred updating credential''),
           st\<lparr>credentials := c\<rparr>))"

definition delete :: "'c helper \<Rightarrow> 'c api_state \<Rightarrow> string \<Rightarrow> reply \<times> 'c api_state" where
  "delete h st hostname =
     (case cred_forget h (credentials st) hostname of
        (Ok _, c) \<Rightarrow> ((S_OK, empty_data), st\<lparr>credentials := c\<rparr>)
      | (Err e, c) \<Rightarrow>
          ((S_INTERNAL_SERVER_ERROR, error_msg ''Error occurred deleting credential''),
           st\<lparr>credentials := c\<rparr>))"

definition exists :: "'c helper \<Rightarrow> 'c api_state \<Rightarrow> string \<Rightarrow> reply \<times> 'c api_state" where
  "exists h st hostname =
     (case cred_get h (credentials st) hostname of
        (Ok (Entry _), c) \<Rightarrow> ((S_OK, exists_data True), st\<lparr>credentials := c\<rparr>)
      | (Ok NotFound, c) \<Rightarrow> ((S_NOT_FOUND, exists_data False), st\<lparr>credentials := c\<rparr>)
      | (Err e, c) \<Rightarrow>
          ((S_INTERNAL_SERVER_ERROR, error_msg ''Error occurred checking credential''),
           st\<lparr>credentials := c\<rparr>))"

lemmas handler_defs = update_def delete_def exists_def

text \<open>
  \<^verbatim>\<open>routes\<close>: the one route of the API and the handler of each method; a client's
  session is the sequence of its requests, each answered before the next.
\<close>

datatype api_request =
    Post string update_request
  | Delete string
  | Get string

definition credentials_route :: string where
  "credentials_route = ''/api/v1/credentials/{hostname}''"

fun routes :: "'c helper \<Rightarrow> 'c api_state \<Rightarrow> api_request \<Rightarrow> reply \<times> 'c api_state" where
  "routes h st (Post hostname body) = update h st hostname body"
| "routes h st (Delete hostname) = delete h st hostname"
| "routes h st (Get hostname) = exists h st hostname"

fun session :: "'c helper \<Rightarrow> 'c api_state \<Rightarrow> api_request list \<Rightarrow> reply list \<times> 'c api_state" where
  "session h st [] = ([], st)"
| "session h st (r # rs) =
     (let (a, st') = routes h st r; (as, st'') = session h st' rs in (a # as, st''))"

section \<open>What a client can rely on\<close>

text \<open>
  The abstract API: a table from hosts to credentials. \<open>answer_ok A r s A'\<close> says that status
  \<open>s\<close> is right for request \<open>r\<close> on table \<open>A\<close>, with \<open>A'\<close> the table after it. A 500 leaves open
  whether the change happened, and allows nothing else.
\<close>

fun request_effect :: "api_request \<Rightarrow> (string \<Rightarrow> credential) \<Rightarrow> string \<Rightarrow> credential" where
  "request_effect (Post hostname body) A = A(hostname := Entry (Some (ud_token (ur_data body))))"
| "request_effect (Delete hostname) A = A(hostname := NotFound)"
| "request_effect (Get hostname) A = A"

fun request_host :: "api_request \<Rightarrow> string" where
  "request_host (Post hostname body) = hostname"
| "request_host (Delete hostname) = hostname"
| "request_host (Get hostname) = hostname"

fun status_right :: "api_request \<Rightarrow> (string \<Rightarrow> credential) \<Rightarrow> status_code \<Rightarrow> bool" where
  "status_right (Get hostname) A s \<longleftrightarrow>
     s = S_INTERNAL_SERVER_ERROR \<or> s = (if A hostname = NotFound then S_NOT_FOUND else S_OK)"
| "status_right r A s \<longleftrightarrow> s = S_INTERNAL_SERVER_ERROR \<or> s = S_OK"

definition answer_ok ::
  "(string \<Rightarrow> credential) \<Rightarrow> api_request \<Rightarrow> status_code \<Rightarrow> (string \<Rightarrow> credential) \<Rightarrow> bool"
where
  "answer_ok A r s A' \<longleftrightarrow>
     status_right r A s \<and>
     (A' = request_effect r A \<or> s = S_INTERNAL_SERVER_ERROR \<and> A' = A)"

inductive abstract_session ::
  "(string \<Rightarrow> credential) \<Rightarrow> api_request list \<Rightarrow> status_code list \<Rightarrow> (string \<Rightarrow> credential) \<Rightarrow> bool"
where
  finish: "abstract_session A [] [] A"
| answer: "answer_ok A r s A' \<Longrightarrow> abstract_session A' rs ss A'' \<Longrightarrow>
    abstract_session A (r # rs) (s # ss) A''"

inductive_cases abstract_session_NilE [elim!]: "abstract_session A [] ss A'"
inductive_cases abstract_session_ConsE [elim!]: "abstract_session A (r # rs) ss A''"

lemma request_effect_other [simp]: "host \<noteq> request_host r \<Longrightarrow> request_effect r A host = A host"
  by (cases r) auto

lemma abstract_session_frame:
  "abstract_session A rs ss A' \<Longrightarrow> host \<notin> request_host ` set rs \<Longrightarrow> A' host = A host"
  by (induction rule: abstract_session.induct) (auto simp: answer_ok_def)

context credential_store
begin

lemma update_answer:
  assumes "inv (credentials st)" and "update h st host body = (a, st')"
  shows "inv (credentials st') \<and>
    answer_ok (view (credentials st)) (Post host body) (fst a) (view (credentials st'))"
  using assms store_inv [of "credentials st" host "ud_token (ur_data body)"]
    store_Ok [of "credentials st" host "ud_token (ur_data body)"]
    store_Err [of "credentials st" host "ud_token (ur_data body)"]
  by (auto simp: update_def answer_ok_def split: prod.splits result.splits)

lemma delete_answer:
  assumes "inv (credentials st)" and "delete h st host = (a, st')"
  shows "inv (credentials st') \<and>
    answer_ok (view (credentials st)) (Delete host) (fst a) (view (credentials st'))"
  using assms forget_inv [of "credentials st" host] forget_Ok [of "credentials st" host]
    forget_Err [of "credentials st" host]
  by (auto simp: delete_def answer_ok_def split: prod.splits result.splits)

lemma exists_answer:
  assumes "inv (credentials st)" and "exists h st host = (a, st')"
  shows "inv (credentials st') \<and>
    answer_ok (view (credentials st)) (Get host) (fst a) (view (credentials st'))"
  using assms get_inv [of "credentials st" host] get_view [of "credentials st" host]
    get_answer [of "credentials st" host]
  by (auto simp: exists_def answer_ok_def split: prod.splits result.splits credential.splits)

lemma routes_answer:
  assumes "inv (credentials st)" and "routes h st r = (a, st')"
  shows "inv (credentials st')"
    and "answer_ok (view (credentials st)) r (fst a) (view (credentials st'))"
proof -
  have "inv (credentials st') \<and>
      answer_ok (view (credentials st)) r (fst a) (view (credentials st'))"
  proof (cases r)
    case (Post host body)
    with assms show ?thesis by (simp add: update_answer)
  next
    case (Delete host)
    with assms show ?thesis by (simp add: delete_answer)
  next
    case (Get host)
    with assms show ?thesis by (simp add: exists_answer)
  qed
  then show "inv (credentials st')"
      and "answer_ok (view (credentials st)) r (fst a) (view (credentials st'))"
    by simp_all
qed

lemma session_answers:
  assumes "inv (credentials st)" and "session h st rs = (as, st')"
  shows "inv (credentials st') \<and>
    abstract_session (view (credentials st)) rs (map fst as) (view (credentials st'))"
  using assms
proof (induction rs arbitrary: st as)
  case Nil
  then show ?case by (auto intro: abstract_session.finish)
next
  case (Cons r rs)
  obtain a st1 where r: "routes h st r = (a, st1)" by fastforce
  obtain as' where s: "session h st1 rs = (as', st')" and as: "as = a # as'"
    using Cons.prems r by (auto split: prod.splits)
  note step = routes_answer [OF Cons.prems(1) r]
  show ?case
    using Cons.IH [OF step(1) s] step(2) by (auto simp: as intro: abstract_session.answer)
qed

text \<open>A host the session does not name keeps its credential.\<close>

lemma session_frame:
  assumes "inv (credentials st)" and "session h st rs = (as, st')"
    and "host \<notin> request_host ` set rs"
  shows "view (credentials st') host = view (credentials st) host"
  using session_answers [OF assms(1,2)] assms(3) by (auto dest: abstract_session_frame)

end

section \<open>The server's instance\<close>

text \<open>With the database as the store, requests leave the catalogue alone.\<close>

lemma database_store_catalog_part:
  "catalog_part (snd (database_store db hostname cred)) = catalog_part db"
  "catalog_part (snd (database_forget db hostname)) = catalog_part db"
  using send_statement_keeps [of "\<lambda>d. catalog_part d = catalog_part db" "upsert_host hostname cred" db]
    send_statement_keeps [of "\<lambda>d. catalog_part d = catalog_part db" "delete_host hostname" db]
  by (simp_all add: database_store_def database_forget_def split_beta Let_def frame_simps)

lemma routes_catalog_part:
  assumes "routes database_helper st r = (a, st')"
  shows "catalog_part (credentials st') = catalog_part (credentials st)"
proof -
  have "catalog_part (snd (database_get db h)) = catalog_part db" for db h
    using database_get_keeps [of "\<lambda>d. catalog_part d = catalog_part db" db h] by simp
  note keeps = this database_store_catalog_part
  show ?thesis
  proof (cases r)
    case (Post h body)
    with assms keeps(2) [of "credentials st" h "ud_token (ur_data body)"] show ?thesis
      by (auto simp: update_def database_helper_def split: prod.splits result.splits)
  next
    case (Delete h)
    with assms keeps(3) [of "credentials st" h] show ?thesis
      by (auto simp: delete_def database_helper_def split: prod.splits result.splits)
  next
    case (Get h)
    with assms keeps(1) [of "credentials st" h] show ?thesis
      by (auto simp: exists_def database_helper_def split: prod.splits result.splits credential.splits)
  qed
qed

section \<open>The two stores agree\<close>

text \<open>On hosts the schema admits, as long as no statement fails, no lock is held and the identity
  column has values left.\<close>

definition stores_agree :: "nat \<Rightarrow> memory_credentials \<Rightarrow> pg \<Rightarrow> bool" where
  "stores_agree n m db \<longleftrightarrow> memory_view m = database_view db \<and> mem_lock m = Unlocked \<and> faults db = [] \<and>
     host_ids db + int n \<le> i64_max + 1"

lemma memory_routes:
  assumes "mem_lock m = Unlocked" and "routes memory_helper \<lparr>credentials = m\<rparr> r = (a, st)"
  shows "mem_lock (credentials st) = Unlocked \<and> memory_view (credentials st) = request_effect r (memory_view m) \<and>
    a = (case r of Get h \<Rightarrow> if memory_view m h = NotFound then (S_NOT_FOUND, exists_data False) else (S_OK, exists_data True)
      | _ \<Rightarrow> (S_OK, empty_data))"
  using assms
  by (cases r) (auto simp: handler_defs memory_defs fun_eq_iff split: option.splits if_splits)

lemma database_routes:
  assumes "faults db = []" and "host_check (request_host r)" and "host_ids db \<le> i64_max"
    and "routes database_helper \<lparr>credentials = db\<rparr> r = (a, st)"
  shows "faults (credentials st) = [] \<and> host_ids (credentials st) \<le> host_ids db + 1 \<and>
    database_view (credentials st) = request_effect r (database_view db) \<and>
    a = (case r of Get h \<Rightarrow> if database_view db h = NotFound then (S_NOT_FOUND, exists_data False) else (S_OK, exists_data True)
      | _ \<Rightarrow> (S_OK, empty_data))"
proof (cases r)
  case (Post h body)
  have "fst (upsert_host h tok db) = Ok ()" for tok
    using assms(2,3) Post by (auto simp: upsert_host_def nextval_def Let_def)
  moreover have "faults (snd (upsert_host h tok db)) = [] \<and> host_ids (snd (upsert_host h tok db)) \<le> host_ids db + 1" for tok
    using assms(1,3) by (auto simp: upsert_host_def nextval_def Let_def)
  ultimately show ?thesis
    using assms(1,4) Post upsert_host_view [of h "ud_token (ur_data body)" db]
    by (auto simp: update_def database_helper_def database_store_def split_beta Let_def split: prod.splits)
next
  case (Delete h)
  with assms(1,4) delete_host_view [of h db] show ?thesis
    by (auto simp: delete_def database_helper_def database_forget_def delete_host_def)
next
  case (Get h)
  with assms(1,4) show ?thesis
    by (auto simp: exists_def database_helper_def database_get_def select_auth_token_def database_view_def
        split: list.splits)
qed

section \<open>Tokens stay inside\<close>

text \<open>The same request and the same tables with every token blanked.\<close>

fun blank_request :: "api_request \<Rightarrow> api_request" where
  "blank_request (Post hostname body) = Post hostname \<lparr>ur_data = \<lparr>ud_token = []\<rparr>\<rparr>"
| "blank_request r = r"

definition blank_host :: "host_row \<Rightarrow> host_row" where
  "blank_host r = r\<lparr>hr_auth_token := map_option (\<lambda>_. []) (hr_auth_token r)\<rparr>"

definition blank :: "pg \<Rightarrow> pg" where
  "blank db = db\<lparr>hosts := map blank_host (hosts db)\<rparr>"

lemma blank_faults [simp]: "faults (blank db) = faults db" "(blank db)\<lparr>faults := fs\<rparr> = blank (db\<lparr>faults := fs\<rparr>)"
  by (simp_all add: blank_def)

lemma blank_host_hostname [simp]: "hr_hostname (blank_host r) = hr_hostname r"
  by (simp add: blank_host_def)

lemma send_statement_blank:
  assumes "\<And>db. q' (blank db) = map_prod (map_ok f) blank (q db)"
  shows "send_statement q' (blank db) = map_prod (map_ok f) blank (send_statement q db)"
  by (cases "faults db") (simp_all add: send_statement.simps assms split: fault.split)

lemma filter_blank:
  "filter (\<lambda>r. hr_hostname r = h) (map blank_host rs) = map blank_host (filter (\<lambda>r. hr_hostname r = h) rs)"
  by (induction rs) auto

lemma select_blank:
  "select_auth_token h (blank db) =
     map_prod (map_ok (map_option (map_option (\<lambda>_. [])))) blank (select_auth_token h db)"
  by (simp add: select_auth_token_def blank_def filter_blank blank_host_def split: list.split)

lemma upsert_blank: "upsert_host h [] (blank db) = map_prod (map_ok id) blank (upsert_host h tok db)"
proof -
  have "(\<lambda>r. if hr_hostname r = h then r\<lparr>hr_auth_token := Some []\<rparr> else r) \<circ> blank_host =
      blank_host \<circ> (\<lambda>r. if hr_hostname r = h then r\<lparr>hr_auth_token := Some tok\<rparr> else r)"
    by (auto simp: blank_host_def)
  then show ?thesis
    by (auto simp: upsert_host_def blank_def Let_def blank_host_def o_def split: result.split)
qed

lemma delete_blank: "delete_host h (blank db) = map_prod (map_ok id) blank (delete_host h db)"
  by (auto simp: delete_host_def blank_def filter_map o_def)

lemma routes_blank:
  assumes "routes database_helper \<lparr>credentials = db\<rparr> r = (a, st)"
  shows "routes database_helper \<lparr>credentials = blank db\<rparr> (blank_request r) = (a, \<lparr>credentials = blank (credentials st)\<rparr>)"
proof (cases r)
  case (Post h body)
  have "send_statement (upsert_host h []) (blank db) =
      map_prod (map_ok id) blank (send_statement (upsert_host h (ud_token (ur_data body))) db)"
    by (rule send_statement_blank) (rule upsert_blank)
  with Post assms show ?thesis
    by (auto simp: update_def database_helper_def database_store_def split: prod.splits result.splits)
next
  case (Delete h)
  have "send_statement (delete_host h) (blank db) = map_prod (map_ok id) blank (send_statement (delete_host h) db)"
    by (rule send_statement_blank) (rule delete_blank)
  with Delete assms show ?thesis
    by (auto simp: delete_def database_helper_def database_forget_def split: prod.splits result.splits)
next
  case (Get h)
  have "send_statement (select_auth_token h) (blank db) =
      map_prod (map_ok (map_option (map_option (\<lambda>_. [])))) blank (send_statement (select_auth_token h) db)"
    by (rule send_statement_blank) (rule select_blank)
  with Get assms show ?thesis
    by (auto simp: exists_def database_helper_def database_get_def
        split: prod.splits result.splits option.splits credential.splits)
qed

section \<open>Properties\<close>

text \<open>
  C17: the credential API over PostgreSQL refines a plain table from hosts to tokens: along any
  session the tables stay well formed, every answer's status is right for the table at that
  moment, a 200 means that the change has happened, a 500 that it has happened or not, and
  nothing else ever changes in the table, whatever statements fail on the way.
\<close>

theorem credential_api_refines:
  assumes "pg_wf db" and "session database_helper \<lparr>credentials = db\<rparr> rs = (as, st')"
  shows "pg_wf (credentials st') \<and>
    abstract_session (database_view db) rs (map fst as) (database_view (credentials st')) \<and>
    catalog_part (credentials st') = catalog_part db"
proof -
  have "catalog_part (credentials st') = catalog_part (credentials st)"
    if "session database_helper st rs = (as, st')" for st
    using that
    by (induction rs arbitrary: st as) (auto split: prod.splits dest!: routes_catalog_part)
  from this [OF assms(2)] pgc.session_answers [OF _ assms(2)] assms(1) show ?thesis by simp
qed

text \<open>
  No answer of the API depends on a token. Blanking every token of the requests and of the
  tables changes no status and no body of a whole session, whatever statements fail.
\<close>

theorem credential_api_hides_tokens:
  "fst (session database_helper \<lparr>credentials = blank db\<rparr> (map blank_request rs)) =
     fst (session database_helper \<lparr>credentials = db\<rparr> rs)"
proof (induction rs arbitrary: db)
  case Nil
  then show ?case by simp
next
  case (Cons r rs)
  obtain a st where r: "routes database_helper \<lparr>credentials = db\<rparr> r = (a, st)" by fastforce
  have st: "st = \<lparr>credentials = credentials st\<rparr>" by simp
  from Cons.IH [of "credentials st"] routes_blank [OF r] r st show ?case
    by (simp add: split_beta Let_def)
qed

text \<open>
  C34: the in-memory store of the tests stands in for the database: from equal contents, over
  any session on hosts the schema admits, with no failing statement and no lock held, both
  answer every request with the same status and body and end with equal contents.
\<close>

theorem memory_agrees_with_database:
  assumes "stores_agree (length rs) m db" and "\<forall>r \<in> set rs. host_check (request_host r)"
  shows "fst (session memory_helper \<lparr>credentials = m\<rparr> rs) = fst (session database_helper \<lparr>credentials = db\<rparr> rs) \<and>
    memory_view (credentials (snd (session memory_helper \<lparr>credentials = m\<rparr> rs))) =
    database_view (credentials (snd (session database_helper \<lparr>credentials = db\<rparr> rs)))"
  using assms
proof (induction rs arbitrary: m db)
  case Nil
  then show ?case by (simp add: stores_agree_def)
next
  case (Cons r rs)
  obtain a st where a: "routes memory_helper \<lparr>credentials = m\<rparr> r = (a, st)" by fastforce
  obtain b su where b: "routes database_helper \<lparr>credentials = db\<rparr> r = (b, su)" by fastforce
  from Cons.prems(1) have agree: "memory_view m = database_view db" "mem_lock m = Unlocked" "faults db = []"
      "host_ids db + int (length rs) \<le> i64_max"
    by (simp_all add: stores_agree_def)
  note ma = memory_routes [OF agree(2) a]
  have db: "faults (credentials su) = [] \<and> host_ids (credentials su) \<le> host_ids db + 1 \<and>
    database_view (credentials su) = request_effect r (database_view db) \<and>
    b = (case r of Get h \<Rightarrow> if database_view db h = NotFound then (S_NOT_FOUND, exists_data False) else (S_OK, exists_data True)
      | _ \<Rightarrow> (S_OK, empty_data))"
    using Cons.prems(2) agree by (intro database_routes [OF _ _ _ b]) auto
  have "stores_agree (length rs) (credentials st) (credentials su)"
    using ma db agree by (simp add: stores_agree_def)
  note related = this
  have same: "\<lparr>credentials = credentials st\<rparr> = st" "\<lparr>credentials = credentials su\<rparr> = su"
    by simp_all
  have IH: "fst (session memory_helper st rs) = fst (session database_helper su rs) \<and>
      memory_view (credentials (snd (session memory_helper st rs))) =
      database_view (credentials (snd (session database_helper su rs)))"
    using Cons.IH [OF related] Cons.prems(2) unfolding same by simp
  have "a = b"
    using ma db unfolding agree(1) by simp
  with IH a b show ?case
    by (simp add: split_beta Let_def)
qed

end
