(* ===== verification/Router.thy ===== *)
theory Router
  imports Index_Endpoint Artifacts Version_Endpoint Credential_Api
begin

text \<open>
  \<^verbatim>\<open>src/app.rs\<close>: the routes of the server, and \<^verbatim>\<open>src/http/healthcheck.rs\<close>.
  A path is split at its slashes; a static segment wins over a parameter, and a parameter takes
  one non-empty segment, percent-decoded by the framework (\<open>decode\<close>).
\<close>

section \<open>Paths\<close>

fun split_path :: "string \<Rightarrow> string list" where
  "split_path [] = [[]]"
| "split_path (c # cs) =
     (if c = CHR ''/'' then [] # split_path cs
      else (case split_path cs of [] \<Rightarrow> [[c]] | seg # segs \<Rightarrow> (c # seg) # segs))"

datatype http_method = GET | HEAD | POST | DELETE | Other_method string

datatype route =
    Index_route terraform_provider
  | Version_route terraform_provider string
  | Artifact_route string
  | Credentials_route string
  | Healthcheck_route
  | Metrics_route

datatype routing =
    Handled route
  | Bad_request
  | Not_found
  | Method_not_allowed

definition path_params :: "(string \<Rightarrow> string option) \<Rightarrow> string list \<Rightarrow> string list option" where
  "path_params decode segs = those (map decode segs)"

text \<open>The patterns of \<^verbatim>\<open>provider_mirror_app\<close> and of \<^verbatim>\<open>http::api::routes\<close>.\<close>

definition route_provider ::
  "(string \<Rightarrow> string option) \<Rightarrow> string list \<Rightarrow> (terraform_provider \<Rightarrow> route) \<Rightarrow> routing"
where
  "route_provider decode segs f =
     (case path_params decode segs of
        Some [h, n, t] \<Rightarrow> Handled (f \<lparr>tp_hostname = h, tp_namespace = n, tp_type = t\<rparr>)
      | _ \<Rightarrow> Bad_request)"

definition route_one :: "(string \<Rightarrow> string option) \<Rightarrow> string \<Rightarrow> (string \<Rightarrow> route) \<Rightarrow> routing" where
  "route_one decode seg f = (case decode seg of None \<Rightarrow> Bad_request | Some s \<Rightarrow> Handled (f s))"

definition route_path :: "(string \<Rightarrow> string option) \<Rightarrow> string \<Rightarrow> routing" where
  "route_path decode path =
     (let segs = split_path path
      in if segs = [[], ''healthcheck''] then Handled Healthcheck_route
         else if segs = [[], ''metrics''] then Handled Metrics_route
         else if [] \<in> set (tl segs) then Not_found
         else case segs of
           [r, a, b, c, d] \<Rightarrow>
             if r = [] \<and> a = ''mirror'' \<and> b = ''v1'' \<and> c = ''artifacts'' then route_one decode d Artifact_route
             else if r = [] \<and> a = ''api'' \<and> b = ''v1'' \<and> c = ''credentials''
             then route_one decode d Credentials_route
             else Not_found
         | [r, a, b, h, n, t, f] \<Rightarrow>
             if r = [] \<and> a = ''mirror'' \<and> b = ''v1''
             then (if f = ''index.json'' then route_provider decode [h, n, t] Index_route
                   else case decode f of
                     None \<Rightarrow> Bad_request
                   | Some v \<Rightarrow> route_provider decode [h, n, t] (\<lambda>tp. Version_route tp v))
             else Not_found
         | _ \<Rightarrow> Not_found)"

text \<open>The methods each route takes; \<^verbatim>\<open>get\<close> also answers \<^verbatim>\<open>HEAD\<close>, with the same
  handler and without the body.\<close>

fun allowed :: "route \<Rightarrow> http_method \<Rightarrow> bool" where
  "allowed (Credentials_route _) m \<longleftrightarrow> m \<in> {GET, HEAD, POST, DELETE}"
| "allowed _ m \<longleftrightarrow> m \<in> {GET, HEAD}"

definition provider_mirror_app :: "(string \<Rightarrow> string option) \<Rightarrow> http_method \<Rightarrow> string \<Rightarrow> routing" where
  "provider_mirror_app decode m path =
     (case route_path decode path of
        Handled r \<Rightarrow> if allowed r m then Handled r else Method_not_allowed
      | other \<Rightarrow> other)"

definition healthcheck_handler :: status_code where
  "healthcheck_handler = S_OK"

text \<open>The metrics page: what the recorder renders, where there is one.\<close>

definition metrics_handler :: "('h \<Rightarrow> string) \<Rightarrow> 'h option \<Rightarrow> string" where
  "metrics_handler render metric_handle = (case metric_handle of None \<Rightarrow> [] | Some x \<Rightarrow> render x)"

text \<open>The id of an artifact route, as \<^verbatim>\<open>Path<i64>\<close> reads it.\<close>

definition artifact_route_id :: "routing \<Rightarrow> int option" where
  "artifact_route_id r = (case r of Handled (Artifact_route s) \<Rightarrow> parse_i64 s | _ \<Rightarrow> None)"

section \<open>Links lead back\<close>

lemma split_path_Cons [simp]: "split_path (CHR ''/'' # cs) = [] # split_path cs"
  by simp

lemma split_path_no_slash: "CHR ''/'' \<notin> set s \<Longrightarrow> split_path s = [s]"
  by (induction s) auto

lemma split_path_segment:
  "CHR ''/'' \<notin> set s \<Longrightarrow> split_path (s @ CHR ''/'' # rest) = s # split_path rest"
  by (induction s) auto

lemma show_int_segment [simp]: "CHR ''/'' \<notin> set (show_int i)" "CHR ''%'' \<notin> set (show_int i)" "show_int i \<noteq> []"
  using show_int_no_char [of "CHR ''/''" i] show_int_no_char [of "CHR ''%''" i]
  by (auto simp: to_digit_def show_int_def show_nat_not_Nil)

lemma Nil_show_int [simp]: "[] \<noteq> show_int i"
  using show_int_segment(3) [of i] by metis

lemma artifact_path_routes:
  assumes "decode (show_int i) = Some (show_int i)"
  shows "route_path decode (''/mirror/v1/'' @ ''artifacts/'' @ show_int i) = Handled (Artifact_route (show_int i))"
proof -
  have "split_path (''/mirror/v1/'' @ ''artifacts/'' @ show_int i) =
      [[], ''mirror'', ''v1'', ''artifacts'', show_int i]"
    by (simp add: split_path_no_slash)
  then show ?thesis
    using assms by (simp add: route_path_def Let_def route_one_def)
qed

text \<open>
  C23: the endpoints of the protocol fit together. Under a redirect URL that ends in
  \<^verbatim>\<open>/mirror/v1/\<close>, the link of every archive the version endpoint lists, with the
  origin taken off, is a path the server routes to the artifact endpoint with the id of a
  stored row of the asked version.
\<close>

theorem version_links_route_back:
  assumes "pg_wf db" and "version_endpoint (origin @ ''/mirror/v1/'') tp (version @ json_suffix) db = (Done (Some (Ok mv)), db')"
    and "archives mv k = Some t" and "\<forall>s. CHR ''%'' \<notin> set s \<longrightarrow> decode s = Some s"
  shows "\<exists>path v. tpi_url t = origin @ path \<and> v \<in> version_rows db tp version \<and>
    artifact_route_id (provider_mirror_app decode GET path) = Some (vr_id v)"
proof -
  from assms(2) obtain ds where ds: "set ds = row_download ` version_rows db tp version"
      and mv: "mv = mirror_version_build ds (origin @ ''/mirror/v1/'')"
    by (auto elim: version_endpoint_Ok)
  from build_archive assms(3) mv obtain d where "d \<in> set ds"
      "t = \<lparr>tpi_url = build_url (origin @ ''/mirror/v1/'') (dl_id d)\<rparr>" by blast
  with ds obtain v where v: "v \<in> version_rows db tp version"
      "tpi_url t = origin @ ''/mirror/v1/'' @ ''artifacts/'' @ show_int (vr_id v)"
    by (auto simp: row_download_def build_url_def)
  have "in_i64 (vr_id v)" using version_row_in_i64 [OF assms(1)] v(1) by (simp add: version_rows_def)
  moreover have "route_path decode (''/mirror/v1/'' @ ''artifacts/'' @ show_int (vr_id v)) =
      Handled (Artifact_route (show_int (vr_id v)))"
    using assms(4) by (intro artifact_path_routes) simp
  ultimately have "artifact_route_id (provider_mirror_app decode GET
      (''/mirror/v1/'' @ ''artifacts/'' @ show_int (vr_id v))) = Some (vr_id v)"
    by (simp add: provider_mirror_app_def artifact_route_id_def parse_i64_show_int)
  with v show ?thesis by blast
qed

text \<open>
  C39: with the bare origin as redirect URL, which validation accepts and the option's help text
  describes, every link leads to a path the server has no route for.
\<close>

theorem origin_redirect_unroutable:
  assumes "version_endpoint (origin @ ''/'') tp (version @ json_suffix) db = (Done (Some (Ok mv)), db')"
    and "archives mv k = Some t"
  shows "\<exists>path. tpi_url t = origin @ path \<and> provider_mirror_app decode GET path = Not_found"
proof -
  from assms(1) obtain ds where mv: "mv = mirror_version_build ds (origin @ ''/'')"
    by (auto elim: version_endpoint_Ok)
  from build_archive [OF assms(2) [unfolded mv]] obtain d :: database_download_result where
      "t = \<lparr>tpi_url = build_url (origin @ ''/'') (dl_id d)\<rparr>" by blast
  moreover have "route_path decode (''/'' @ ''artifacts/'' @ show_int i) = Not_found" for i
  proof -
    have "split_path (''/'' @ ''artifacts/'' @ show_int i) = [[], ''artifacts'', show_int i]"
      by (simp add: split_path_no_slash)
    then show ?thesis by (simp add: route_path_def Let_def)
  qed
  ultimately show ?thesis
    by (intro exI [of _ "''/'' @ ''artifacts/'' @ show_int (dl_id d)"])
      (simp add: build_url_def provider_mirror_app_def)
qed

end
