(* ===== verification/Refresh_Pieces.thy ===== *)
theory Refresh_Pieces
  imports Refresher
begin

text \<open>
  One message of the refresher cut at its waits, for a server where other requests get their
  turns in between: taking the message, the fetch from upstream, and the transaction that
  stores the answer. What each piece does to the database is shown here; put in a row, they are
  \<open>handle_request\<close>.
\<close>

section \<open>Phases and pieces\<close>

datatype refresh_phase =
    Idle
  | Fetching refresh_request
  | Saving refresh_request provider_versions

text \<open>A piece ends with the next phase and, when the message is done, its response.\<close>

definition refresh_take ::
  "nat \<Rightarrow> refresh_request \<Rightarrow> nat \<Rightarrow> 'n refresher_state \<Rightarrow> refresh_phase \<times> refresh_response option"
where
  "refresh_take refresh_interval message now_check st =
     (case last_refresh st (rq_provider message) of
        None \<Rightarrow> (Fetching message, None)
      | Some t \<Rightarrow>
          if now_check - t > refresh_interval then (Fetching message, None)
          else (Idle, Some ProviderVersionNotStale))"

definition refresh_finish ::
  "refresh_request \<Rightarrow> (provider_versions, terrashine_error) result \<Rightarrow> nat \<Rightarrow> 'n refresher_state \<Rightarrow>
    (refresh_phase \<times> refresh_response option) \<times> 'n refresher_state"
where
  "refresh_finish message result now_done st =
     ((Idle, Some (RefreshPerformed result)),
      if is_ok result \<or> last_refresh st (rq_provider message) \<noteq> None
      then st\<lparr>last_refresh := (last_refresh st)(rq_provider message \<mapsto> now_done)\<rparr> else st)"

definition refresh_fetch ::
  "'n upstream \<Rightarrow> u16 \<Rightarrow> refresh_request \<Rightarrow> nat \<Rightarrow> 'n refresher_state \<Rightarrow>
    (refresh_phase \<times> refresh_response option) run \<times> 'n refresher_state"
where
  "refresh_fetch up port message now_done st =
     (let tp = rq_provider message
      in case provider_get up port database_helper (json_versions up) (tp_hostname tp)
            (versions_path (tp_namespace tp) (tp_type tp)) (rs_db st) (rs_net st) of
           (Panic, db, nt) \<Rightarrow> (Panic, st\<lparr>rs_db := db, rs_net := nt\<rparr>)
         | (Done (Ok pv), db, nt) \<Rightarrow> (Done (Saving message pv, None), st\<lparr>rs_db := db, rs_net := nt\<rparr>)
         | (Done (Err e), db, nt) \<Rightarrow>
             (let (r, st') = refresh_finish message (Err e) now_done (st\<lparr>rs_db := db, rs_net := nt\<rparr>)
              in (Done r, st')))"

definition refresh_save ::
  "refresh_request \<Rightarrow> provider_versions \<Rightarrow> nat \<Rightarrow> 'n refresher_state \<Rightarrow>
    (refresh_phase \<times> refresh_response option) \<times> 'n refresher_state"
where
  "refresh_save message pv now_done st =
     (let tp = rq_provider message
      in case store_provider_versions (tp_hostname tp) (tp_namespace tp) (tp_type tp) pv (rs_db st) of
           (Ok _, db) \<Rightarrow> refresh_finish message (Ok pv) now_done (st\<lparr>rs_db := db\<rparr>)
         | (Err e, db) \<Rightarrow> refresh_finish message (Err e) now_done (st\<lparr>rs_db := db\<rparr>))"

text \<open>A message that nothing comes between.\<close>

definition run_message ::
  "'n upstream \<Rightarrow> u16 \<Rightarrow> nat \<Rightarrow> refresh_request \<Rightarrow> nat \<Rightarrow> nat \<Rightarrow> 'n refresher_state \<Rightarrow>
    (refresh_phase \<times> refresh_response option) run \<times> 'n refresher_state"
where
  "run_message up port interval m now_check now_done st =
     (case refresh_take interval m now_check st of
        (Fetching q, r) \<Rightarrow>
          (case refresh_fetch up port q now_done st of
             (Done (Saving q' pv, r), st1) \<Rightarrow>
               (let (x, st2) = refresh_save q' pv now_done st1 in (Done x, st2))
           | other \<Rightarrow> other)
      | other \<Rightarrow> (Done other, st))"

lemmas refresh_piece_defs = refresh_take_def refresh_fetch_def refresh_save_def refresh_finish_def

lemma run_message_handle_request:
  "run_message up port interval m c d st =
     (case handle_request up port interval m c d st of
        (Panic, st') \<Rightarrow> (Panic, st')
      | (Done response, st') \<Rightarrow> (Done (Idle, Some response), st'))"
  unfolding run_message_def handle_request_def refresh_provider_def refresh_versions_def refresh_piece_defs
  by (auto simp: Let_def split: option.split prod.split run.split result.split)


section \<open>What a piece does to the database\<close>

lemma refresh_take_phase:
  "refresh_take interval m c st = (ph, x) \<Longrightarrow>
     ph = Fetching m \<and> x = None \<or> ph = Idle \<and> x = Some ProviderVersionNotStale"
  by (auto simp: refresh_take_def split: option.splits if_splits)

lemma refresh_finish_simps [simp]:
  "fst (refresh_finish m r d st) = (Idle, Some (RefreshPerformed r))"
  "rs_db (snd (refresh_finish m r d st)) = rs_db st"
  by (simp_all add: refresh_finish_def)

text \<open>What a piece ends with.\<close>

lemma refresh_fetch_outcome:
  assumes "refresh_fetch up port m d st = (r, st')"
  shows "r = Panic \<longleftrightarrow> url_parse up (discovery_url (tp_hostname (rq_provider m)) port) = None"
    and "r = Done (ph, x) \<Longrightarrow> (\<exists>pv. ph = Saving m pv) \<and> x = None \<or> ph = Idle \<and> (\<exists>resp. x = Some resp)"
proof -
  let ?tp = "rq_provider m"
  obtain g db nt where g: "provider_get up port database_helper (json_versions up) (tp_hostname ?tp)
      (versions_path (tp_namespace ?tp) (tp_type ?tp)) (rs_db st) (rs_net st) = (g, db, nt)"
    by (metis prod_cases3)
  have "r = Panic \<longleftrightarrow> g = Panic"
    using assms g by (auto simp: refresh_fetch_def refresh_finish_def Let_def split: run.splits result.splits)
  then show "r = Panic \<longleftrightarrow> url_parse up (discovery_url (tp_hostname (rq_provider m)) port) = None"
    using provider_get_Panic [of up port database_helper "json_versions up" "tp_hostname ?tp"
        "versions_path (tp_namespace ?tp) (tp_type ?tp)" "rs_db st" "rs_net st"] g by simp
  show "r = Done (ph, x) \<Longrightarrow> (\<exists>pv. ph = Saving m pv) \<and> x = None \<or> ph = Idle \<and> (\<exists>resp. x = Some resp)"
    using assms g by (auto simp: refresh_fetch_def refresh_finish_def Let_def split: run.splits result.splits)
qed

lemma refresh_save_outcome:
  "refresh_save m pv d st = ((ph, x), st') \<Longrightarrow> ph = Idle \<and> (\<exists>resp. x = Some resp)"
  by (auto simp: refresh_save_def refresh_finish_def Let_def split: prod.splits result.splits)

lemma handle_request_Panic:
  assumes "handle_request up port interval m c d st = (Panic, st')"
  shows "url_parse up (discovery_url (tp_hostname (rq_provider m)) port) = None"
proof -
  have "run_message up port interval m c d st = (Panic, st')"
    using assms by (simp add: run_message_handle_request)
  then have "fst (refresh_fetch up port m d st) = Panic"
    unfolding run_message_def
    by (auto simp: refresh_take_def split: option.splits if_splits prod.splits run.splits refresh_phase.splits)
  then show ?thesis
    using refresh_fetch_outcome(1) by (metis prod.collapse)
qed

text \<open>The fetch reads the token of the host and leaves the tables alone.\<close>

lemma refresh_fetch_database:
  assumes wf: "pg_wf (rs_db st)" and run: "refresh_fetch up port m d st = (r, st')"
  shows "pg_wf (rs_db st')" and "database_view (rs_db st') = database_view (rs_db st)"
    and "catalog_part (rs_db st') = catalog_part (rs_db st)"
proof -
  obtain g db nt where g: "provider_get up port database_helper (json_versions up) (tp_hostname (rq_provider m))
      (versions_path (tp_namespace (rq_provider m)) (tp_type (rq_provider m))) (rs_db st) (rs_net st) = (g, db, nt)"
    by (metis prod_cases3)
  from run g have "rs_db st' = db"
    by (auto simp: refresh_fetch_def refresh_finish_def Let_def split: run.splits result.splits)
  with provider_get_database [OF wf g] show "pg_wf (rs_db st')" and "database_view (rs_db st') = database_view (rs_db st)"
      and "catalog_part (rs_db st') = catalog_part (rs_db st)" by simp_all
qed

text \<open>The transaction appends rows without artifacts, under the message's provider.\<close>

lemma refresh_save_database:
  assumes wf: "pg_wf (rs_db st)" and run: "refresh_save m pv d st = ((ph, x), st')"
  shows "pg_wf (rs_db st')" and "catalog (rs_db st) tp \<subseteq> catalog (rs_db st') tp"
    and "artifact_id_column (versions (rs_db st')) = artifact_id_column (versions (rs_db st))"
    and "artifact_ids (rs_db st') = artifact_ids (rs_db st)"
    and "\<exists>pid. id_keys (rs_db st') \<subseteq> insert (pid, provider_triple (rq_provider m)) (id_keys (rs_db st))"
proof -
  obtain r db where st: "store_provider (rq_provider m) pv (rs_db st) = (r, db)" by fastforce
  with run have db: "rs_db st' = db"
    by (auto simp: refresh_save_def refresh_finish_def Let_def split: result.splits)
  note outcome = store_provider_versions_outcome [OF wf st]
  then show "pg_wf (rs_db st')" and "artifact_ids (rs_db st') = artifact_ids (rs_db st)"
    by (simp_all add: db kept_or_stored_def advanced_def)
  from outcome consider "providers db = providers (rs_db st)" "versions db = versions (rs_db st)"
    | new where "stored (provider_triple (rq_provider m)) (platform_triples (pvs_versions pv)) (rs_db st) db new"
    by (auto simp: kept_or_stored_def provider_triple_def)
  then have "catalog (rs_db st) tp \<subseteq> catalog db tp \<and>
      artifact_id_column (versions db) = artifact_id_column (versions (rs_db st)) \<and>
      (\<exists>pid. id_keys db \<subseteq> insert (pid, provider_triple (rq_provider m)) (id_keys (rs_db st)))"
  proof cases
    case 1
    then show ?thesis using catalog_same_tables [OF 1] by (auto simp: id_keys_def)
  next
    case (2 new)
    then obtain pid where keys: "id_keys db = insert (pid, provider_triple (rq_provider m)) (id_keys (rs_db st))"
        and rows: "versions db = versions (rs_db st) @ new" "list_all (\<lambda>v. vr_artifact_id v = None) new"
      by (auto simp: stored_def list_all_iff new_row_def)
    from rows(2) have "artifact_id_column new = []"
      by (induction new) (simp_all add: artifact_id_column_def map_filter_simps)
    then have "artifact_id_column (versions db) = artifact_id_column (versions (rs_db st))"
      by (simp add: rows(1) artifact_id_column_def map_filter_def)
    moreover have "catalog (rs_db st) tp \<subseteq> catalog db tp"
      unfolding catalog_def using keys rows(1) by auto
    ultimately show ?thesis using keys by blast
  qed
  then show "catalog (rs_db st) tp \<subseteq> catalog (rs_db st') tp"
    and "artifact_id_column (versions (rs_db st')) = artifact_id_column (versions (rs_db st))"
    and "\<exists>pid. id_keys (rs_db st') \<subseteq> insert (pid, provider_triple (rq_provider m)) (id_keys (rs_db st))"
    by (simp_all add: db)
qed

end
