(* ===== verification/Artifact_Requests.thy ===== *)
theory Artifact_Requests
  imports Artifacts
begin

text \<open>
  \<^verbatim>\<open>artifacts_handler\<close> cut at its waits, for requests that run side by side: reading the row,
  the allocation of an id and the fetch, which run concurrently, every call of the upload with the
  chunks before it, and the update of the row are pieces, between which other requests get their
  turns and after each of which the request may be dropped. Put in a row, the pieces are the
  handler.
\<close>

section \<open>Phases\<close>

text \<open>
  What a request does next. \<open>Joining\<close> holds what the two halves of \<^verbatim>\<open>try_join!\<close> have
  given so far; \<open>Uploading\<close> holds the upload id, the stream that is left and the variables of the
  loop; \<open>Answered Panic\<close> is a request whose connection task died.
\<close>

datatype artifact_phase =
    Joining artifact_details "int option" "(bytes, reqwest_error) result list option"
  | Stashing artifact "(bytes, reqwest_error) result list"
  | Uploading artifact string "(bytes, reqwest_error) result list" bytes "completed_part list" i32
  | Completing artifact string "completed_part list"
  | Recording artifact
  | Answered "(redirect, status_code) result run"

abbreviation failed :: artifact_phase where
  "failed \<equiv> Answered (Done (Err S_INTERNAL_SERVER_ERROR))"

section \<open>Pieces\<close>

definition artifact_start ::
  "'s s3_client \<Rightarrow> bucket_args \<Rightarrow> int \<Rightarrow> pg \<Rightarrow> artifact_phase \<times> pg"
where
  "artifact_start cl args version_id db =
     (case get_artifact_from_database version_id db of
        (Err e, db') \<Rightarrow> (failed, db')
      | (Ok None, db') \<Rightarrow> (Answered (Done (Err S_NOT_FOUND)), db')
      | (Ok (Some d), db') \<Rightarrow>
          (case ad_artifact_id d of
             Some i \<Rightarrow> (Answered (redirect_to cl args (artifact_of d i)), db')
           | None \<Rightarrow> (Joining d None None, db')))"

text \<open>The halves of the join: the second to be done goes on, and an error of either ends the
  request.\<close>

fun joined ::
  "artifact_details \<Rightarrow> int option \<Rightarrow> (bytes, reqwest_error) result list option \<Rightarrow> artifact_phase"
where
  "joined d (Some i) (Some body) = Stashing (artifact_of d i) body"
| "joined d allocated fetched = Joining d allocated fetched"

definition artifact_allocate ::
  "artifact_details \<Rightarrow> (bytes, reqwest_error) result list option \<Rightarrow> pg \<Rightarrow> artifact_phase \<times> pg"
where
  "artifact_allocate d fetched db =
     (case allocate_artifact_id db of
        (Err e, db') \<Rightarrow> (failed, db')
      | (Ok i, db') \<Rightarrow> (joined d (Some i) fetched, db'))"

definition artifact_fetch ::
  "'n upstream \<Rightarrow> u16 \<Rightarrow> artifact_details \<Rightarrow> int option \<Rightarrow> pg \<Rightarrow> 'n net \<Rightarrow> artifact_phase \<times> pg \<times> 'n net"
where
  "artifact_fetch up port d allocated db nt =
     (case get_upstream up port d db nt of
        (Panic, db', nt') \<Rightarrow> (Answered Panic, db', nt')
      | (Done (Err e), db', nt') \<Rightarrow> (Answered (Done (Err S_BAD_GATEWAY)), db', nt')
      | (Done (Ok body), db', nt') \<Rightarrow> (joined d allocated (Some body), db', nt'))"

text \<open>The upload: creating it, one round of the loop with what follows the end of the stream, and
  completing it.\<close>

definition artifact_create ::
  "'s s3_client \<Rightarrow> bucket_args \<Rightarrow> artifact \<Rightarrow> (bytes, reqwest_error) result list \<Rightarrow> 's s3 \<Rightarrow> artifact_phase \<times> 's s3"
where
  "artifact_create cl args a stream st =
     (let bucket = s3_bucket_name args; key = to_s3_key a (s3_bucket_prefix args)
      in case s3_do (Create bucket key) (create_multipart_upload cl bucket key) st of
           (Err e, st') \<Rightarrow> (failed, st')
         | (Ok None, st') \<Rightarrow> (failed, st')
         | (Ok (Some upload_id), st') \<Rightarrow> (Uploading a upload_id stream [] [] 1, st'))"

fun artifact_chunk ::
  "'s s3_client \<Rightarrow> bucket_args \<Rightarrow> artifact \<Rightarrow> string \<Rightarrow> (bytes, reqwest_error) result list \<Rightarrow>
    bytes \<Rightarrow> completed_part list \<Rightarrow> i32 \<Rightarrow> 's s3 \<Rightarrow> artifact_phase \<times> 's s3"
where
  "artifact_chunk cl args a upload_id [] buffer parts part_number st =
     (case stash_rest cl (s3_bucket_name args) (to_s3_key a (s3_bucket_prefix args)) upload_id
             (buffer, parts, part_number) st of
        (Err e, st') \<Rightarrow> (failed, st')
      | (Ok upload_parts, st') \<Rightarrow> (Completing a upload_id upload_parts, st'))"
| "artifact_chunk cl args a upload_id (Err e # chunks) buffer parts part_number st =
     (failed, snd (abort_upload cl (s3_bucket_name args) (to_s3_key a (s3_bucket_prefix args)) upload_id e st))"
| "artifact_chunk cl args a upload_id (Ok chunk # chunks) buffer parts part_number st =
     (let buffer = buffer @ chunk
      in if length buffer < s3_minimum_upload_chunk_bytes
         then (Uploading a upload_id chunks buffer parts part_number, st)
         else (case send_part cl (s3_bucket_name args) (to_s3_key a (s3_bucket_prefix args)) upload_id
                      buffer part_number st of
                 (Err e, st') \<Rightarrow> (failed, st')
               | (Ok part, st') \<Rightarrow> (Uploading a upload_id chunks [] (parts @ [part]) (part_number + 1), st')))"

definition artifact_complete ::
  "'s s3_client \<Rightarrow> bucket_args \<Rightarrow> artifact \<Rightarrow> string \<Rightarrow> completed_part list \<Rightarrow> 's s3 \<Rightarrow> artifact_phase \<times> 's s3"
where
  "artifact_complete cl args a upload_id upload_parts st =
     (let bucket = s3_bucket_name args; key = to_s3_key a (s3_bucket_prefix args)
      in case s3_do (Complete bucket key upload_id upload_parts)
                (complete_multipart_upload cl bucket key upload_id upload_parts) st of
           (Err e, st') \<Rightarrow> (failed, st')
         | (Ok _, st') \<Rightarrow> (Recording a, st'))"

definition artifact_record ::
  "'s s3_client \<Rightarrow> bucket_args \<Rightarrow> artifact \<Rightarrow> pg \<Rightarrow> artifact_phase \<times> pg"
where
  "artifact_record cl args a db =
     (case store_artifact_in_database a db of
        (Err e, db') \<Rightarrow> (failed, db')
      | (Ok _, db') \<Rightarrow> (Answered (redirect_to cl args a), db'))"

text \<open>The next piece of a request; in a join, of one half that is not done yet.\<close>

datatype join_half = Allocation | Fetch

definition artifact_piece ::
  "'n upstream \<Rightarrow> u16 \<Rightarrow> 's s3_client \<Rightarrow> bucket_args \<Rightarrow> join_half \<Rightarrow> artifact_phase \<Rightarrow>
    ('n, 's) artifact_world \<Rightarrow> (artifact_phase \<times> ('n, 's) artifact_world) option"
where
  "artifact_piece up port cl args half ph w =
     (case ph of
        Joining d allocated fetched \<Rightarrow>
          (case half of
             Allocation \<Rightarrow>
               if allocated \<noteq> None then None
               else (let (ph', db) = artifact_allocate d fetched (aw_db w) in Some (ph', w\<lparr>aw_db := db\<rparr>))
           | Fetch \<Rightarrow>
               if fetched \<noteq> None then None
               else (let (ph', db, nt) = artifact_fetch up port d allocated (aw_db w) (aw_net w)
                     in Some (ph', w\<lparr>aw_db := db, aw_net := nt\<rparr>)))
      | Stashing a body \<Rightarrow>
          (let (ph', st) = artifact_create cl args a body (aw_s3 w) in Some (ph', w\<lparr>aw_s3 := st\<rparr>))
      | Uploading a upload_id stream buffer parts part_number \<Rightarrow>
          (let (ph', st) = artifact_chunk cl args a upload_id stream buffer parts part_number (aw_s3 w)
           in Some (ph', w\<lparr>aw_s3 := st\<rparr>))
      | Completing a upload_id upload_parts \<Rightarrow>
          (let (ph', st) = artifact_complete cl args a upload_id upload_parts (aw_s3 w)
           in Some (ph', w\<lparr>aw_s3 := st\<rparr>))
      | Recording a \<Rightarrow>
          (let (ph', db) = artifact_record cl args a (aw_db w) in Some (ph', w\<lparr>aw_db := db\<rparr>))
      | Answered r \<Rightarrow> None)"

lemma artifact_of_simps [simp]:
  "af_artifact_id (artifact_of d i) = i" "af_version_id (artifact_of d i) = ad_version_id d"
  by (simp_all add: artifact_of_def)

lemmas piece_defs = artifact_start_def artifact_allocate_def artifact_fetch_def artifact_create_def
  artifact_complete_def artifact_record_def

section \<open>One request alone\<close>

text \<open>A request gets nearer to its answer with every piece.\<close>

fun phase_rank :: "artifact_phase \<Rightarrow> nat \<times> nat" where
  "phase_rank (Joining d allocated fetched) =
     (5 + (if allocated = None then 1 else 0) + (if fetched = None then 1 else 0), 0)"
| "phase_rank (Stashing a body) = (4, 0)"
| "phase_rank (Uploading a upload_id stream buffer parts part_number) = (3, length stream)"
| "phase_rank (Completing a upload_id upload_parts) = (2, 0)"
| "phase_rank (Recording a) = (1, 0)"
| "phase_rank (Answered r) = (0, 0)"

lemma joined_rank:
  "fst (phase_rank (joined d (Some i) fetched)) < fst (phase_rank (Joining d None fetched))"
  "fst (phase_rank (joined d allocated (Some body))) < fst (phase_rank (Joining d allocated None))"
  by (cases fetched; simp) (cases allocated; simp)

lemma artifact_piece_rank:
  assumes "artifact_piece up port cl args half ph w = Some (ph', w')"
  shows "(phase_rank ph', phase_rank ph) \<in> less_than <*lex*> less_than"
proof (cases ph)
  case (Joining d allocated fetched)
  with assms joined_rank show ?thesis
    by (cases half) (auto simp: artifact_piece_def artifact_allocate_def artifact_fetch_def Let_def
        split: if_splits prod.splits result.splits run.splits)
next
  case (Uploading a u stream buffer parts n)
  with assms show ?thesis
    by (cases stream; cases "hd stream")
      (auto simp: artifact_piece_def Let_def split: if_splits prod.splits result.splits)
qed (use assms in \<open>auto simp: artifact_piece_def piece_defs Let_def
      split: prod.splits result.splits option.splits\<close>)

text \<open>\<open>order\<close> says which half of the join is done first.\<close>

fun next_half :: "join_order \<Rightarrow> artifact_phase \<Rightarrow> join_half" where
  "next_half Allocate_first (Joining d None fetched) = Allocation"
| "next_half Allocate_first ph = Fetch"
| "next_half Fetch_first (Joining d allocated None) = Fetch"
| "next_half Fetch_first ph = Allocation"

function run_pieces ::
  "'n upstream \<Rightarrow> u16 \<Rightarrow> 's s3_client \<Rightarrow> bucket_args \<Rightarrow> join_order \<Rightarrow> artifact_phase \<Rightarrow>
    ('n, 's) artifact_world \<Rightarrow> artifact_phase \<times> ('n, 's) artifact_world"
where
  "run_pieces up port cl args order ph w =
     (case artifact_piece up port cl args (next_half order ph) ph w of
        None \<Rightarrow> (ph, w)
      | Some (ph', w') \<Rightarrow> run_pieces up port cl args order ph' w')"
  by pat_completeness auto

termination
  by (relation "inv_image (less_than <*lex*> less_than) (\<lambda>(up, port, cl, args, order, ph, w). phase_rank ph)")
    (auto dest: artifact_piece_rank)

declare run_pieces.simps [simp del]


text \<open>The pieces of each phase in a row.\<close>

lemma run_answered [simp]: "run_pieces up port cl args order (Answered r) w = (Answered r, w)"
  by (simp add: run_pieces.simps artifact_piece_def)







end
