(* ===== verification/Artifact_Safety.thy ===== *)
theory Artifact_Safety
  imports Artifact_Requests
begin

text \<open>
  What any number of artifact requests, cut into pieces, keep of the tables and the bucket.
  \<open>artifact_turn\<close> is one turn of one of them, or anything else that may happen to tables and
  requests in between; \<open>requests_ok\<close> is the invariant.
\<close>

section \<open>Turns\<close>

type_synonym requests = "nat \<rightharpoonup> artifact_phase"

inductive artifact_turn ::
  "'n upstream \<Rightarrow> u16 \<Rightarrow> 's s3_client \<Rightarrow> bucket_args \<Rightarrow>
    requests \<Rightarrow> pg \<Rightarrow> 's s3 \<Rightarrow> requests \<Rightarrow> pg \<Rightarrow> 's s3 \<Rightarrow> bool"
for up port cl args where
  elsewhere: "artifact_ids db \<le> artifact_ids db' \<Longrightarrow>
    artifact_id_column (versions db') = artifact_id_column (versions db) \<Longrightarrow>
    artifact_turn up port cl args rs db st rs db' st"
| dropped: "(\<And>i ph. rs' i = Some ph \<Longrightarrow> rs i = Some ph) \<Longrightarrow>
    artifact_turn up port cl args rs db st rs' db st"
| started: "artifact_start cl args vid db = (ph, db') \<Longrightarrow>
    artifact_turn up port cl args rs db st (rs(i \<mapsto> ph)) db' st"
| allocated: "rs i = Some (Joining d None fetched) \<Longrightarrow> artifact_allocate d fetched db = (ph, db') \<Longrightarrow>
    artifact_turn up port cl args rs db st (rs(i \<mapsto> ph)) db' st"
| fetched: "rs i = Some (Joining d alloc None) \<Longrightarrow> artifact_fetch up port d alloc db nt = (ph, db', nt') \<Longrightarrow>
    artifact_turn up port cl args rs db st (rs(i \<mapsto> ph)) db' st"
| created: "rs i = Some (Stashing a body) \<Longrightarrow> artifact_create cl args a body st = (ph, st') \<Longrightarrow>
    artifact_turn up port cl args rs db st (rs(i \<mapsto> ph)) db st'"
| chunked: "rs i = Some (Uploading a uid stream buffer parts n) \<Longrightarrow>
    artifact_chunk cl args a uid stream buffer parts n st = (ph, st') \<Longrightarrow>
    artifact_turn up port cl args rs db st (rs(i \<mapsto> ph)) db st'"
| completed: "rs i = Some (Completing a uid parts) \<Longrightarrow> artifact_complete cl args a uid parts st = (ph, st') \<Longrightarrow>
    artifact_turn up port cl args rs db st (rs(i \<mapsto> ph)) db st'"
| recorded: "rs i = Some (Recording a) \<Longrightarrow> artifact_record cl args a db = (ph, db') \<Longrightarrow>
    artifact_turn up port cl args rs db st (rs(i \<mapsto> ph)) db' st"

section \<open>The invariant\<close>

text \<open>The artifact id a request will upload under, and the multipart upload it has open.\<close>

fun held_id :: "artifact_phase \<Rightarrow> int option" where
  "held_id (Joining d allocated fetched) = allocated"
| "held_id (Stashing a body) = Some (af_artifact_id a)"
| "held_id (Uploading a uid stream buffer parts n) = Some (af_artifact_id a)"
| "held_id (Completing a uid parts) = Some (af_artifact_id a)"
| "held_id (Recording a) = None"
| "held_id (Answered r) = None"

lemma held_joined [simp]: "held_id (joined d allocated fetched) = allocated"
  by (cases "(d, allocated, fetched)" rule: joined.cases) auto

definition sole_holder :: "(artifact_phase \<Rightarrow> 'a option) \<Rightarrow> requests \<Rightarrow> nat \<Rightarrow> 'a \<Rightarrow> bool" where
  "sole_holder held rs i x \<longleftrightarrow> (\<forall>j ph. rs j = Some ph \<and> held ph = Some x \<longrightarrow> j = i)"

text \<open>An artifact id is settled when it came from the sequence, its object is in the bucket, and
  no request is still to upload under its key.\<close>

definition settled ::
  "'s s3_object \<Rightarrow> bucket_args \<Rightarrow> requests \<Rightarrow> pg \<Rightarrow> 's s3 \<Rightarrow> int \<Rightarrow> bool"
where
  "settled object args rs db st aid \<longleftrightarrow>
     id_ok (artifact_ids db) aid \<and>
     object (s3_peer st) (s3_bucket_name args) (artifact_key args aid) \<noteq> None \<and>
     (\<forall>i ph. rs i = Some ph \<longrightarrow> held_id ph \<noteq> Some aid)"

text \<open>What a phase that no longer holds an id relies on.\<close>

definition relies_ok ::
  "'s s3_client \<Rightarrow> 's s3_object \<Rightarrow> bucket_args \<Rightarrow> requests \<Rightarrow> pg \<Rightarrow> 's s3 \<Rightarrow> artifact_phase \<Rightarrow> bool"
where
  "relies_ok cl object args rs db st ph \<longleftrightarrow>
     (\<forall>a. ph = Recording a \<longrightarrow> settled object args rs db st (af_artifact_id a)) \<and>
     (\<forall>rd. ph = Answered (Done (Ok rd)) \<longrightarrow>
        (\<exists>a. settled object args rs db st (af_artifact_id a) \<and> redirect_to cl args a = Done (Ok rd)))"

definition phase_ok ::
  "'s s3_client \<Rightarrow> 's s3_object \<Rightarrow> bucket_args \<Rightarrow> requests \<Rightarrow> pg \<Rightarrow> 's s3 \<Rightarrow> nat \<Rightarrow> artifact_phase \<Rightarrow> bool"
where
  "phase_ok cl object args rs db st i ph \<longleftrightarrow>
     (\<forall>aid. held_id ph = Some aid \<longrightarrow> id_ok (artifact_ids db) aid \<and> sole_holder held_id rs i aid) \<and>
     relies_ok cl object args rs db st ph"

definition requests_ok ::
  "'s s3_client \<Rightarrow> 's s3_object \<Rightarrow> bucket_args \<Rightarrow> requests \<Rightarrow> pg \<Rightarrow> 's s3 \<Rightarrow> bool"
where
  "requests_ok cl object args rs db st \<longleftrightarrow>
     (\<forall>aid \<in> set (artifact_id_column (versions db)). settled object args rs db st aid) \<and>
     (\<forall>i ph. rs i = Some ph \<longrightarrow> phase_ok cl object args rs db st i ph)"

lemma requests_okD: "requests_ok cl object args rs db st \<Longrightarrow> rs i = Some ph \<Longrightarrow> phase_ok cl object args rs db st i ph"
  by (simp add: requests_ok_def)

lemma requests_ok_held:
  assumes "requests_ok cl object args rs db st" and "rs i = Some ph" and "held_id ph = Some aid"
  shows "id_ok (artifact_ids db) aid" and "sole_holder held_id rs i aid"
    and "aid \<notin> set (artifact_id_column (versions db))"
  using assms requests_okD [OF assms(1,2)] by (auto simp: phase_ok_def requests_ok_def settled_def)

lemma requests_ok_present: "requests_ok cl object args rs db st \<Longrightarrow> artifacts_present object args db st"
  by (simp add: requests_ok_def artifacts_present_def settled_def)

lemma requests_ok_empty:
  "pg_wf db \<Longrightarrow> requests_ok cl object args Map.empty db st \<longleftrightarrow> artifacts_present object args db st"
  by (auto simp: requests_ok_def artifacts_present_def settled_def wf_defs list_all_iff)

text \<open>The bytes of every settled artifact stay what they are.\<close>

definition contents_kept :: "'s s3_object \<Rightarrow> bucket_args \<Rightarrow> requests \<Rightarrow> pg \<Rightarrow> 's s3 \<Rightarrow> 's s3 \<Rightarrow> bool" where
  "contents_kept object args rs db st st' \<longleftrightarrow>
     (\<forall>aid. settled object args rs db st aid \<longrightarrow>
        object (s3_peer st') (s3_bucket_name args) (artifact_key args aid) =
        object (s3_peer st) (s3_bucket_name args) (artifact_key args aid))"

lemma contents_kept_refl [simp]: "contents_kept object args rs db st st"
  by (simp add: contents_kept_def)

text \<open>Settled ids stay settled while the sequence grows, contents are kept, and ids get into
  hands only when they are new.\<close>

lemma settled_mono:
  assumes "settled object args rs db st aid" and "artifact_ids db \<le> artifact_ids db'"
    and "contents_kept object args rs db st st'"
    and "\<And>i ph. rs' i = Some ph \<Longrightarrow> held_id ph = Some aid \<Longrightarrow>
      (\<exists>i ph. rs i = Some ph \<and> held_id ph = Some aid) \<or> artifact_ids db \<le> aid"
  shows "settled object args rs' db' st' aid"
  using assms unfolding settled_def contents_kept_def id_ok_def by (metis linorder_not_less order_less_le_trans)

lemma settled_released:
  "settled object args rs db st aid \<Longrightarrow> held_id ph = None \<Longrightarrow> artifact_ids db' = artifact_ids db \<Longrightarrow>
     settled object args (rs(i \<mapsto> ph)) db' st aid"
  by (simp add: settled_def)

text \<open>One request changes its phase, and everything else as above.\<close>

lemma requests_ok_update:
  assumes inv: "requests_ok cl object args rs db st"
    and ids: "artifact_ids db \<le> artifact_ids db'" and kept: "contents_kept object args rs db st st'"
    and hold: "\<And>aid. held_id ph = Some aid \<Longrightarrow> id_ok (artifact_ids db') aid \<and>
      ((\<exists>old. rs i = Some old \<and> held_id old = Some aid) \<or> artifact_ids db \<le> aid)"
    and col: "\<And>aid. aid \<in> set (artifact_id_column (versions db')) \<Longrightarrow>
      aid \<in> set (artifact_id_column (versions db)) \<or> settled object args (rs(i \<mapsto> ph)) db' st' aid"
    and here: "relies_ok cl object args (rs(i \<mapsto> ph)) db' st' ph"
  shows "requests_ok cl object args (rs(i \<mapsto> ph)) db' st'"
proof -
  let ?rs = "rs(i \<mapsto> ph)"
  have stays: "settled object args ?rs db' st' aid" if "settled object args rs db st aid" for aid
    using that ids kept by (rule settled_mono) (use hold in \<open>fastforce split: if_splits\<close>)
  have sole: "sole_holder held_id ?rs j aid" if "?rs j = Some q" "held_id q = Some aid" for j q aid
    unfolding sole_holder_def
  proof (intro allI impI)
    fix k p
    assume k: "?rs k = Some p \<and> held_id p = Some aid"
    have old: "id_ok (artifact_ids db) aid \<and> (\<forall>m r. rs m = Some r \<and> held_id r = Some aid \<longrightarrow> m = l)"
      if "rs l = Some r" "held_id r = Some aid" for l r
      using requests_ok_held [OF inv that] by (simp add: sole_holder_def)
    show "k = j"
      using k that hold [of aid] old by (fastforce simp: id_ok_def split: if_splits)
  qed
  have "phase_ok cl object args ?rs db' st' j q" if j: "?rs j = Some q" for j q
  proof (cases "j = i")
    case True
    with j hold sole [OF j] here show ?thesis by (auto simp: phase_ok_def)
  next
    case False
    with j have "rs j = Some q" by simp
    from requests_okD [OF inv this] ids stays sole [OF j] show ?thesis
      by (fastforce simp: phase_ok_def relies_ok_def id_ok_def)
  qed
  moreover have "settled object args ?rs db' st' aid" if "aid \<in> set (artifact_id_column (versions db'))" for aid
    using col [OF that] stays inv by (auto simp: requests_ok_def)
  ultimately show ?thesis unfolding requests_ok_def by blast
qed

text \<open>The same for phases that rely on nothing, with the column as it was.\<close>

lemma requests_ok_move:
  assumes "requests_ok cl object args rs db st" and "artifact_ids db \<le> artifact_ids db'"
    and "contents_kept object args rs db st st'"
    and "\<And>aid. held_id ph = Some aid \<Longrightarrow> id_ok (artifact_ids db') aid \<and>
      ((\<exists>old. rs i = Some old \<and> held_id old = Some aid) \<or> artifact_ids db \<le> aid)"
    and "artifact_id_column (versions db') = artifact_id_column (versions db)"
    and "\<nexists>a. ph = Recording a" and "\<nexists>rd. ph = Answered (Done (Ok rd))"
  shows "requests_ok cl object args (rs(i \<mapsto> ph)) db' st'"
  using assms(1-4) by (rule requests_ok_update) (use assms(5-7) in \<open>auto simp: relies_ok_def\<close>)

lemma requests_ok_frame:
  assumes inv: "requests_ok cl object args rs db st" and ids: "artifact_ids db \<le> artifact_ids db'"
    and col: "artifact_id_column (versions db') = artifact_id_column (versions db)"
    and fewer: "\<And>i ph. rs' i = Some ph \<Longrightarrow> rs i = Some ph"
  shows "requests_ok cl object args rs' db' st"
proof -
  have stays: "settled object args rs' db' st aid" if "settled object args rs db st aid" for aid
    using that ids contents_kept_refl by (rule settled_mono) (use fewer in blast)
  have "phase_ok cl object args rs' db' st i ph" if i: "rs' i = Some ph" for i ph
  proof -
    have "sole_holder held_id rs' i aid" if "sole_holder held_id rs i aid" for aid
      using that fewer unfolding sole_holder_def by blast
    with requests_okD [OF inv fewer [OF i]] stays ids show ?thesis
      by (fastforce simp: phase_ok_def relies_ok_def id_ok_def)
  qed
  with inv stays show ?thesis by (simp add: requests_ok_def col)
qed

section \<open>Every turn keeps it\<close>

lemma artifact_start_ok:
  assumes inv: "requests_ok cl object args rs db st" and wf: "pg_wf db"
    and run: "artifact_start cl args vid db = (ph, db')"
  shows "requests_ok cl object args (rs(i \<mapsto> ph)) db' st"
    and "artifact_ids db' = artifact_ids db" and "versions db' = versions db"
proof -
  obtain g where g: "get_artifact_from_database vid db = (g, db')"
    using run by (auto simp: artifact_start_def split: prod.splits result.splits option.splits)
  have "fault_blind (\<lambda>d. versions d = versions db \<and> artifact_ids d = artifact_ids db)"
    by (simp add: fault_blind_def)
  from get_artifact_keeps [OF this, of db vid] g
  show same: "artifact_ids db' = artifact_ids db" "versions db' = versions db" by simp_all
  have held: "held_id ph = None"
    using run g by (auto simp: artifact_start_def split: result.splits option.splits)
  show "requests_ok cl object args (rs(i \<mapsto> ph)) db' st"
  proof (cases "\<exists>d aid. g = Ok (Some d) \<and> ad_artifact_id d = Some aid")
    case False
    with run g held same show ?thesis
      by (intro requests_ok_move [OF inv]) (auto simp: artifact_start_def split: result.splits option.splits)
  next
    case True
    then obtain d aid where d: "g = Ok (Some d)" "ad_artifact_id d = Some aid" by blast
    with get_artifact_Some [of vid db d db'] g obtain v where "v \<in> set (versions db)" "vr_artifact_id v = Some aid"
      by auto
    with inv have "settled object args rs db st aid" by (auto simp: requests_ok_def artifact_id_column_set)
    then have "settled object args (rs(i \<mapsto> ph)) db' st aid"
      using held same(1) by (rule settled_released)
    moreover have "ph = Answered (redirect_to cl args (artifact_of d aid))"
      using run g d by (simp add: artifact_start_def)
    ultimately have "relies_ok cl object args (rs(i \<mapsto> ph)) db' st ph"
      unfolding relies_ok_def by (metis artifact_of_simps(1) artifact_phase.distinct(29) artifact_phase.inject(6))
    with held same show ?thesis by (intro requests_ok_update [OF inv]) simp_all
  qed
qed

lemma joined_relies: "joined d x y \<noteq> Recording a" "joined d x y \<noteq> Answered r"
  by (cases "(d, x, y)" rule: joined.cases; simp)+

lemma artifact_allocate_ok:
  assumes inv: "requests_ok cl object args rs db st" and wf: "pg_wf db"
    and run: "artifact_allocate d fetched db = (ph, db')"
  shows "requests_ok cl object args (rs(i \<mapsto> ph)) db' st" and "pg_wf db'" and "artifact_ids db \<le> artifact_ids db'"
    and "versions db' = versions db" and "providers db' = providers db"
    and "held_id ph = Some aid \<Longrightarrow> artifact_ids db \<le> aid"
proof -
  obtain r where r: "allocate_artifact_id db = (r, db')"
    using run by (auto simp: artifact_allocate_def split: prod.splits result.splits)
  note alloc = allocate_artifact_id_keeps [OF wf r]
  then show "pg_wf db'" "artifact_ids db \<le> artifact_ids db'" "versions db' = versions db" "providers db' = providers db"
    by simp_all
  have "1 \<le> artifact_ids db" using wf by (simp add: wf_defs seq_ok_def)
  have ph: "ph = failed \<or> (\<exists>i. r = Ok i \<and> ph = joined d (Some i) fetched)"
    using run r by (auto simp: artifact_allocate_def split: result.splits)
  have new: "id_ok (artifact_ids db') aid \<and> artifact_ids db \<le> aid" if "held_id ph = Some aid" for aid
  proof -
    from ph that have "r = Ok aid" by auto
    with alloc(4) [of aid] \<open>1 \<le> artifact_ids db\<close> show ?thesis by (auto simp: id_ok_def)
  qed
  then show "held_id ph = Some aid \<Longrightarrow> artifact_ids db \<le> aid" by blast
  from ph have "(\<nexists>a. ph = Recording a) \<and> (\<nexists>rd. ph = Answered (Done (Ok rd)))" using joined_relies by auto
  with new alloc(2,5) show "requests_ok cl object args (rs(i \<mapsto> ph)) db' st"
    by (intro requests_ok_move [OF inv]) auto
qed

lemma artifact_fetch_ok:
  assumes inv: "requests_ok cl object args rs db st" and wf: "pg_wf db" and i: "rs i = Some (Joining d alloc None)"
    and run: "artifact_fetch up port d alloc db nt = (ph, db', nt')"
  shows "requests_ok cl object args (rs(i \<mapsto> ph)) db' st" and "pg_wf db'" and "artifact_ids db' = artifact_ids db"
    and "versions db' = versions db" and "providers db' = providers db"
    and "held_id ph = None \<or> held_id ph = alloc"
proof -
  obtain r where r: "get_upstream up port d db nt = (r, db', nt')"
    using run by (auto simp: artifact_fetch_def split: prod.splits result.splits run.splits)
  from get_upstream_database [OF wf r]
  show same: "pg_wf db'" "artifact_ids db' = artifact_ids db" "versions db' = versions db" "providers db' = providers db"
    by (simp_all add: catalog_part_def)
  have ph: "ph = Answered Panic \<or> ph = Answered (Done (Err S_BAD_GATEWAY)) \<or> (\<exists>b. ph = joined d alloc (Some b))"
    using run r by (auto simp: artifact_fetch_def split: run.splits result.splits)
  then show held: "held_id ph = None \<or> held_id ph = alloc" by auto
  have "id_ok (artifact_ids db) aid" if "alloc = Some aid" for aid
    using requests_ok_held(1) [OF inv i, of aid] that by simp
  moreover from ph have "(\<nexists>a. ph = Recording a) \<and> (\<nexists>rd. ph = Answered (Done (Ok rd)))" using joined_relies by auto
  ultimately show "requests_ok cl object args (rs(i \<mapsto> ph)) db' st"
    using held i same by (intro requests_ok_move [OF inv]) auto
qed

text \<open>A call to the bucket touches no object but that of its request, and a request goes on to
  record only an object that is there.\<close>

definition own_object :: "'s s3_object \<Rightarrow> bucket_args \<Rightarrow> int \<Rightarrow> artifact_phase \<Rightarrow> 's s3 \<Rightarrow> 's s3 \<Rightarrow> bool" where
  "own_object object args aid ph st st' \<longleftrightarrow>
     (\<forall>b k. (b, k) \<noteq> (s3_bucket_name args, artifact_key args aid) \<longrightarrow> object (s3_peer st') b k = object (s3_peer st) b k) \<and>
     (held_id ph = None \<or> held_id ph = Some aid) \<and> (\<nexists>rd. ph = Answered (Done (Ok rd))) \<and>
     (\<forall>a. ph = Recording a \<longrightarrow> af_artifact_id a = aid \<and>
        object (s3_peer st') (s3_bucket_name args) (artifact_key args aid) \<noteq> None)"

lemma bucket_turn_ok:
  assumes inv: "requests_ok cl object args rs db st" and wf: "pg_wf db"
    and i: "rs i = Some old" "held_id old = Some aid" and own: "own_object object args aid ph st st'"
  shows "requests_ok cl object args (rs(i \<mapsto> ph)) db st'" and "contents_kept object args rs db st st'"
proof -
  have i64: "in_i64 x" if "id_ok (artifact_ids db) x" for x
    using wf that by (auto simp: wf_defs id_ok_def seq_ok_def in_i64_def i64_min_def i64_max_def)
  note mine = requests_ok_held [OF inv i]
  show kept: "contents_kept object args rs db st st'"
    unfolding contents_kept_def
  proof (intro allI impI)
    fix x assume x: "settled object args rs db st x"
    then have "x \<noteq> aid" "id_ok (artifact_ids db) x" using i by (auto simp: settled_def)
    then have "artifact_key args x \<noteq> artifact_key args aid" using artifact_key_inj i64 mine(1) by blast
    then show "object (s3_peer st') (s3_bucket_name args) (artifact_key args x) =
        object (s3_peer st) (s3_bucket_name args) (artifact_key args x)"
      using own by (simp add: own_object_def)
  qed
  show "requests_ok cl object args (rs(i \<mapsto> ph)) db st'"
  proof (cases "\<exists>a. ph = Recording a")
    case False
    with own i mine(1) kept show ?thesis by (intro requests_ok_move [OF inv]) (auto simp: own_object_def)
  next
    case True
    then obtain a where a: "ph = Recording a" "af_artifact_id a = aid" using own by (auto simp: own_object_def)
    have "settled object args (rs(i \<mapsto> ph)) db st' aid"
      using own mine a by (auto simp: settled_def own_object_def sole_holder_def split: if_splits)
    with a kept show ?thesis by (intro requests_ok_update [OF inv]) (auto simp: relies_ok_def)
  qed
qed

lemma create_object:
  assumes "s3_uploads cl object pending"
  shows "object (s3_peer (snd (s3_do call (create_multipart_upload cl bucket key) st))) = object (s3_peer st)"
  using assms by (simp add: s3_do_def split_beta Let_def s3_uploads_def)

lemma artifact_create_own:
  assumes "s3_uploads cl object pending" and "artifact_create cl args a body st = (ph, st')"
  shows "own_object object args (af_artifact_id a) ph st st'"
proof -
  let ?key = "to_s3_key a (s3_bucket_prefix args)"
  obtain r where r: "s3_do (Create (s3_bucket_name args) ?key)
      (create_multipart_upload cl (s3_bucket_name args) ?key) st = (r, st')"
    using assms(2) by (auto simp: artifact_create_def Let_def split: prod.splits result.splits option.splits)
  with create_object [OF assms(1), of "Create (s3_bucket_name args) ?key" "s3_bucket_name args" ?key st] assms(2) show ?thesis
    by (auto simp: artifact_create_def own_object_def Let_def split: result.splits option.splits)
qed

lemma artifact_chunk_own:
  assumes "s3_uploads cl object pending" and "artifact_chunk cl args a uid stream buffer parts n st = (ph, st')"
  shows "own_object object args (af_artifact_id a) ph st st'"
proof -
  let ?send = "\<lambda>b. send_part cl (s3_bucket_name args) (to_s3_key a (s3_bucket_prefix args)) uid b n st"
  have send: "object (s3_peer t) = object (s3_peer st)" if "?send b = (r, t)" for b r t
    using send_part_object [OF assms(1), of "s3_bucket_name args" "to_s3_key a (s3_bucket_prefix args)" uid b n st] that
    by simp
  show ?thesis
  proof (cases stream)
    case Nil
    with assms(2) send show ?thesis
      by (auto simp: own_object_def stash_rest_def split: prod.splits result.splits if_splits)
  next
    case (Cons x chunks)
    show ?thesis
    proof (cases x)
      case (Ok chunk)
      with Cons assms(2) send [of "buffer @ chunk"] show ?thesis
        by (auto simp: own_object_def Let_def split: prod.splits result.splits if_splits)
    next
      case (Err e)
      with Cons assms(2) abort_upload_object [OF assms(1), of "s3_bucket_name args" _ uid e st] show ?thesis
        by (auto simp: own_object_def)
    qed
  qed
qed

lemma artifact_complete_own:
  assumes s3: "s3_completes cl object pending" and run: "artifact_complete cl args a uid parts st = (ph, st')"
  shows "own_object object args (af_artifact_id a) ph st st'"
proof -
  let ?key = "to_s3_key a (s3_bucket_prefix args)"
  obtain r where r: "s3_do (Complete (s3_bucket_name args) ?key uid parts)
      (complete_multipart_upload cl (s3_bucket_name args) ?key uid parts) st = (r, st')"
    using run by (auto simp: artifact_complete_def Let_def split: prod.splits result.splits)
  note outcome = s3_do_result [OF r]
  have "object (s3_peer st') b k = object (s3_peer st) b k" if "(b, k) \<noteq> (s3_bucket_name args, ?key)" for b k
    using complete_other_object [OF s3 that, of uid parts "s3_peer st"] outcome by simp
  moreover have "object (s3_peer st') (s3_bucket_name args) ?key \<noteq> None" if "r = Ok u" for u
    using s3 outcome that by (simp add: s3_completes_def)
  ultimately show ?thesis
    using run r by (auto simp: artifact_complete_def own_object_def Let_def split: result.splits)
qed

lemma artifact_record_ok:
  assumes inv: "requests_ok cl object args rs db st" and wf: "pg_wf db" and i: "rs i = Some (Recording a)"
    and run: "artifact_record cl args a db = (ph, db')"
  shows "requests_ok cl object args (rs(i \<mapsto> ph)) db' st" and "pg_wf db'" and "same_rows db db'"
    and "artifact_ids db' = artifact_ids db" and "\<exists>r. ph = Answered r"
    and "set (artifact_id_column (versions db')) \<subseteq> insert (af_artifact_id a) (set (artifact_id_column (versions db)))"
proof -
  obtain r where r: "store_artifact_in_database a db = (r, db')"
    using run by (auto simp: artifact_record_def split: prod.splits result.splits)
  have mine: "settled object args rs db st (af_artifact_id a)"
    using requests_okD [OF inv i] by (simp add: phase_ok_def relies_ok_def)
  then have "id_ok (artifact_ids db) (af_artifact_id a)" by (simp add: settled_def)
  note stored = store_artifact_database [OF wf this r]
  then show "pg_wf db'"
    and col: "set (artifact_id_column (versions db')) \<subseteq> insert (af_artifact_id a) (set (artifact_id_column (versions db)))"
    by simp_all
  show "same_rows db db'" using r by (rule store_artifact_same_rows)
  show ids: "artifact_ids db' = artifact_ids db"
    using r send_statement_outcome [of "update_artifact (af_artifact_id a) (af_version_id a)" db]
    by (auto simp: store_artifact_in_database_def update_artifact_def split_beta Let_def split: if_splits)
  have ph: "ph = failed \<or> ph = Answered (redirect_to cl args a)"
    using run r by (auto simp: artifact_record_def split: result.splits)
  then show "\<exists>r. ph = Answered r" by blast
  have settled: "settled object args (rs(i \<mapsto> ph)) db' st (af_artifact_id a)"
    using mine _ ids by (rule settled_released) (use ph in auto)
  then have "relies_ok cl object args (rs(i \<mapsto> ph)) db' st ph"
    using ph by (auto simp: relies_ok_def)
  with ph ids col settled show "requests_ok cl object args (rs(i \<mapsto> ph)) db' st"
    by (intro requests_ok_update [OF inv]) auto
qed

text \<open>All turns.\<close>

lemma artifact_turn_ok:
  assumes s3: "s3_uploads cl object pending" "s3_completes cl object pending"
    and inv: "requests_ok cl object args rs db st" and wf: "pg_wf db"
    and turn: "artifact_turn up port cl args rs db st rs' db' st'"
  shows "requests_ok cl object args rs' db' st' \<and> contents_kept object args rs db st st' \<and> artifact_ids db \<le> artifact_ids db'"
  using turn
proof (cases rule: artifact_turn.cases)
  case elsewhere
  with requests_ok_frame [OF inv] show ?thesis by simp
next
  case dropped
  with requests_ok_frame [OF inv, of db rs'] show ?thesis by simp
next
  case (started vid ph i)
  with artifact_start_ok [OF inv wf started(3)] show ?thesis by simp
next
  case (allocated i d fetched ph)
  with artifact_allocate_ok [OF inv wf allocated(4)] show ?thesis by simp
next
  case (fetched i d alloc nt ph nt')
  with artifact_fetch_ok [OF inv wf fetched(3,4)] show ?thesis by simp
next
  case (created i a body ph)
  with bucket_turn_ok [OF inv wf created(3) _ artifact_create_own [OF s3(1) created(4)]] show ?thesis by simp
next
  case (chunked i a uid stream buffer parts n ph)
  with bucket_turn_ok [OF inv wf chunked(3) _ artifact_chunk_own [OF s3(1) chunked(4)]] show ?thesis by simp
next
  case (completed i a uid parts ph)
  with bucket_turn_ok [OF inv wf completed(3) _ artifact_complete_own [OF s3(2) completed(4)]] show ?thesis by simp
next
  case (recorded i a ph)
  with artifact_record_ok [OF inv wf recorded(3,4)] show ?thesis by simp
qed

text \<open>And what is settled stays so.\<close>

lemma artifact_turn_settled:
  assumes s3: "s3_uploads cl object pending" "s3_completes cl object pending"
    and inv: "requests_ok cl object args rs db st" and wf: "pg_wf db"
    and turn: "artifact_turn up port cl args rs db st rs' db' st'"
    and aid: "settled object args rs db st aid"
  shows "settled object args rs' db' st' aid"
proof (rule settled_mono [OF aid])
  note ok = artifact_turn_ok [OF s3 inv wf turn]
  show "artifact_ids db \<le> artifact_ids db'" and "contents_kept object args rs db st st'" using ok by simp_all
  fix j q
  assume q: "rs' j = Some q" "held_id q = Some aid"
  from turn show "(\<exists>i ph. rs i = Some ph \<and> held_id ph = Some aid) \<or> artifact_ids db \<le> aid"
  proof (cases rule: artifact_turn.cases)
    case (started vid ph i)
    then have "held_id ph = None"
      by (auto simp: artifact_start_def split: prod.splits result.splits option.splits)
    with started q show ?thesis by (auto split: if_splits)
  next
    case (allocated i d fetched ph)
    with artifact_allocate_ok(6) [OF inv wf allocated(4), of aid] q show ?thesis
      by (auto split: if_splits)
  next
    case (fetched i d alloc nt ph nt')
    with artifact_fetch_ok(6) [OF inv wf fetched(3,4)] q show ?thesis
      by (fastforce split: if_splits)
  next
    case (created i a body ph)
    with artifact_create_own [OF s3(1) created(4)] q show ?thesis
      by (fastforce simp: own_object_def split: if_splits)
  next
    case (chunked i a uid stream buffer parts n ph)
    with artifact_chunk_own [OF s3(1) chunked(4)] q show ?thesis
      by (fastforce simp: own_object_def split: if_splits)
  next
    case (completed i a uid parts ph)
    with artifact_complete_own [OF s3(2) completed(4)] q show ?thesis
      by (fastforce simp: own_object_def split: if_splits)
  next
    case (recorded i a ph)
    with artifact_record_ok(5) [OF inv wf recorded(3,4)] q show ?thesis
      by (auto split: if_splits)
  qed (use q in blast)+
qed

text \<open>A piece of a request is a turn.\<close>

lemma artifact_piece_turn:
  assumes "rs i = Some ph" and "artifact_piece up port cl args half ph w = Some (ph', w')"
  shows "artifact_turn up port cl args rs (aw_db w) (aw_s3 w) (rs(i \<mapsto> ph')) (aw_db w') (aw_s3 w')"
proof (cases ph)
  case (Joining d alloc fetch)
  with assms show ?thesis
    by (cases half) (auto simp: artifact_piece_def Let_def split: if_splits prod.splits
        intro: artifact_turn.allocated artifact_turn.fetched)
next
  case (Stashing a body)
  with assms show ?thesis by (auto simp: artifact_piece_def split: prod.splits intro: artifact_turn.created)
next
  case (Uploading a uid stream buffer parts n)
  with assms show ?thesis by (auto simp: artifact_piece_def split: prod.splits intro: artifact_turn.chunked)
next
  case (Completing a uid parts)
  with assms show ?thesis by (auto simp: artifact_piece_def split: prod.splits intro: artifact_turn.completed)
next
  case (Recording a)
  with assms show ?thesis by (auto simp: artifact_piece_def split: prod.splits intro: artifact_turn.recorded)
qed (use assms in \<open>simp add: artifact_piece_def\<close>)

lemma artifact_piece_tables:
  assumes "requests_ok cl object args rs (aw_db w) (aw_s3 w)" and "pg_wf (aw_db w)" and "rs i = Some ph"
    and "artifact_piece up port cl args half ph w = Some (ph', w')"
  shows "pg_wf (aw_db w')" and "same_rows (aw_db w) (aw_db w')"
proof -
  have "pg_wf (aw_db w') \<and> same_rows (aw_db w) (aw_db w')"
  proof (cases ph)
    case (Joining d alloc fetch)
    show ?thesis
    proof (cases half)
      case Allocation
      with Joining assms(4) obtain db where "artifact_allocate d fetch (aw_db w) = (ph', db)" "w' = w\<lparr>aw_db := db\<rparr>"
        by (auto simp: artifact_piece_def split: if_splits prod.splits)
      with artifact_allocate_ok [OF assms(1,2)] show ?thesis by (simp add: same_rows_def)
    next
      case Fetch
      with Joining assms(4) obtain db nt where f: "artifact_fetch up port d alloc (aw_db w) (aw_net w) = (ph', db, nt)"
          and w': "w' = w\<lparr>aw_db := db, aw_net := nt\<rparr>" and "fetch = None"
        by (auto simp: artifact_piece_def split: if_splits prod.splits)
      with assms(3) Joining have "rs i = Some (Joining d alloc None)" by simp
      from artifact_fetch_ok [OF assms(1,2) this f] w' show ?thesis by (simp add: same_rows_def)
    qed
  next
    case (Recording a)
    with assms artifact_record_ok [OF assms(1,2), of i a] show ?thesis
      by (auto simp: artifact_piece_def split: prod.splits)
  qed (use assms(2,4) in \<open>auto simp: artifact_piece_def same_rows_def split: prod.splits\<close>)
  then show "pg_wf (aw_db w')" and "same_rows (aw_db w) (aw_db w')" by simp_all
qed

text \<open>The update of the row when no statement fails.\<close>

lemma store_artifact_no_fault:
  assumes "faults db = []" and "af_artifact_id a \<notin> set (artifact_id_column (versions db))"
  shows "store_artifact_in_database a db =
    (Ok (), db\<lparr>versions := map (record_artifact (af_artifact_id a) (af_version_id a) (now db)) (versions db)\<rparr>)"
  using assms by (auto simp: store_artifact_in_database_def update_artifact_def artifact_id_column_set)

end
