(* ===== verification/Mirror_System.thy ===== *)
theory Mirror_System
  imports Index_Endpoint Refresh_Pieces Artifact_Safety Version_Endpoint Credential_Api
begin

text \<open>
  The running server: the refresher and any number of requests, interleaved. A step is one
  piece of a task: a piece of an index or artifact request or of the handling of a message by
  the refresher, or one whole request of the other endpoints, which is one statement. Requests
  may be given up by their clients at any time; the refresher is cancelled between messages
  only. One clock, in milliseconds, serves the send timeout and the refresh interval.
\<close>

section \<open>State and steps\<close>

record ('n, 's) server =
  sv_upstream :: "'n upstream"
  sv_port :: u16
  sv_interval :: nat
  sv_s3_client :: "'s s3_client"
  sv_bucket :: bucket_args
  sv_redirect_url :: string

record ('n, 's) world =
  wd_refresher :: "'n refresher_state"
  wd_refreshing :: refresh_phase
  wd_s3 :: "'s s3"
  wd_channel :: channel
  wd_index :: "nat \<rightharpoonup> index_phase"
  wd_next :: nat
  wd_artifacts :: requests
  wd_time :: nat
  wd_status :: refresher_end

abbreviation wd_db :: "('n, 's) world \<Rightarrow> pg" where
  "wd_db s \<equiv> rs_db (wd_refresher s)"

definition set_db :: "pg \<Rightarrow> ('n, 's) world \<Rightarrow> ('n, 's) world" where
  "set_db db s = s\<lparr>wd_refresher := (wd_refresher s)\<lparr>rs_db := db\<rparr>\<rparr>"

definition boot :: "pg \<Rightarrow> 'n net \<Rightarrow> 's s3 \<Rightarrow> ('n, 's) world" where
  "boot db nt st =
     \<lparr>wd_refresher = \<lparr>last_refresh = Map.empty, rs_db = db, rs_net = nt\<rparr>, wd_refreshing = Idle, wd_s3 = st,
      wd_channel = new_channel, wd_index = Map.empty, wd_next = 0,
      wd_artifacts = Map.empty, wd_time = 0, wd_status = Waiting\<rparr>"

text \<open>A reply reaches its handler if that still waits; without it, the send fails and is
  logged.\<close>

definition deliver :: "(nat \<times> refresh_response) option \<Rightarrow> (nat \<rightharpoonup> index_phase) \<Rightarrow> (nat \<rightharpoonup> index_phase)" where
  "deliver reply hs =
     (case reply of
        None \<Rightarrow> hs
      | Some (i, response) \<Rightarrow>
          (case hs i of
             Some (Awaiting tp) \<Rightarrow> hs(i \<mapsto> Responded (index_reply tp (Some response)))
           | _ \<Rightarrow> hs))"

text \<open>The refresher is gone: every handler that waits for it sees a dropped channel.\<close>

definition drop_waiting :: "(nat \<rightharpoonup> index_phase) \<Rightarrow> (nat \<rightharpoonup> index_phase)" where
  "drop_waiting hs = (\<lambda>i. case hs i of
     Some (Awaiting tp) \<Rightarrow> Some (Responded (index_reply tp None)) | ph \<Rightarrow> ph)"

text \<open>A panic of the refresher ends the process: pending handlers never respond.\<close>

definition drop_pending :: "(nat \<rightharpoonup> index_phase) \<Rightarrow> (nat \<rightharpoonup> index_phase)" where
  "drop_pending hs = (\<lambda>i. case hs i of Some (Responded r) \<Rightarrow> Some (Responded r) | _ \<Rightarrow> None)"

text \<open>The refresher's next piece: its phase, and the reply where the message is done. There is
  none where it waits for a message.\<close>

definition advance ::
  "refresh_request \<Rightarrow> refresh_phase \<times> refresh_response option \<Rightarrow> ('n, 's) world \<Rightarrow> ('n, 's) world"
where
  "advance m outcome s =
     s\<lparr>wd_refreshing := fst outcome,
       wd_index := (case snd outcome of
           None \<Rightarrow> wd_index s | Some response \<Rightarrow> deliver (reply_to m response) (wd_index s))\<rparr>"

definition refresh_step :: "('n, 's) server \<Rightarrow> ('n, 's) world \<Rightarrow> ('n, 's) world option" where
  "refresh_step sv s =
     (case wd_refreshing s of
        Idle \<Rightarrow>
          (case recv (wd_channel s) of
             None \<Rightarrow> None
           | Some (m, ch) \<Rightarrow>
               Some (advance m (refresh_take (sv_interval sv) m (wd_time s) (wd_refresher s)) (s\<lparr>wd_channel := ch\<rparr>)))
      | Fetching m \<Rightarrow>
          Some (case refresh_fetch (sv_upstream sv) (sv_port sv) m (wd_time s) (wd_refresher s) of
             (Done outcome, st) \<Rightarrow> advance m outcome (s\<lparr>wd_refresher := st\<rparr>)
           | (Panic, st) \<Rightarrow>
               s\<lparr>wd_refresher := st, wd_refreshing := Idle, wd_channel := close_channel (wd_channel s),
                 wd_index := drop_pending (wd_index s), wd_status := Crashed\<rparr>)
      | Saving m pv \<Rightarrow>
          (let (outcome, st) = refresh_save m pv (wd_time s) (wd_refresher s)
           in Some (advance m outcome (s\<lparr>wd_refresher := st\<rparr>))))"

text \<open>The pieces of an artifact request, on the shared state.\<close>

definition artifact_view :: "('n, 's) world \<Rightarrow> ('n, 's) artifact_world" where
  "artifact_view s = \<lparr>aw_db = wd_db s, aw_net = rs_net (wd_refresher s), aw_s3 = wd_s3 s\<rparr>"

definition put_view :: "('n, 's) artifact_world \<Rightarrow> ('n, 's) world \<Rightarrow> ('n, 's) world" where
  "put_view w s = s\<lparr>wd_refresher := (wd_refresher s)\<lparr>rs_db := aw_db w, rs_net := aw_net w\<rparr>, wd_s3 := aw_s3 w\<rparr>"

definition artifact_step ::
  "('n, 's) server \<Rightarrow> join_half \<Rightarrow> artifact_phase \<Rightarrow> ('n, 's) world \<Rightarrow> (artifact_phase \<times> ('n, 's) world) option"
where
  "artifact_step sv half ph s =
     map_option (\<lambda>(ph', w). (ph', put_view w s))
       (artifact_piece (sv_upstream sv) (sv_port sv) (sv_s3_client sv) (sv_bucket sv) half ph (artifact_view s))"

inductive step :: "('n, 's) server \<Rightarrow> ('n, 's) world \<Rightarrow> ('n, 's) world \<Rightarrow> bool" for sv where
  tick: "wd_status s \<noteq> Crashed \<Longrightarrow> wd_time s \<le> t \<Longrightarrow> step sv s (s\<lparr>wd_time := t\<rparr>)"
| index_request: "wd_status s \<noteq> Crashed \<Longrightarrow>
    index_start h n ty (wd_time s) (wd_db s) (wd_channel s) = (ph, db, ch) \<Longrightarrow>
    step sv s ((set_db db s)\<lparr>wd_channel := ch, wd_index := (wd_index s)(wd_next s \<mapsto> ph), wd_next := wd_next s + 1\<rparr>)"
| index_send: "wd_status s \<noteq> Crashed \<Longrightarrow> wd_index s i = Some (Sending tp t) \<Longrightarrow>
    index_send i tp t (wd_time s) (wd_channel s) = (ph, ch) \<Longrightarrow>
    step sv s (s\<lparr>wd_channel := ch, wd_index := (wd_index s)(i \<mapsto> ph)\<rparr>)"
| refresh: "wd_status s = Waiting \<Longrightarrow> refresh_step sv s = Some s' \<Longrightarrow> step sv s s'"
| cancel: "wd_status s = Waiting \<Longrightarrow> wd_refreshing s = Idle \<Longrightarrow>
    step sv s (s\<lparr>wd_status := Stopped, wd_channel := close_channel (wd_channel s),
      wd_index := drop_waiting (wd_index s)\<rparr>)"
| disconnect: "step sv s (s\<lparr>wd_index := (wd_index s)(i := None)\<rparr>)"
| credentials: "wd_status s \<noteq> Crashed \<Longrightarrow>
    routes database_helper \<lparr>credentials = wd_db s\<rparr> r = (a, st) \<Longrightarrow> step sv s (set_db (credentials st) s)"
| version_request: "wd_status s \<noteq> Crashed \<Longrightarrow>
    version_endpoint (sv_redirect_url sv) tp segment (wd_db s) = (r, db) \<Longrightarrow> step sv s (set_db db s)"
| artifact_request: "wd_status s \<noteq> Crashed \<Longrightarrow> wd_artifacts s i = None \<Longrightarrow>
    artifact_start (sv_s3_client sv) (sv_bucket sv) vid (wd_db s) = (ph, db) \<Longrightarrow>
    step sv s ((set_db db s)\<lparr>wd_artifacts := (wd_artifacts s)(i \<mapsto> ph)\<rparr>)"
| artifact_piece: "wd_status s \<noteq> Crashed \<Longrightarrow> wd_artifacts s i = Some ph \<Longrightarrow>
    artifact_step sv half ph s = Some (ph', t) \<Longrightarrow>
    step sv s (t\<lparr>wd_artifacts := (wd_artifacts s)(i \<mapsto> ph')\<rparr>)"
| artifact_disconnect: "step sv s (s\<lparr>wd_artifacts := (wd_artifacts s)(i := None)\<rparr>)"

inductive_cases stepE: "step sv s s'"

inductive reachable :: "('n, 's) server \<Rightarrow> ('n, 's) world \<Rightarrow> ('n, 's) world \<Rightarrow> bool" for sv s where
  start: "reachable sv s s"
| next_step: "reachable sv s s' \<Longrightarrow> step sv s' s'' \<Longrightarrow> reachable sv s s''"

lemma reachable_trans:
  assumes "reachable sv a b" and "reachable sv b c"
  shows "reachable sv a c"
  using assms(2,1) by (induction rule: reachable.induct) (auto intro: next_step)

section \<open>What every step keeps\<close>

text \<open>Every stored provider has a host the URL library parses: it was fetched from there.\<close>

definition hosts_known :: "'n upstream \<Rightarrow> u16 \<Rightarrow> pg \<Rightarrow> bool" where
  "hosts_known up port db \<longleftrightarrow>
     (\<forall>p \<in> set (providers db). url_parse up (discovery_url (pr_hostname p) port) \<noteq> None)"

lemma hosts_known_keys:
  "hosts_known up port db \<longleftrightarrow>
     (\<forall>(i, h, n, t) \<in> id_keys db. url_parse up (discovery_url h port) \<noteq> None)"
  by (auto simp: hosts_known_def id_keys_def provider_key_def)

text \<open>
  The database invariant: well-formed tables, every recorded artifact and every redirect given
  in the bucket, known hosts, also in requests and refreshes under way; and a request that
  panicked did so building its redirect. \<open>grows\<close> relates the database before and after a step.
\<close>

definition request_hosts :: "('n, 's) server \<Rightarrow> artifact_phase \<Rightarrow> bool" where
  "request_hosts sv ph \<longleftrightarrow>
     (\<forall>d x y. ph = Joining d x y \<longrightarrow> url_parse (sv_upstream sv) (discovery_url (ad_hostname d) (sv_port sv)) \<noteq> None) \<and>
     (ph = Answered Panic \<longrightarrow> (\<exists>a. redirect_to (sv_s3_client sv) (sv_bucket sv) a = Panic))"

definition db_inv :: "('n, 's) server \<Rightarrow> 's s3_object \<Rightarrow> ('n, 's) world \<Rightarrow> bool" where
  "db_inv sv object s \<longleftrightarrow>
     pg_wf (wd_db s) \<and>
     requests_ok (sv_s3_client sv) object (sv_bucket sv) (wd_artifacts s) (wd_db s) (wd_s3 s) \<and>
     hosts_known (sv_upstream sv) (sv_port sv) (wd_db s) \<and>
     (\<forall>i ph. wd_artifacts s i = Some ph \<longrightarrow> request_hosts sv ph) \<and>
     (\<forall>m pv. wd_refreshing s = Saving m pv \<longrightarrow>
        url_parse (sv_upstream sv) (discovery_url (tp_hostname (rq_provider m)) (sv_port sv)) \<noteq> None)"

lemma db_inv_boot:
  "db_inv sv object (boot db nt st) \<longleftrightarrow>
     pg_wf db \<and> artifacts_present object (sv_bucket sv) db st \<and> hosts_known (sv_upstream sv) (sv_port sv) db"
  by (auto simp: db_inv_def boot_def requests_ok_empty)

definition grows :: "('n, 's) world \<Rightarrow> ('n, 's) world \<Rightarrow> bool" where
  "grows s s' \<longleftrightarrow> (\<forall>tp. catalog (wd_db s) tp \<subseteq> catalog (wd_db s') tp)"

definition s3_lawful :: "('n, 's) server \<Rightarrow> 's s3_object \<Rightarrow> 's s3_pending \<Rightarrow> bool" where
  "s3_lawful sv object pending \<longleftrightarrow>
     s3_uploads (sv_s3_client sv) object pending \<and> s3_completes (sv_s3_client sv) object pending"

text \<open>A step that leaves the catalogue tables and the bucket alone.\<close>

lemma db_inv_same_tables:
  assumes "db_inv sv object s" and "pg_wf (wd_db s')" and "wd_s3 s' = wd_s3 s" and "wd_artifacts s' = wd_artifacts s"
    and "wd_refreshing s' = wd_refreshing s"
    and "providers (wd_db s') = providers (wd_db s)" and "versions (wd_db s') = versions (wd_db s)"
    and "artifact_ids (wd_db s') = artifact_ids (wd_db s)"
  shows "db_inv sv object s' \<and> grows s s'"
  using assms catalog_same_tables [of "wd_db s'" "wd_db s"]
    requests_ok_frame [of "sv_s3_client sv" object "sv_bucket sv" "wd_artifacts s" "wd_db s" "wd_s3 s" "wd_db s'" "wd_artifacts s"]
  by (simp add: db_inv_def grows_def hosts_known_def)

definition tables_of :: "pg \<Rightarrow> provider_row list \<times> version_row list \<times> int" where
  "tables_of db = (providers db, versions db, artifact_ids db)"

lemma same_tables_blind [simp]: "fault_blind (\<lambda>d. pg_wf d \<and> tables_of d = x)"
  by (simp add: fault_blind_def wf_defs tables_of_def)

text \<open>The pieces of an artifact request.\<close>

lemma artifact_start_hosts:
  assumes "hosts_known (sv_upstream sv) (sv_port sv) db"
    and "artifact_start (sv_s3_client sv) (sv_bucket sv) vid db = (ph, db')"
  shows "request_hosts sv ph"
proof -
  obtain g where g: "get_artifact_from_database vid db = (g, db')"
    using assms(2) by (auto simp: artifact_start_def split: prod.splits result.splits option.splits)
  show ?thesis
  proof (cases "\<exists>d. g = Ok (Some d)")
    case False
    with assms(2) g show ?thesis
      by (auto simp: artifact_start_def request_hosts_def split: result.splits option.splits)
  next
    case True
    then obtain d where d: "g = Ok (Some d)" ..
    from get_artifact_Some [OF g [unfolded d]] obtain p where "p \<in> set (providers db)" "ad_hostname d = pr_hostname p"
      by auto
    with assms(1) have "url_parse (sv_upstream sv) (discovery_url (ad_hostname d) (sv_port sv)) \<noteq> None"
      by (simp add: hosts_known_def)
    moreover have "ph = Joining d None None \<or> (\<exists>a. ph = Answered (redirect_to (sv_s3_client sv) (sv_bucket sv) a))"
      using assms(2) g d by (auto simp: artifact_start_def split: option.splits)
    ultimately show ?thesis unfolding request_hosts_def by fastforce
  qed
qed

lemma request_hosts_joined:
  "request_hosts sv (joined d x y) \<longleftrightarrow>
     (x = None \<or> y = None \<longrightarrow> url_parse (sv_upstream sv) (discovery_url (ad_hostname d) (sv_port sv)) \<noteq> None)"
  by (cases "(d, x, y)" rule: joined.cases) (auto simp: request_hosts_def)

lemma artifact_fetch_hosts:
  assumes "request_hosts sv (Joining d x None)"
    and "artifact_fetch (sv_upstream sv) (sv_port sv) d x db nt = (ph, db', nt')"
  shows "request_hosts sv ph"
proof -
  have host: "url_parse (sv_upstream sv) (discovery_url (ad_hostname d) (sv_port sv)) \<noteq> None"
    using assms(1) by (simp add: request_hosts_def)
  then have never: "get_upstream (sv_upstream sv) (sv_port sv) d db nt \<noteq> (Panic, p, q)" for p q
    using provider_get_Panic [of "sv_upstream sv" "sv_port sv" database_helper "json_provider (sv_upstream sv)"
        "ad_hostname d" "download_path d" db nt]
    by (auto simp: get_upstream_def split: prod.splits run.splits result.splits)
  have "(\<exists>b. ph = joined d x (Some b)) \<or> (\<exists>s. ph = Answered (Done (Err s)))"
    using assms(2) never by (auto simp: artifact_fetch_def split: prod.splits run.splits result.splits)
  with host show ?thesis by (auto simp: request_hosts_joined) (simp add: request_hosts_def)
qed

lemma artifact_piece_hosts:
  assumes "request_hosts sv ph"
    and "artifact_piece (sv_upstream sv) (sv_port sv) (sv_s3_client sv) (sv_bucket sv) half ph w = Some (ph', w')"
  shows "request_hosts sv ph'"
proof (cases ph)
  case (Joining d x y)
  show ?thesis
  proof (cases half)
    case Allocation
    with Joining assms(2) have "x = None" "ph' = failed \<or> (\<exists>i. ph' = joined d (Some i) y)"
      by (auto simp: artifact_piece_def artifact_allocate_def Let_def split: if_splits prod.splits result.splits)
    with assms(1) Joining show ?thesis by (auto simp: request_hosts_joined) (simp_all add: request_hosts_def)
  next
    case Fetch
    with Joining assms(2) obtain db nt where "y = None"
        "artifact_fetch (sv_upstream sv) (sv_port sv) d x (aw_db w) (aw_net w) = (ph', db, nt)"
      by (auto simp: artifact_piece_def split: if_splits prod.splits)
    with artifact_fetch_hosts [of sv d x] assms(1) Joining show ?thesis by simp
  qed
next
  case (Uploading a uid stream buffer parts n)
  with assms(2) show ?thesis
    by (cases stream; cases "hd stream")
      (auto simp: artifact_piece_def request_hosts_def Let_def split: prod.splits result.splits if_splits)
qed (use assms(2) in \<open>fastforce simp: artifact_piece_def artifact_create_def artifact_complete_def artifact_record_def
      request_hosts_def Let_def split: prod.splits result.splits option.splits\<close>)+


lemma artifact_step_frame:
  "artifact_step sv half ph s = Some (ph', t) \<Longrightarrow> wd_channel t = wd_channel s \<and> wd_index t = wd_index s \<and>
     wd_next t = wd_next s \<and> wd_status t = wd_status s \<and> wd_refreshing t = wd_refreshing s"
  by (auto simp: artifact_step_def put_view_def)

text \<open>Every step is a turn of the artifact requests, of another part of the server, or of none.\<close>

abbreviation requests_turn :: "('n, 's) server \<Rightarrow> ('n, 's) world \<Rightarrow> ('n, 's) world \<Rightarrow> bool" where
  "requests_turn sv s s' \<equiv>
     artifact_turn (sv_upstream sv) (sv_port sv) (sv_s3_client sv) (sv_bucket sv)
       (wd_artifacts s) (wd_db s) (wd_s3 s) (wd_artifacts s') (wd_db s') (wd_s3 s')"

lemma artifact_step_turn:
  assumes "wd_artifacts s i = Some ph" and "artifact_step sv half ph s = Some (ph', t)"
  shows "requests_turn sv s (t\<lparr>wd_artifacts := (wd_artifacts s)(i \<mapsto> ph')\<rparr>)"
proof -
  obtain w where w: "artifact_piece (sv_upstream sv) (sv_port sv) (sv_s3_client sv) (sv_bucket sv) half ph (artifact_view s) =
      Some (ph', w)" and t: "t = put_view w s"
    using assms(2) by (auto simp: artifact_step_def)
  from artifact_piece_turn [where rs = "wd_artifacts s" and i = i, OF assms(1) w] show ?thesis by (simp add: t put_view_def artifact_view_def)
qed

lemma artifact_step_inv:
  assumes laws: "s3_lawful sv object pending" and inv: "db_inv sv object s"
    and ph: "wd_artifacts s i = Some ph" and run: "artifact_step sv half ph s = Some (ph', t)"
    and s': "s' = t\<lparr>wd_artifacts := (wd_artifacts s)(i \<mapsto> ph')\<rparr>"
  shows "db_inv sv object s' \<and> grows s s'"
proof -
  have wf: "pg_wf (wd_db s)"
    and ok: "requests_ok (sv_s3_client sv) object (sv_bucket sv) (wd_artifacts s) (wd_db s) (wd_s3 s)"
    using inv by (simp_all add: db_inv_def)
  obtain w where w: "artifact_piece (sv_upstream sv) (sv_port sv) (sv_s3_client sv) (sv_bucket sv) half ph (artifact_view s) =
      Some (ph', w)" and t: "t = put_view w s"
    using run by (auto simp: artifact_step_def)
  have "pg_wf (aw_db w)" "same_rows (wd_db s) (aw_db w)"
    using artifact_piece_tables [where rs = "wd_artifacts s" and i = i, OF _ _ ph w] ok wf by (simp_all add: artifact_view_def)
  moreover have "request_hosts sv ph'"
    using artifact_piece_hosts [OF _ w] inv ph by (simp add: db_inv_def)
  moreover have "requests_ok (sv_s3_client sv) object (sv_bucket sv) (wd_artifacts s') (wd_db s') (wd_s3 s')"
    using artifact_turn_ok [OF _ _ ok wf artifact_step_turn [OF ph run], of pending] laws
    by (simp add: s3_lawful_def s')
  ultimately show ?thesis
    using inv same_rows_catalog [of "wd_db s" "aw_db w"]
    by (auto simp: db_inv_def grows_def s' t put_view_def hosts_known_def same_rows_def)
qed

text \<open>The pieces of the refresher.\<close>

lemma refresh_step_inv:
  assumes inv: "db_inv sv object s" and run: "refresh_step sv s = Some s'"
  shows "db_inv sv object s' \<and> grows s s'"
proof -
  have wf: "pg_wf (rs_db (wd_refresher s))" using inv by (simp add: db_inv_def)
  show ?thesis
  proof (cases "wd_refreshing s")
    case Idle
    with run obtain m ch where s': "s' = advance m (refresh_take (sv_interval sv) m (wd_time s) (wd_refresher s)) (s\<lparr>wd_channel := ch\<rparr>)"
      by (auto simp: refresh_step_def split: option.splits)
    obtain ph x where t: "refresh_take (sv_interval sv) m (wd_time s) (wd_refresher s) = (ph, x)" by fastforce
    with refresh_take_phase [OF t] inv show ?thesis
      by (auto simp: db_inv_def grows_def s' advance_def)
  next
    case (Fetching m)
    obtain r st where f: "refresh_fetch (sv_upstream sv) (sv_port sv) m (wd_time s) (wd_refresher s) = (r, st)"
      by fastforce
    note kept = refresh_fetch_database [OF wf f] refresh_fetch_outcome [OF f]
    have same: "wd_refresher s' = st" "wd_s3 s' = wd_s3 s" "wd_artifacts s' = wd_artifacts s"
      using run Fetching f by (auto simp: refresh_step_def advance_def split: run.splits)
    have "\<forall>q pv. wd_refreshing s' = Saving q pv \<longrightarrow> q = m \<and> r \<noteq> Panic"
      using run Fetching f kept(5) by (auto simp: refresh_step_def advance_def split: run.splits)
    then show ?thesis
      using inv kept(1,3,4) catalog_same_tables [of "rs_db st" "wd_db s"]
        requests_ok_frame [of "sv_s3_client sv" object "sv_bucket sv" "wd_artifacts s" "wd_db s" "wd_s3 s" "rs_db st" "wd_artifacts s"]
      by (auto simp: db_inv_def grows_def same catalog_part_def hosts_known_def)
  next
    case (Saving m pv)
    obtain ph x st where f: "refresh_save m pv (wd_time s) (wd_refresher s) = ((ph, x), st)"
      by (metis prod.collapse)
    note kept = refresh_save_database [OF wf f]
    have same: "wd_refresher s' = st" "wd_s3 s' = wd_s3 s" "wd_artifacts s' = wd_artifacts s" "wd_refreshing s' = Idle"
      using run Saving f refresh_save_outcome [OF f] by (auto simp: refresh_step_def advance_def)
    have "hosts_known (sv_upstream sv) (sv_port sv) (rs_db st)"
      using inv Saving kept(5) by (auto simp: db_inv_def hosts_known_keys provider_triple_def)
    then show ?thesis
      using inv kept(1-4)
        requests_ok_frame [of "sv_s3_client sv" object "sv_bucket sv" "wd_artifacts s" "wd_db s" "wd_s3 s" "rs_db st" "wd_artifacts s"]
      by (auto simp: db_inv_def grows_def same)
  qed
qed

text \<open>Requests that only read, and the credential API.\<close>

lemma index_start_tables:
  assumes "pg_wf db" and "index_start h n ty t db ch = (ph, db', ch')"
  shows "pg_wf db' \<and> tables_of db' = tables_of db"
  using list_provider_versions_keeps [of "\<lambda>d. pg_wf d \<and> tables_of d = tables_of db" db h n ty]
    index_start_db [of h n ty t db ch] assms by simp

lemma routes_tables:
  assumes "pg_wf db" and "routes database_helper \<lparr>credentials = db\<rparr> r = (a, st)"
  shows "pg_wf (Credential_Api.credentials st) \<and> tables_of (Credential_Api.credentials st) = tables_of db"
proof -
  have "catalog_part (Credential_Api.credentials st) = catalog_part db"
    using assms(2) by (rule routes_catalog_part [THEN trans]) simp
  then show ?thesis
    using pgc.routes_answer(1) [OF _ assms(2)] assms(1) by (simp add: tables_of_def catalog_part_def)
qed

lemma version_request_tables:
  assumes "pg_wf db" and "version_endpoint base tp segment db = (r, db')"
  shows "pg_wf db' \<and> tables_of db' = tables_of db"
  using version_endpoint_keeps [of "\<lambda>d. pg_wf d \<and> tables_of d = tables_of db" db base tp segment] assms by simp

lemma artifact_start_tables:
  assumes "pg_wf db" and "artifact_start cl args vid db = (ph, db')"
  shows "pg_wf db' \<and> tables_of db' = tables_of db"
proof -
  have "db' = snd (get_artifact_from_database vid db)"
    using assms(2) by (auto simp: artifact_start_def split: prod.splits result.splits option.splits)
  then show ?thesis
    using get_artifact_keeps [of "\<lambda>d. pg_wf d \<and> tables_of d = tables_of db" db vid] assms(1) by simp
qed

lemma refresh_step_tables:
  assumes wf: "pg_wf (wd_db s)" and run: "refresh_step sv s = Some s'"
  shows "wd_s3 s' = wd_s3 s \<and> wd_artifacts s' = wd_artifacts s \<and> artifact_ids (wd_db s') = artifact_ids (wd_db s) \<and>
    artifact_id_column (versions (wd_db s')) = artifact_id_column (versions (wd_db s))"
proof (cases "wd_refreshing s")
  case Idle
  with run show ?thesis by (auto simp: refresh_step_def advance_def split: option.splits)
next
  case (Fetching m)
  obtain r st where f: "refresh_fetch (sv_upstream sv) (sv_port sv) m (wd_time s) (wd_refresher s) = (r, st)"
    by fastforce
  with refresh_fetch_database(3) [OF wf f] run Fetching show ?thesis
    by (auto simp: refresh_step_def advance_def catalog_part_def split: run.splits)
next
  case (Saving m pv)
  obtain ph x st where f: "refresh_save m pv (wd_time s) (wd_refresher s) = ((ph, x), st)"
    by (metis prod.collapse)
  with refresh_save_database(3,4) [OF wf f] run Saving show ?thesis
    by (auto simp: refresh_step_def advance_def)
qed

lemma step_inv:
  assumes laws: "s3_lawful sv object pending" and inv: "db_inv sv object s" and step: "step sv s s'"
  shows "db_inv sv object s' \<and> grows s s'"
  using step
proof (cases rule: step.cases)
  have wf: "pg_wf (wd_db s)" and known: "hosts_known (sv_upstream sv) (sv_port sv) (wd_db s)"
    and ok: "requests_ok (sv_s3_client sv) object (sv_bucket sv) (wd_artifacts s) (wd_db s) (wd_s3 s)"
    using inv by (simp_all add: db_inv_def)
  {
    case (index_request h n ty ph db ch)
    with index_start_tables [OF wf index_request(3)] show ?thesis
      by (intro db_inv_same_tables [OF inv]) (simp_all add: set_db_def tables_of_def)
  next
    case refresh
    then show ?thesis using refresh_step_inv [OF inv] by blast
  next
    case (credentials r a st)
    with routes_tables [OF wf credentials(3)] show ?thesis
      by (intro db_inv_same_tables [OF inv]) (simp_all add: set_db_def tables_of_def)
  next
    case (version_request tp segment r db)
    with version_request_tables [OF wf version_request(3)] show ?thesis
      by (intro db_inv_same_tables [OF inv]) (simp_all add: set_db_def tables_of_def)
  next
    case (artifact_request i vid ph db)
    then show ?thesis
      using artifact_start_tables [OF wf artifact_request(4)] artifact_start_ok(1) [OF ok wf artifact_request(4), of i]
        artifact_start_hosts [OF known artifact_request(4)] inv catalog_same_tables [of db "wd_db s"]
      by (auto simp: db_inv_def grows_def set_db_def hosts_known_def tables_of_def)
  next
    case (artifact_piece i ph half ph' t)
    then show ?thesis using artifact_step_inv [OF laws inv] by blast
  next
    case (artifact_disconnect i)
    have "wd_artifacts s j = Some ph" if "wd_artifacts s' j = Some ph" for j ph
      using that by (simp add: artifact_disconnect split: if_splits)
    from requests_ok_frame [OF ok order_refl refl this]
    have "requests_ok (sv_s3_client sv) object (sv_bucket sv) (wd_artifacts s') (wd_db s) (wd_s3 s)" by blast
    with inv artifact_disconnect show ?thesis by (auto simp: db_inv_def grows_def)
  }
qed (use db_inv_same_tables [OF inv, of s'] inv in \<open>simp_all add: db_inv_def\<close>)

text \<open>Every step of the server is a turn for the artifact requests.\<close>

lemma step_turn:
  assumes wf: "pg_wf (wd_db s)" and step: "step sv s s'"
  shows "requests_turn sv s s'"
  using step
proof (cases rule: step.cases)
  case (index_request h n ty ph db ch)
  with index_start_tables [OF wf index_request(3)] show ?thesis
    by (simp add: set_db_def tables_of_def artifact_turn.elsewhere)
next
  case refresh
  with refresh_step_tables [OF wf refresh(2)] show ?thesis by (simp add: artifact_turn.elsewhere)
next
  case (credentials r a st)
  with routes_tables [OF wf credentials(3)] show ?thesis
    by (simp add: set_db_def tables_of_def artifact_turn.elsewhere)
next
  case (version_request tp segment r db)
  with version_request_tables [OF wf version_request(3)] show ?thesis
    by (simp add: set_db_def tables_of_def artifact_turn.elsewhere)
next
  case (artifact_request i vid ph db)
  then show ?thesis by (auto simp: set_db_def intro: artifact_turn.started)
next
  case (artifact_piece i ph half ph' t)
  with artifact_step_turn [of s i ph sv half ph' t] show ?thesis by simp
next
  case (artifact_disconnect i)
  then show ?thesis by (auto intro: artifact_turn.dropped split: if_splits)
qed (simp_all add: artifact_turn.elsewhere)

section \<open>Who waits for whom\<close>

text \<open>The messages not answered yet: the one the refresher is at, and those in the channel.\<close>

definition unanswered :: "('n, 's) world \<Rightarrow> refresh_request list" where
  "unanswered s =
     (case wd_refreshing s of Idle \<Rightarrow> [] | Fetching m \<Rightarrow> [m] | Saving m pv \<Rightarrow> [m]) @ ch_queue (wd_channel s)"

definition reply_ids :: "refresh_request list \<Rightarrow> nat list" where
  "reply_ids ms = List.map_filter rq_response_channel ms"

text \<open>A message that expects a reply belongs to a handler that waits for it, or whose client has
  left; a handler that waits has its message pending; only a live refresher has any.\<close>

definition wait_inv :: "('n, 's) world \<Rightarrow> bool" where
  "wait_inv s \<longleftrightarrow>
     length (ch_queue (wd_channel s)) \<le> channel_capacity \<and>
     (ch_open (wd_channel s) \<longleftrightarrow> wd_status s = Waiting) \<and>
     (wd_status s \<noteq> Waiting \<longrightarrow> unanswered s = []) \<and>
     distinct (reply_ids (unanswered s)) \<and>
     (\<forall>m \<in> set (unanswered s). \<forall>i. rq_response_channel m = Some i \<longrightarrow> i < wd_next s \<and>
        wd_index s i \<in> {None, Some (Awaiting (rq_provider m))}) \<and>
     (\<forall>i tp. wd_index s i = Some (Awaiting tp) \<longrightarrow> i \<in> set (reply_ids (unanswered s))) \<and>
     (\<forall>i \<ge> wd_next s. wd_index s i = None)"

lemma reply_ids_set: "i \<in> set (reply_ids ms) \<longleftrightarrow> (\<exists>m \<in> set ms. rq_response_channel m = Some i)"
  by (induction ms) (auto simp: reply_ids_def map_filter_simps split: option.split)

lemma reply_ids_simps [simp]:
  "reply_ids [] = []"
  "reply_ids (m # ms) = (case rq_response_channel m of None \<Rightarrow> [] | Some i \<Rightarrow> [i]) @ reply_ids ms"
  "reply_ids (ms @ ns) = reply_ids ms @ reply_ids ns"
  by (simp_all add: reply_ids_def map_filter_simps map_filter_def split: option.split)

lemma wait_inv_boot: "wait_inv (boot db nt st)"
  by (simp add: wait_inv_def boot_def new_channel_def unanswered_def)

text \<open>A new phase that waits for nothing, for a handler that waited for nothing, and at most one
  message that expects no reply.\<close>

lemma wait_inv_request:
  assumes inv: "wait_inv s" and ph: "\<nexists>tp. ph = Awaiting tp" and i: "i = wd_next s"
    and ch: "ch = wd_channel s \<or> ch = snd (try_send m (wd_channel s))" and m: "rq_response_channel m = None"
    and s': "wd_channel s' = ch" "wd_index s' = (wd_index s)(i \<mapsto> ph)" "wd_next s' = wd_next s + 1"
      "wd_status s' = wd_status s" "wd_refreshing s' = wd_refreshing s"
  shows "wait_inv s'"
proof -
  from ch consider "ch = wd_channel s"
    | "ch = (wd_channel s)\<lparr>ch_queue := ch_queue (wd_channel s) @ [m]\<rparr>" "ch_open (wd_channel s)"
        "length (ch_queue (wd_channel s)) < channel_capacity"
    by (auto simp: try_send_def split: if_splits)
  then show ?thesis
  proof cases
    case 1
    then have "unanswered s' = unanswered s" using s' by (simp add: unanswered_def)
    with 1 inv ph i s' show ?thesis by (auto simp: wait_inv_def)
  next
    case 2
    then have "unanswered s' = unanswered s @ [m]" using s' by (simp add: unanswered_def)
    with 2 inv ph i m s' show ?thesis by (auto simp: wait_inv_def)
  qed
qed

lemma wait_inv_send:
  assumes inv: "wait_inv s" and i: "wd_index s i = Some (Sending tp t)"
    and send: "index_send i tp t (wd_time s) (wd_channel s) = (ph, ch)"
  shows "wait_inv (s\<lparr>wd_channel := ch, wd_index := (wd_index s)(i \<mapsto> ph)\<rparr>)" (is "wait_inv ?s")
proof -
  from inv i have fresh: "i \<notin> set (reply_ids (unanswered s))" "i < wd_next s"
    by (force simp: wait_inv_def reply_ids_set) (metis inv i leI option.distinct(1) wait_inv_def)
  have same: "unanswered ?s = unanswered s" if "ch = wd_channel s"
    using that by (simp add: unanswered_def)
  from send show ?thesis
  proof (cases rule: index_send_cases)
    case sent
    then have "unanswered ?s = unanswered s @ [\<lparr>rq_provider = tp, rq_response_channel = Some i\<rparr>]"
      by (simp add: unanswered_def)
    with sent inv i fresh show ?thesis by (auto simp: wait_inv_def reply_ids_set)
  qed (use inv i same in \<open>auto simp: wait_inv_def\<close>)
qed

text \<open>An answered message, and the end of the refresher.\<close>

lemma wait_inv_delivered:
  assumes inv: "wait_inv s" and p: "unanswered s = m # unanswered s'"
    and s': "wd_index s' = deliver (reply_to m resp) (wd_index s)" "wd_next s' = wd_next s" "wd_status s' = wd_status s"
    and ch: "ch_open (wd_channel s') = ch_open (wd_channel s)"
      "length (ch_queue (wd_channel s')) \<le> length (ch_queue (wd_channel s))"
  shows "wait_inv s'"
proof (cases "rq_response_channel m")
  case None
  with inv p s' ch show ?thesis
    by (auto simp: wait_inv_def deliver_def reply_to_def)
next
  case (Some i)
  with inv p have other: "i \<notin> set (reply_ids (unanswered s'))" by (auto simp: wait_inv_def)
  have phase: "wd_index s i = None \<or> wd_index s i = Some (Awaiting (rq_provider m))"
    using inv Some p by (auto simp: wait_inv_def)
  then have index: "wd_index s' = (if wd_index s i = None then wd_index s
      else (wd_index s)(i \<mapsto> Responded (index_reply (rq_provider m) (Some resp))))"
    using s'(1) Some by (auto simp: deliver_def reply_to_def)
  have "\<forall>m' \<in> set (unanswered s'). rq_response_channel m' \<noteq> Some i" using other by (auto simp: reply_ids_set)
  with inv Some p s'(2,3) ch index phase show ?thesis
    by (auto simp: wait_inv_def)
qed

lemma wait_inv_moved:
  assumes "wait_inv s" and "unanswered s' = unanswered s" and "wd_index s' = wd_index s" and "wd_next s' = wd_next s"
    and "wd_status s' = wd_status s" and "ch_open (wd_channel s') = ch_open (wd_channel s)"
    and "length (ch_queue (wd_channel s')) \<le> length (ch_queue (wd_channel s))"
  shows "wait_inv s'"
  using assms by (auto simp: wait_inv_def)

lemma wait_inv_closed:
  assumes "wait_inv s" and "wd_channel s' = close_channel ch" and "wd_status s' \<noteq> Waiting"
    and "\<And>i tp. wd_index s' i \<noteq> Some (Awaiting tp)" and "\<And>i. wd_index s i = None \<Longrightarrow> wd_index s' i = None"
    and "wd_next s' = wd_next s" and "wd_refreshing s' = Idle"
  shows "wait_inv s'"
  using assms by (simp add: wait_inv_def close_channel_def unanswered_def)

lemma drop_no_waiting [simp]:
  "drop_waiting hs i \<noteq> Some (Awaiting tp)" "drop_pending hs i \<noteq> Some (Awaiting tp)"
  "hs i = None \<Longrightarrow> drop_waiting hs i = None" "hs i = None \<Longrightarrow> drop_pending hs i = None"
  by (auto simp: drop_waiting_def drop_pending_def split: option.split index_phase.split)

definition pieces_left :: "('n, 's) world \<Rightarrow> nat" where
  "pieces_left s = (case wd_refreshing s of Idle \<Rightarrow> 2 | Fetching m \<Rightarrow> 1 | Saving m pv \<Rightarrow> 0)"

text \<open>The outcomes of the refresher's pieces: a message that moves on, or is answered, or takes
  the server down.\<close>

lemma refresh_step_cases:
  assumes run: "refresh_step sv s = Some s'"
  obtains
    (moved) "unanswered s' = unanswered s" and "pieces_left s' < pieces_left s" and "wd_index s' = wd_index s" and "wd_status s' = wd_status s"
  | (answered) m resp where "unanswered s = m # unanswered s'" and "wd_refreshing s' = Idle"
      and "wd_index s' = deliver (reply_to m resp) (wd_index s)" and "wd_status s' = wd_status s"
  | (crashed) m where "wd_refreshing s = Fetching m" and "wd_status s' = Crashed"
      and "url_parse (sv_upstream sv) (discovery_url (tp_hostname (rq_provider m)) (sv_port sv)) = None"
      and "wd_channel s' = close_channel (wd_channel s)" and "wd_index s' = drop_pending (wd_index s)"
      and "wd_refreshing s' = Idle"
proof (cases "wd_refreshing s")
  case Idle
  with run obtain m ch where q: "recv (wd_channel s) = Some (m, ch)"
      and s': "s' = advance m (refresh_take (sv_interval sv) m (wd_time s) (wd_refresher s)) (s\<lparr>wd_channel := ch\<rparr>)"
    by (auto simp: refresh_step_def split: option.splits)
  from q have ms: "ch_queue (wd_channel s) = m # ch_queue ch" by (auto simp: recv_def split: list.splits)
  obtain ph x where t: "refresh_take (sv_interval sv) m (wd_time s) (wd_refresher s) = (ph, x)" by fastforce
  from refresh_take_phase [OF t] show ?thesis
  proof (elim disjE conjE)
    assume "ph = Fetching m" "x = None"
    with moved Idle ms t show ?thesis by (simp add: s' advance_def unanswered_def pieces_left_def)
  next
    assume "ph = Idle" "x = Some ProviderVersionNotStale"
    with answered [of m ProviderVersionNotStale] Idle ms t show ?thesis by (simp add: s' advance_def unanswered_def)
  qed
next
  case (Fetching m)
  obtain r st where f: "refresh_fetch (sv_upstream sv) (sv_port sv) m (wd_time s) (wd_refresher s) = (r, st)"
    by fastforce
  note kept = refresh_fetch_outcome [OF f]
  show ?thesis
  proof (cases r)
    case Panic
    with crashed [of m] kept(1) run Fetching f show ?thesis by (auto simp: refresh_step_def)
  next
    case (Done outcome)
    obtain ph x where o: "outcome = (ph, x)" by fastforce
    with Done run Fetching f have s': "s' = advance m (ph, x) (s\<lparr>wd_refresher := st\<rparr>)" by (simp add: refresh_step_def)
    from kept(2) [of ph x] Done o consider pv where "ph = Saving m pv" "x = None"
      | resp where "ph = Idle" "x = Some resp" by auto
    then show ?thesis
    proof cases
      case 1
      with moved Fetching show ?thesis by (simp add: s' advance_def unanswered_def pieces_left_def)
    next
      case (2 resp)
      with answered [of m resp] Fetching show ?thesis by (simp add: s' advance_def unanswered_def)
    qed
  qed
next
  case (Saving m pv)
  obtain ph x st where f: "refresh_save m pv (wd_time s) (wd_refresher s) = ((ph, x), st)"
    by (metis prod.collapse)
  from refresh_save_outcome [OF f] obtain resp where "ph = Idle" "x = Some resp" by blast
  with answered [of m resp] run Saving f show ?thesis by (auto simp: refresh_step_def advance_def unanswered_def)
qed

lemma refresh_step_frame:
  assumes "refresh_step sv s = Some s'" and "wd_status s' = wd_status s" and "wd_status s \<noteq> Crashed"
  shows "wd_next s' = wd_next s" and "ch_open (wd_channel s') = ch_open (wd_channel s)"
    and "length (ch_queue (wd_channel s')) \<le> length (ch_queue (wd_channel s))"
  using assms
  by (auto simp: refresh_step_def advance_def recv_def Let_def split: refresh_phase.splits option.splits list.splits
      prod.splits run.splits)

lemma step_wait_inv:
  assumes inv: "wait_inv s" and step: "step sv s s'"
  shows "wait_inv s'"
  using step
proof (cases rule: step.cases)
  case (index_request h n ty ph db ch)
  let ?m = "\<lparr>rq_provider = \<lparr>tp_hostname = h, tp_namespace = n, tp_type = ty\<rparr>, rq_response_channel = None\<rparr>"
  have "(\<nexists>tp. ph = Awaiting tp) \<and> (ch = wd_channel s \<or> ch = snd (try_send ?m (wd_channel s)))"
    using index_request(3) by (cases rule: index_start_cases) auto
  with index_request(1) show ?thesis
    by (intro wait_inv_request [OF inv, where m = ?m and ch = ch and ph = ph]) (auto simp: set_db_def)
next
  case (index_send i tp t ph ch)
  with wait_inv_send [OF inv] show ?thesis by simp
next
  case refresh
  note frame = refresh_step_frame [OF refresh(2)]
  from refresh(2) show ?thesis
  proof (cases rule: refresh_step_cases)
    case moved
    with frame refresh(1) show ?thesis by (intro wait_inv_moved [OF inv]) simp_all
  next
    case (answered m resp)
    with frame refresh(1) show ?thesis by (intro wait_inv_delivered [OF inv]) simp_all
  next
    case (crashed m)
    moreover have "wd_next s' = wd_next s"
      using refresh(2) crashed(1,2) by (auto simp: refresh_step_def advance_def split: run.splits prod.splits)
    ultimately show ?thesis by (intro wait_inv_closed [OF inv, where ch = "wd_channel s"]) simp_all
  qed
next
  case cancel
  then show ?thesis by (intro wait_inv_closed [OF inv, where ch = "wd_channel s"]) auto
next
  case (artifact_piece i ph half ph' t)
  with artifact_step_frame [OF artifact_piece(4)] show ?thesis by (intro wait_inv_moved [OF inv]) (simp_all add: unanswered_def)
qed (use inv in \<open>auto simp: wait_inv_def set_db_def unanswered_def\<close>)

section \<open>Properties of reachable states\<close>

lemma reachable_wait_inv: "reachable sv s s' \<Longrightarrow> wait_inv s \<Longrightarrow> wait_inv s'"
  by (induction rule: reachable.induct) (auto intro: step_wait_inv)

lemma reachable_db_inv:
  assumes "reachable sv s s'" and "s3_lawful sv object pending" and "db_inv sv object s"
  shows "db_inv sv object s' \<and> grows s s'"
  using assms
proof (induction rule: reachable.induct)
  case start
  then show ?case by (simp add: grows_def)
next
  case (next_step s' s'')
  then have "db_inv sv object s'" "grows s s'" by simp_all
  with step_inv [OF next_step.prems(1) _ next_step.hyps(2)] show ?case
    by (auto simp: grows_def)
qed

text \<open>The refresher's pieces for the next message, when its host parses.\<close>

lemma refresh_step_enabled:
  "unanswered s \<noteq> [] \<Longrightarrow> \<exists>s'. refresh_step sv s = Some s'"
  by (auto simp: unanswered_def refresh_step_def recv_def split: refresh_phase.splits list.splits prod.split)

lemma refresh_turn:
  assumes "wd_status s = Waiting" and "unanswered s = m # ms"
    and "url_parse (sv_upstream sv) (discovery_url (tp_hostname (rq_provider m)) (sv_port sv)) \<noteq> None"
  shows "\<exists>s' resp. reachable sv s s' \<and> wd_status s' = Waiting \<and> unanswered s' = ms \<and>
    wd_index s' = deliver (reply_to m resp) (wd_index s)"
  using assms(1,2)
proof (induction "pieces_left s" arbitrary: s rule: less_induct)
  case less
  obtain s1 where s1: "refresh_step sv s = Some s1" using refresh_step_enabled [of s sv] less.prems(2) by auto
  with less.prems(1) have step: "step sv s s1" by (rule step.refresh)
  from s1 show ?case
  proof (cases rule: refresh_step_cases)
    case moved
    with less.hyps [of s1] less.prems obtain s' resp where "reachable sv s1 s'" "wd_status s' = Waiting"
        "unanswered s' = ms" "wd_index s' = deliver (reply_to m resp) (wd_index s)" by auto
    with reachable_trans [OF next_step [OF start step]] show ?thesis by blast
  next
    case (answered q resp)
    with less.prems next_step [OF start step] show ?thesis
      by (intro exI [of _ s1] exI [of _ resp]) simp
  next
    case (crashed q)
    with less.prems(2) assms(3) show ?thesis by (simp add: unanswered_def)
  qed
qed

lemma deliver_responded:
  "hs i = Some (Awaiting tp) \<Longrightarrow> deliver r hs i = Some (Awaiting tp) \<or> (\<exists>x. deliver r hs i = Some (Responded x))"
  "hs i = Some (Responded y) \<Longrightarrow> deliver r hs i = Some (Responded y)"
  by (auto simp: deliver_def split: option.split index_phase.split)

lemma drain:
  assumes "wd_status s = Waiting"
    and "\<forall>m \<in> set (unanswered s).
      url_parse (sv_upstream sv) (discovery_url (tp_hostname (rq_provider m)) (sv_port sv)) \<noteq> None"
  shows "\<exists>s'. reachable sv s s' \<and> unanswered s' = [] \<and>
    (\<forall>i tp. wd_index s i = Some (Awaiting tp) \<longrightarrow> wd_index s' i = Some (Awaiting tp) \<or> (\<exists>x. wd_index s' i = Some (Responded x)))  \<and>
    (\<forall>i y. wd_index s i = Some (Responded y) \<longrightarrow> wd_index s' i = Some (Responded y))"
  using assms
proof (induction "unanswered s" arbitrary: s)
  case Nil
  then show ?case by (intro exI [of _ s]) (simp add: reachable.start)
next
  case (Cons m ms)
  have "url_parse (sv_upstream sv) (discovery_url (tp_hostname (rq_provider m)) (sv_port sv)) \<noteq> None"
    using Cons.prems(2) Cons.hyps(2) by (metis list.set_intros(1))
  from refresh_turn [OF Cons.prems(1) Cons.hyps(2) [symmetric] this] obtain s1 resp where
      turn: "reachable sv s s1" "wd_status s1 = Waiting" "unanswered s1 = ms"
        "wd_index s1 = deliver (reply_to m resp) (wd_index s)" by blast
  have "\<forall>m \<in> set (unanswered s1).
      url_parse (sv_upstream sv) (discovery_url (tp_hostname (rq_provider m)) (sv_port sv)) \<noteq> None"
    using Cons.prems(2) Cons.hyps(2) turn(3) by (metis list.set_intros(2))
  from Cons.hyps(1) [OF turn(3) [symmetric] turn(2) this] obtain s' where s': "reachable sv s1 s'" "unanswered s' = []"
      "\<And>i tp. wd_index s1 i = Some (Awaiting tp) \<Longrightarrow> wd_index s' i = Some (Awaiting tp) \<or> (\<exists>x. wd_index s' i = Some (Responded x))"
      "\<And>i y. wd_index s1 i = Some (Responded y) \<Longrightarrow> wd_index s' i = Some (Responded y)"
    by metis
  with reachable_trans [OF turn(1) s'(1)] turn(4) deliver_responded [of "wd_index s" _ _ "reply_to m resp"] show ?case
    by (intro exI [of _ s']) metis
qed

text \<open>
  C18: no handler is forgotten. In every reachable state the channel holds at most 10000
  messages, and a handler that waits for the refresher has its message in the channel or in the
  hands of a refresher that is alive; once the refresher has stopped, nobody waits for it.
\<close>

theorem no_lost_waiter:
  assumes "reachable sv (boot db nt st) s"
  shows "length (ch_queue (wd_channel s)) \<le> channel_capacity \<and>
    (\<forall>i tp. wd_index s i = Some (Awaiting tp) \<longrightarrow> wd_status s = Waiting \<and>
       (\<exists>m \<in> set (unanswered s). rq_response_channel m = Some i \<and> rq_provider m = tp))"
proof -
  have inv: "wait_inv s" using reachable_wait_inv [OF assms wait_inv_boot] .
  have "wd_status s = Waiting \<and> (\<exists>m \<in> set (unanswered s). rq_response_channel m = Some i \<and> rq_provider m = tp)"
    if waits: "wd_index s i = Some (Awaiting tp)" for i tp
  proof -
    from inv waits have "i \<in> set (reply_ids (unanswered s))" by (simp add: wait_inv_def)
    then obtain m where m: "m \<in> set (unanswered s)" "rq_response_channel m = Some i"
      by (auto simp: reply_ids_set)
    with inv waits have "rq_provider m = tp" by (force simp: wait_inv_def)
    moreover have "wd_status s = Waiting" using inv m by (auto simp: wait_inv_def)
    ultimately show ?thesis using m by blast
  qed
  with inv show ?thesis by (simp add: wait_inv_def)
qed

text \<open>
  C30: an artifact request never panics on its way to the archive. The host it asks is one of the
  catalogue, which the URL library parses, so the \<^verbatim>\<open>expect\<close> of the discovery cannot
  fire; the one panic left is that of a presigned link that is not a header value.
\<close>

theorem artifact_requests_panic_only_at_redirect:
  assumes "s3_lawful sv object pending" and "db_inv sv object (boot db nt st)"
    and "reachable sv (boot db nt st) s" and "wd_artifacts s i = Some (Answered Panic)"
  shows "\<exists>a uri. presign_request (sv_s3_client sv) (s3_bucket_name (sv_bucket sv)) (s3_bucket_prefix (sv_bucket sv)) a = Ok uri \<and>
    \<not> header_value_ok uri"
proof -
  have "db_inv sv object s" using reachable_db_inv [OF assms(3,1,2)] by simp
  with assms(4) have "request_hosts sv (Answered Panic)" by (simp add: db_inv_def)
  then obtain a where "redirect_to (sv_s3_client sv) (sv_bucket sv) a = Panic" by (auto simp: request_hosts_def)
  then show ?thesis
    by (auto simp: redirect_to_def artifact_response_def split: result.splits run.splits if_splits)
qed


text \<open>
  The only step that takes the server down is the refresher fetching for a message whose
  host the URL library rejects; no stored provider has such a host, so only a request for a
  provider the mirror does not know can do it.
\<close>

theorem crash_only_by_bad_host:
  assumes "db_inv sv object s" and "step sv s s'" and "wd_status s \<noteq> Crashed" and "wd_status s' = Crashed"
  shows "\<exists>m. wd_refreshing s = Fetching m \<and> catalog (wd_db s) (rq_provider m) = {} \<and>
    url_parse (sv_upstream sv) (discovery_url (tp_hostname (rq_provider m)) (sv_port sv)) = None"
  using assms(2)
proof (cases rule: step.cases)
  case refresh
  from refresh(2) obtain m where m: "wd_refreshing s = Fetching m"
      "url_parse (sv_upstream sv) (discovery_url (tp_hostname (rq_provider m)) (sv_port sv)) = None"
    using assms(3,4) by (cases rule: refresh_step_cases) auto
  with assms(1) have "catalog (wd_db s) (rq_provider m) = {}"
    by (auto simp: db_inv_def catalog_def hosts_known_keys provider_triple_def)
  with m show ?thesis by blast
next
  case (artifact_piece i ph half ph' t)
  with artifact_step_frame [OF artifact_piece(4)] assms(3,4) show ?thesis by simp
qed (use assms(3,4) in \<open>auto simp: set_db_def\<close>)

lemma bad_host_crashes:
  assumes "wd_status s = Waiting" and "wd_refreshing s = Fetching m"
    and "url_parse (sv_upstream sv) (discovery_url (tp_hostname (rq_provider m)) (sv_port sv)) = None"
  shows "\<exists>s'. step sv s s' \<and> wd_status s' = Crashed \<and> wd_index s' = drop_pending (wd_index s)"
proof -
  obtain r st where f: "refresh_fetch (sv_upstream sv) (sv_port sv) m (wd_time s) (wd_refresher s) = (r, st)"
    by fastforce
  then have "r = Panic" using refresh_fetch_outcome(1) [OF f] assms(3) by simp
  with f assms(2) have "\<exists>s'. refresh_step sv s = Some s' \<and> wd_status s' = Crashed \<and> wd_index s' = drop_pending (wd_index s)"
    by (simp add: refresh_step_def)
  with step.refresh [OF assms(1)] show ?thesis by blast
qed

text \<open>
  One unauthenticated index request can do it. For a provider without stored rows whose
  host the URL library rejects, the request's own steps and the refresher's turn to its message
  lead to a crash, in which every other pending index request is lost too.
\<close>

theorem bad_host_takes_server_down:
  assumes "wd_status s = Waiting" and "wd_channel s = new_channel" and "wd_refreshing s = Idle"
    and "tp = \<lparr>tp_hostname = h, tp_namespace = n, tp_type = ty\<rparr>"
    and "fst (list_provider_versions h n ty (wd_db s)) = Ok None"
    and "last_refresh (wd_refresher s) tp = None"
    and "url_parse (sv_upstream sv) (discovery_url h (sv_port sv)) = None"
  shows "\<exists>s'. reachable sv s s' \<and> wd_status s' = Crashed \<and>
    (\<forall>i ph. wd_index s' i = Some ph \<longrightarrow> (\<exists>r. ph = Responded r))"
proof -
  let ?m = "\<lparr>rq_provider = tp, rq_response_channel = Some (wd_next s)\<rparr>"
  obtain db where db: "list_provider_versions h n ty (wd_db s) = (Ok None, db)"
    using assms(5) by (metis prod.collapse)
  define s1 where "s1 = (set_db db s)\<lparr>wd_channel := new_channel,
    wd_index := (wd_index s)(wd_next s \<mapsto> Sending tp (wd_time s)), wd_next := wd_next s + 1\<rparr>"
  define s2 where "s2 = s1\<lparr>wd_channel := new_channel\<lparr>ch_queue := [?m]\<rparr>,
    wd_index := (wd_index s1)(wd_next s \<mapsto> Awaiting tp)\<rparr>"
  define s3 where "s3 = s2\<lparr>wd_channel := new_channel, wd_refreshing := Fetching ?m\<rparr>"
  have "step sv s s1"
    unfolding s1_def using assms(1-4) db by (intro step.index_request [where h = h and n = n and ty = ty]) (simp_all add: index_start_def Let_def)
  moreover have "step sv s1 s2"
    unfolding s2_def using assms(1) by (intro step.index_send [where tp = tp and t = "wd_time s"])
      (simp_all add: s1_def set_db_def index_send_def try_send_def new_channel_def channel_capacity_def)
  moreover have "step sv s2 s3"
  proof (rule step.refresh)
    show "wd_status s2 = Waiting" using assms(1) by (simp add: s2_def s1_def set_db_def)
    show "refresh_step sv s2 = Some s3"
      using assms(3,6) by (simp add: s3_def s2_def s1_def set_db_def refresh_step_def recv_def new_channel_def
          refresh_take_def advance_def)
  qed
  ultimately have "reachable sv s s3" by (meson next_step start)
  moreover obtain s4 where s4: "step sv s3 s4" "wd_status s4 = Crashed" "wd_index s4 = drop_pending (wd_index s3)"
    using bad_host_crashes [of s3 ?m sv] assms(1,4,7) by (auto simp: s3_def s2_def s1_def set_db_def)
  ultimately have "reachable sv s s4" by (meson next_step)
  with s4 show ?thesis
    by (intro exI [of _ s4]) (auto simp: drop_pending_def split: option.splits index_phase.splits)
qed

end
