(* ===== verification/Lifecycle.thy ===== *)
theory Lifecycle
  imports Config Router Mirror_System
begin

text \<open>
  \<^verbatim>\<open>src/lib.rs\<close>, \<^verbatim>\<open>src/main.rs\<close>, \<^verbatim>\<open>src/migrate.rs\<close> and
  \<^verbatim>\<open>src/healthy.rs\<close>: the accept loop with its shutdown, the three commands and the
  exit code of the process. What the operating system and the libraries answer is the record
  \<open>platform\<close>.
\<close>

section \<open>Serving connections\<close>

text \<open>
  \<open>Accepted c\<close> and \<open>Accept_failed\<close> are results of \<^verbatim>\<open>listener.accept()\<close>, \<open>Closed_conn c\<close>
  the end of the task of connection \<open>c\<close>, \<open>Cancel\<close> the token. \<open>running\<close> and \<open>finished\<close> are the
  join set: tasks that run, and tasks that ended and were not joined.
\<close>

datatype serve_event = Accepted nat | Accept_failed | Closed_conn nat | Cancel

datatype serve_phase = Accepting | Draining | Ended

record serve_state =
  phase :: serve_phase
  running :: "nat list"
  finished :: "nat list"

definition serve_init :: serve_state where
  "serve_init = \<lparr>phase = Accepting, running = [], finished = []\<rparr>"

text \<open>\<^verbatim>\<open>while join_set.try_join_next().is_some() {}\<close>, and the final
  \<^verbatim>\<open>join_next\<close> loop, which ends once nothing runs.\<close>

definition reap :: "serve_state \<Rightarrow> serve_state" where
  "reap s = s\<lparr>finished := []\<rparr>"

definition join_all :: "serve_state \<Rightarrow> serve_state" where
  "join_all s = (let s = reap s in if running s = [] then s\<lparr>phase := Ended\<rparr> else s)"

fun serve_event_step :: "serve_event \<Rightarrow> serve_state \<Rightarrow> serve_state" where
  "serve_event_step (Accepted c) s =
     (if phase s = Accepting then reap (s\<lparr>running := running s @ [c]\<rparr>) else s)"
| "serve_event_step Accept_failed s = s"
| "serve_event_step (Closed_conn c) s =
     (if c \<in> set (running s)
      then (let s = s\<lparr>running := remove1 c (running s), finished := finished s @ [c]\<rparr>
            in if phase s = Draining then join_all s else s)
      else s)"
| "serve_event_step Cancel s =
     (if phase s = Accepting then join_all (s\<lparr>phase := Draining\<rparr>) else s)"

definition serve :: "serve_event list \<Rightarrow> serve_state" where
  "serve es = fold serve_event_step es serve_init"

section \<open>Commands\<close>

text \<open>What the clients of the server are made with; times are seconds.\<close>

record http_settings =
  hs_connect_timeout :: nat
  hs_timeout :: nat
  hs_root_certificates :: "string list"
  hs_proxy :: "(string \<times> string option) option"

record pool_settings =
  ps_max_connections :: "32 word"
  ps_acquire_timeout :: nat
  ps_database :: string

record s3_settings =
  ss_force_path_style :: bool
  ss_endpoint :: "string option"

record platform =
  pf_recorder_installs :: bool
  pf_signals_register :: bool
  pf_native_certs :: "string list"
  pf_cert_parses :: "string \<Rightarrow> bool"
  pf_db_connects :: "string \<Rightarrow> bool"
  pf_proxy_parses :: "string \<Rightarrow> bool"
  pf_http_builds :: "http_settings \<Rightarrow> bool"
  pf_binds :: "string \<Rightarrow> bool"
  pf_local_addr :: bool
  pf_startup_listens :: bool
  pf_migrates :: bool
  pf_get :: "string \<Rightarrow> (http_response, reqwest_error) result"

text \<open>\<^verbatim>\<open>setup_server\<close>: S3 client, pool, certificates, proxy, HTTP client, in this order.
  Certificates that do not load are only logged; one that loads and that the client rejects is a
  panic.\<close>

definition setup_server ::
  "platform \<Rightarrow> server_args \<Rightarrow> (http_settings \<times> pool_settings \<times> s3_settings, unit) result run"
where
  "setup_server pf config =
     (let s3 = \<lparr>ss_force_path_style = True, ss_endpoint = s3_endpoint config\<rparr>;
          pool = \<lparr>ps_max_connections = database_pool config, ps_acquire_timeout = 10,
            ps_database = database_url config\<rparr>;
          http = \<lparr>hs_connect_timeout = 10, hs_timeout = 60, hs_root_certificates = pf_native_certs pf, hs_proxy = None\<rparr>
      in if \<not> pf_db_connects pf (database_url config) then Done (Err ())
         else if \<not> list_all (pf_cert_parses pf) (pf_native_certs pf) then Panic
         else (case (case http_proxy config of
                       None \<Rightarrow> Ok http
                     | Some proxy \<Rightarrow>
                         if pf_proxy_parses pf proxy then Ok (http\<lparr>hs_proxy := Some (proxy, no_proxy config)\<rparr>)
                         else Err ()) of
                 Err _ \<Rightarrow> Done (Err ())
               | Ok http \<Rightarrow> if pf_http_builds pf http then Done (Ok (http, pool, s3)) else Done (Err ())))"

text \<open>\<^verbatim>\<open>AppState::new\<close> and the registry client and refresher of \<^verbatim>\<open>run_server\<close>:
  what the tasks of a server are given of its configuration. The upstream and the bucket's
  client are the clients that \<^verbatim>\<open>setup_server\<close> made.\<close>

definition app_state_new :: "'n upstream \<Rightarrow> 's s3_client \<Rightarrow> server_args \<Rightarrow> ('n, 's) server" where
  "app_state_new up cl config =
     \<lparr>sv_upstream = up, sv_port = upstream_registry_port config, sv_interval = refresh_interval config,
      sv_s3_client = cl, sv_bucket = sa_bucket config, sv_redirect_url = http_redirect_url config\<rparr>"

text \<open>\<^verbatim>\<open>run_server\<close>, which unwraps the setup, the bind and the notification;
  \<open>tasks\<close> is how \<^verbatim>\<open>join!(server, refresher)\<close> ends.\<close>

definition run_server :: "platform \<Rightarrow> unit run \<Rightarrow> server_args \<Rightarrow> (unit, unit) result run" where
  "run_server pf tasks config =
     (case setup_server pf config of
        Panic \<Rightarrow> Panic
      | Done (Err _) \<Rightarrow> Panic
      | Done (Ok _) \<Rightarrow>
          if \<not> pf_binds pf (http_listen config) then Panic
          else if \<not> pf_local_addr pf then Panic
          else if \<not> pf_startup_listens pf then Panic
          else (case tasks of Panic \<Rightarrow> Panic | Done _ \<Rightarrow> Done (Ok ())))"

definition run_migrate :: "platform \<Rightarrow> migrate_args \<Rightarrow> (unit, unit) result" where
  "run_migrate pf config =
     (if \<not> pf_db_connects pf (ma_database_url config) then Err ()
      else if pf_migrates pf then Ok () else Err ())"

definition healthcheck_url :: "string \<Rightarrow> string" where
  "healthcheck_url listen = ''http://'' @ listen @ ''/healthcheck''"

definition run_healthy :: "platform \<Rightarrow> is_healthy_args \<Rightarrow> (unit, unit) result" where
  "run_healthy pf config =
     (case pf_get pf (healthcheck_url (ha_http_listen config)) of
        Err e \<Rightarrow> Err ()
      | Ok response \<Rightarrow> (case error_for_status response of Err e \<Rightarrow> Err () | Ok _ \<Rightarrow> Ok ()))"

fun run_command :: "platform \<Rightarrow> unit run \<Rightarrow> args \<Rightarrow> (unit, unit) result run" where
  "run_command pf tasks (Server config) = run_server pf tasks config"
| "run_command pf tasks (Migrate config) = Done (run_migrate pf config)"
| "run_command pf tasks (IsHealthy config) = Done (run_healthy pf config)"

text \<open>\<^verbatim>\<open>main\<close>: the result of the spawned task is unwrapped, so its panic is the
  process's, with Rust's exit code 101.\<close>

fun exit_code :: "(unit, unit) result run \<Rightarrow> nat" where
  "exit_code (Done (Ok _)) = 0"
| "exit_code (Done (Err _)) = 1"
| "exit_code Panic = 101"

section \<open>Draining\<close>

text \<open>Outside of the end, the join set holds exactly the connections accepted before the
  cancellation and not yet closed.\<close>

fun accepted :: "serve_event list \<Rightarrow> nat list" where
  "accepted [] = []"
| "accepted (Accepted c # es) = c # accepted es"
| "accepted (Cancel # es) = []"
| "accepted (_ # es) = accepted es"

lemma accepted_append:
  "accepted (es @ fs) = (if Cancel \<in> set es then accepted es else accepted es @ accepted fs)"
  by (induction es rule: accepted.induct) auto

lemma serve_snoc: "serve (es @ [e]) = serve_event_step e (serve es)"
  by (simp add: serve_def)

lemma serve_phase:
  "(phase (serve es) = Accepting \<longleftrightarrow> Cancel \<notin> set es) \<and> (phase (serve es) = Ended \<longrightarrow> running (serve es) = []) \<and>
   (phase (serve es) = Draining \<longrightarrow> running (serve es) \<noteq> [])"
proof (induction es rule: rev_induct)
  case Nil
  then show ?case by (simp add: serve_def serve_init_def)
next
  case (snoc e es)
  then show ?case
    by (cases e; cases "phase (serve es)")
      (auto simp: serve_snoc reap_def join_all_def Let_def)
qed

definition fresh_connections :: "serve_event list \<Rightarrow> bool" where
  "fresh_connections es \<longleftrightarrow> distinct (accepted es) \<and>
     (\<forall>pre post c. es = pre @ Accepted c # post \<longrightarrow> Closed_conn c \<notin> set pre)"

lemma fresh_connections_snoc:
  assumes "fresh_connections (es @ [e])"
  shows "fresh_connections es" and "e = Accepted c \<Longrightarrow> Closed_conn c \<notin> set es"
    and "e = Accepted c \<Longrightarrow> Cancel \<notin> set es \<Longrightarrow> c \<notin> set (accepted es)"
proof -
  have "Closed_conn c \<notin> set pre" if "es = pre @ Accepted c # post" for pre post c
    using assms that by (auto simp: fresh_connections_def)
  then show "fresh_connections es"
    using assms by (auto simp: fresh_connections_def accepted_append split: if_splits)
  show "e = Accepted c \<Longrightarrow> Closed_conn c \<notin> set es"
    using assms by (auto simp: fresh_connections_def)
  show "e = Accepted c \<Longrightarrow> Cancel \<notin> set es \<Longrightarrow> c \<notin> set (accepted es)"
    using assms by (auto simp: fresh_connections_def accepted_append)
qed

lemma serve_running:
  assumes "fresh_connections es"
  shows "distinct (running (serve es)) \<and>
    set (running (serve es)) = {c \<in> set (accepted es). Closed_conn c \<notin> set es}"
  using assms
proof (induction es rule: rev_induct)
  case Nil
  then show ?case by (simp add: serve_def serve_init_def)
next
  case (snoc e es)
  note fresh = fresh_connections_snoc [OF snoc.prems]
  note IH = snoc.IH [OF fresh(1)]
  show ?case
  proof (cases e)
    case (Accepted c)
    with IH fresh(2,3) [OF Accepted] serve_phase [of es] show ?thesis
      by (cases "Cancel \<in> set es") (auto simp: serve_snoc reap_def accepted_append)
  next
    case Accept_failed
    with IH show ?thesis by (auto simp: serve_snoc accepted_append)
  next
    case (Closed_conn c)
    then have "running (serve (es @ [e])) = remove1 c (running (serve es))"
      by (auto simp: serve_snoc join_all_def reap_def Let_def remove1_idem)
    with IH Closed_conn show ?thesis by (auto simp: accepted_append)
  next
    case Cancel
    with IH show ?thesis
      by (auto simp: serve_snoc accepted_append join_all_def reap_def Let_def)
  qed
qed

section \<open>Properties\<close>

text \<open>
  C35: shutdown drains. The accept loop ends exactly when it has been cancelled and every
  connection accepted before that has closed; a failed accept never ends it, and an idle
  connection that stays open keeps it from ending.
\<close>

theorem serve_drains:
  assumes "fresh_connections es"
  shows "phase (serve es) = Ended \<longleftrightarrow>
    Cancel \<in> set es \<and> (\<forall>c \<in> set (accepted es). Closed_conn c \<in> set es)"
proof -
  have "running (serve es) = [] \<longleftrightarrow> (\<forall>c \<in> set (accepted es). Closed_conn c \<in> set es)"
    using serve_running [OF assms] by (auto simp flip: set_empty)
  then show ?thesis
    using serve_phase [of es] by (cases "phase (serve es)") auto
qed

text \<open>
  Exit codes. The server command exits with 0 when it has been shut down and otherwise with
  101, the code of a panic: the error its setup returns is unwrapped, so the code 1 that main
  has for errors is only ever the one of the migration and the health check, which exit with 0
  exactly when they succeed.
\<close>

theorem exit_codes:
  "exit_code (run_command pf tasks (Server config)) =
     (if (\<exists>clients. setup_server pf config = Done (Ok clients)) \<and> pf_binds pf (http_listen config) \<and> pf_local_addr pf \<and>
         pf_startup_listens pf \<and> tasks = Done () then 0 else 101) \<and>
   exit_code (run_command pf tasks (Migrate margs)) =
     (if pf_db_connects pf (ma_database_url margs) \<and> pf_migrates pf then 0 else 1) \<and>
   exit_code (run_command pf tasks (IsHealthy hargs)) \<in> {0, 1}"
  by (auto simp: run_server_def run_migrate_def run_healthy_def split: run.split result.split)

text \<open>
  The health check command agrees with the server it asks: it requests a path the router
  gives to the health check handler, and succeeds on that handler's answer.
\<close>

theorem healthy_server_is_healthy:
  assumes "pf_get pf (healthcheck_url (ha_http_listen hargs)) =
    Ok \<lparr>resp_status = status_number healthcheck_handler, resp_body = body\<rparr>"
  shows "exit_code (run_command pf tasks (IsHealthy hargs)) = 0 \<and>
    (\<exists>path. healthcheck_url (ha_http_listen hargs) = ''http://'' @ ha_http_listen hargs @ path \<and>
       provider_mirror_app decode GET path = Handled Healthcheck_route)"
proof -
  have "provider_mirror_app decode GET ''/healthcheck'' = Handled Healthcheck_route"
    by (simp add: provider_mirror_app_def route_path_def Let_def)
  with assms show ?thesis
    by (simp add: run_healthy_def error_for_status_def healthcheck_handler_def healthcheck_url_def)
qed

text \<open>
  What a server runs with was validated: its redirect URL comes from the flag or else the
  environment, the URL library took it as one that can be a base, and its text ends in a slash;
  its bucket was named by the flag or else the environment; and without a flag or a variable it
  refreshes after the default interval and asks registries on port 443.
\<close>

theorem parsed_configuration:
  assumes "parse_args ps Server_command call = Ok (Server config)" and "sv = app_state_new up cl config"
  shows "\<exists>url_text. (flags call ''http-redirect-url'' = Some url_text \<or>
      flags call ''http-redirect-url'' = None \<and> environment call ''TERRASHINE_HTTP_REDIRECT_URL'' = Some url_text) \<and>
    parse_url ps url_text = Some (sv_redirect_url sv) \<and> \<not> cannot_be_a_base ps (sv_redirect_url sv) \<and>
    ends_with url_text ''/'' \<and>
    (flags call ''s3-bucket-name'' = Some (s3_bucket_name (sv_bucket sv)) \<or>
     flags call ''s3-bucket-name'' = None \<and> environment call ''TERRASHINE_S3_BUCKET_NAME'' = Some (s3_bucket_name (sv_bucket sv))) \<and>
    (flags call ''refresh-interval'' = None \<and> environment call ''TERRASHINE_REFRESH_INTERVAL'' = None \<longrightarrow>
       parse_duration ps ''3600s'' = Some (sv_interval sv)) \<and>
    (flags call ''upstream-registry-port'' = None \<and> environment call ''TERRASHINE_UPSTREAM_REGISTRY_PORT'' = None \<longrightarrow>
       parse_u16 ps ''443'' = Some (sv_port sv))"
proof -
  from assms(1) have "parse_server_args ps call = Ok config" by (auto simp: parse_args_def)
  then obtain url_text interval_text port_text where
      "arg_text call ''http-redirect-url'' ''TERRASHINE_HTTP_REDIRECT_URL'' None = Some url_text"
      "validate_redirect_url ps url_text = Ok (http_redirect_url config)"
      "arg_text call ''s3-bucket-name'' ''TERRASHINE_S3_BUCKET_NAME'' None = Some (s3_bucket_name (sa_bucket config))"
      "arg_text call ''refresh-interval'' ''TERRASHINE_REFRESH_INTERVAL'' (Some ''3600s'') = Some interval_text"
      "parse_humantime ps interval_text = Ok (refresh_interval config)"
      "arg_text call ''upstream-registry-port'' ''TERRASHINE_UPSTREAM_REGISTRY_PORT'' (Some ''443'') = Some port_text"
      "value_of (parse_u16 ps) port_text = Ok (upstream_registry_port config)"
    unfolding parse_server_args_def by auto
  then show ?thesis
    unfolding assms(2) app_state_new_def
    by (intro exI [of _ url_text])
      (auto simp: arg_text_cases validate_redirect_url_Ok parse_humantime_def value_of_def split: option.splits)
qed

end
