(* ===== verification/Artifact_Content.thy ===== *)
theory Artifact_Content
  imports Artifact_Safety
begin

text \<open>
  What an upload leaves in the bucket when others run beside it: exactly the bytes that were
  fetched. Beyond the laws of \<open>Uploads\<close> this needs that S3 keeps the multipart uploads apart.
\<close>

section \<open>Uploads apart\<close>

text \<open>
  \<open>live\<close> are the upload ids S3 has given so far. A new upload gets one that was not given
  before, and a call for one upload leaves the parts of the others alone.
\<close>

type_synonym 's s3_live = "'s \<Rightarrow> string set"

definition apart :: "'s s3_pending \<Rightarrow> 's s3_live \<Rightarrow> string option \<Rightarrow> 's \<Rightarrow> 's \<Rightarrow> bool" where
  "apart pending live mine s s' \<longleftrightarrow>
     live s \<subseteq> live s' \<and> (\<forall>uid \<in> live s. mine \<noteq> Some uid \<longrightarrow> pending s' uid = pending s uid)"

definition s3_apart :: "'s s3_client \<Rightarrow> 's s3_pending \<Rightarrow> 's s3_live \<Rightarrow> bool" where
  "s3_apart cl pending live \<longleftrightarrow>
     (\<forall>bucket key s. apart pending live None s (snd (create_multipart_upload cl bucket key s))) \<and>
     (\<forall>bucket key s uid s'. create_multipart_upload cl bucket key s = (Ok (Some uid), s') \<longrightarrow>
        uid \<notin> live s \<and> uid \<in> live s') \<and>
     (\<forall>bucket key uid body n s. apart pending live (Some uid) s (snd (upload_part cl bucket key uid body n s))) \<and>
     (\<forall>bucket key uid s. apart pending live (Some uid) s (snd (abort_multipart_upload cl bucket key uid s))) \<and>
     (\<forall>bucket key uid parts s. apart pending live (Some uid) s (snd (complete_multipart_upload cl bucket key uid parts s)))"

lemma apart_refl [simp]: "apart pending live mine s s"
  by (simp add: apart_def)

lemma s3_do_peer: "s3_peer (snd (s3_do call f st)) = snd (f (s3_peer st))"
  by (simp add: s3_do_def split_beta Let_def)

lemma send_part_apart:
  "s3_apart cl pending live \<Longrightarrow>
     apart pending live (Some uid) (s3_peer st) (s3_peer (snd (send_part cl bucket key uid b n st)))"
  using s3_do_peer [of "Upload bucket key uid b n" "upload_part cl bucket key uid b n" st]
  by (auto simp: send_part_def s3_apart_def split: prod.split result.split option.split)

lemma abort_upload_apart:
  "s3_apart cl pending live \<Longrightarrow>
     apart pending live (Some uid) (s3_peer st) (s3_peer (snd (abort_upload cl bucket key uid e st)))"
  using s3_do_peer [of "Abort bucket key uid" "abort_multipart_upload cl bucket key uid" st]
  by (auto simp: abort_upload_def s3_apart_def split: prod.split result.split)

fun held_upload :: "artifact_phase \<Rightarrow> string option" where
  "held_upload (Uploading a uid stream buffer parts n) = Some uid"
| "held_upload (Completing a uid parts) = Some uid"
| "held_upload _ = None"

lemma held_upload_joined [simp]: "held_upload (joined d x y) = None"
  by (cases "(d, x, y)" rule: joined.cases) auto

text \<open>Each piece that calls S3 stays with its own upload.\<close>

lemma artifact_create_apart:
  assumes "s3_apart cl pending live" and "artifact_create cl args a body st = (ph, st')"
  shows "apart pending live None (s3_peer st) (s3_peer st')"
    and "held_upload ph = Some uid \<Longrightarrow> uid \<notin> live (s3_peer st) \<and> uid \<in> live (s3_peer st')"
proof -
  let ?key = "to_s3_key a (s3_bucket_prefix args)"
  obtain r where r: "s3_do (Create (s3_bucket_name args) ?key)
      (create_multipart_upload cl (s3_bucket_name args) ?key) st = (r, st')"
    using assms(2) by (auto simp: artifact_create_def Let_def split: prod.splits result.splits option.splits)
  note c = s3_do_result [OF r]
  then show "apart pending live None (s3_peer st) (s3_peer st')"
    using assms(1) unfolding s3_apart_def by (metis snd_conv)
  assume "held_upload ph = Some uid"
  then have "r = Ok (Some uid)"
    using assms(2) r by (auto simp: artifact_create_def Let_def split: result.splits option.splits)
  with c assms(1) show "uid \<notin> live (s3_peer st) \<and> uid \<in> live (s3_peer st')"
    unfolding s3_apart_def by blast
qed

lemma artifact_chunk_apart:
  assumes "s3_apart cl pending live" and "artifact_chunk cl args a uid stream buffer parts n st = (ph, st')"
  shows "apart pending live (Some uid) (s3_peer st) (s3_peer st')" and "held_upload ph \<in> {None, Some uid}"
proof -
  let ?send = "\<lambda>b. send_part cl (s3_bucket_name args) (to_s3_key a (s3_bucket_prefix args)) uid b n st"
  have send: "apart pending live (Some uid) (s3_peer st) (s3_peer t)" if "?send b = (r, t)" for b r t
    using send_part_apart [OF assms(1), of uid st "s3_bucket_name args" "to_s3_key a (s3_bucket_prefix args)" b n] that
    by simp
  have "apart pending live (Some uid) (s3_peer st) (s3_peer st') \<and> held_upload ph \<in> {None, Some uid}"
  proof (cases stream)
    case Nil
    with assms(2) send show ?thesis
      by (auto simp: stash_rest_def split: prod.splits result.splits if_splits)
  next
    case (Cons x chunks)
    with assms(2) send abort_upload_apart [OF assms(1), of uid st] show ?thesis
      by (cases x) (auto simp: Let_def split: prod.splits result.splits if_splits)
  qed
  then show "apart pending live (Some uid) (s3_peer st) (s3_peer st')" and "held_upload ph \<in> {None, Some uid}"
    by blast+
qed

lemma artifact_complete_apart:
  assumes "s3_apart cl pending live" and "artifact_complete cl args a uid parts st = (ph, st')"
  shows "apart pending live (Some uid) (s3_peer st) (s3_peer st')" and "held_upload ph = None"
proof -
  let ?key = "to_s3_key a (s3_bucket_prefix args)"
  obtain r where r: "s3_do (Complete (s3_bucket_name args) ?key uid parts)
      (complete_multipart_upload cl (s3_bucket_name args) ?key uid parts) st = (r, st')"
    using assms(2) by (auto simp: artifact_complete_def Let_def split: prod.splits result.splits)
  from s3_do_result [OF r] assms(1) show "apart pending live (Some uid) (s3_peer st) (s3_peer st')"
    unfolding s3_apart_def by (metis snd_conv)
  show "held_upload ph = None"
    using assms(2) r by (auto simp: artifact_complete_def Let_def split: result.splits)
qed

text \<open>Open uploads of different requests are different, and were given by S3.\<close>

definition uploads_apart :: "'s s3_live \<Rightarrow> requests \<Rightarrow> 's s3 \<Rightarrow> bool" where
  "uploads_apart live rs st \<longleftrightarrow>
     (\<forall>i ph uid. rs i = Some ph \<and> held_upload ph = Some uid \<longrightarrow>
        uid \<in> live (s3_peer st) \<and> sole_holder held_upload rs i uid)"

lemma uploads_apartD:
  "uploads_apart live rs st \<Longrightarrow> rs i = Some ph \<Longrightarrow> held_upload ph = Some uid \<Longrightarrow>
     uid \<in> live (s3_peer st) \<and> (\<forall>j q. rs j = Some q \<and> held_upload q = Some uid \<longrightarrow> j = i)"
  by (simp add: uploads_apart_def sole_holder_def)

lemma uploads_apart_update:
  assumes "uploads_apart live rs st" and "live (s3_peer st) \<subseteq> live (s3_peer st')"
    and "\<And>uid. held_upload ph = Some uid \<Longrightarrow> uid \<in> live (s3_peer st') \<and>
      (uid \<notin> live (s3_peer st) \<or> (\<exists>old. rs i = Some old \<and> held_upload old = Some uid))"
  shows "uploads_apart live (rs(i \<mapsto> ph)) st'"
  unfolding uploads_apart_def sole_holder_def
proof (intro allI impI conjI; elim conjE)
  note old = uploads_apartD [OF assms(1)]
  fix j q uid
  assume j: "(rs(i \<mapsto> ph)) j = Some q" "held_upload q = Some uid"
  then show "uid \<in> live (s3_peer st')"
    using assms(2,3) old by (auto split: if_splits)
  fix k p
  assume "(rs(i \<mapsto> ph)) k = Some p" "held_upload p = Some uid"
  with j show "k = j"
    using assms(3) [of uid] old by (fastforce split: if_splits)
qed

lemma artifact_turn_apart:
  assumes s3: "s3_apart cl pending live" and inv: "uploads_apart live rs st"
    and turn: "artifact_turn up port cl args rs db st rs' db' st'"
  shows "uploads_apart live rs' st'"
  using turn
proof (cases rule: artifact_turn.cases)
  case elsewhere
  with inv show ?thesis by simp
next
  case dropped
  with inv show ?thesis unfolding uploads_apart_def sole_holder_def by blast
next
  case (started vid ph i)
  then have "held_upload ph = None"
    by (auto simp: artifact_start_def split: prod.splits result.splits option.splits)
  with started show ?thesis by (auto intro: uploads_apart_update [OF inv])
next
  case (allocated i d fetched ph)
  then have "held_upload ph = None"
    by (auto simp: artifact_allocate_def split: prod.splits result.splits)
  with allocated show ?thesis by (auto intro: uploads_apart_update [OF inv])
next
  case (fetched i d alloc nt ph nt')
  then have "held_upload ph = None"
    by (auto simp: artifact_fetch_def split: prod.splits result.splits run.splits)
  with fetched show ?thesis by (auto intro: uploads_apart_update [OF inv])
next
  case (created i a body ph)
  with artifact_create_apart [OF s3 created(4)] inv show ?thesis
    by (auto simp: apart_def intro: uploads_apart_update)
next
  case (chunked i a uid stream buffer parts n ph)
  with artifact_chunk_apart [OF s3 chunked(4)] uploads_apartD [OF inv chunked(3)] show ?thesis
    unfolding chunked(1) by (intro uploads_apart_update [OF inv]) (auto simp: apart_def)
next
  case (completed i a uid parts ph)
  with artifact_complete_apart [OF s3 completed(4)] inv show ?thesis
    by (auto simp: apart_def intro: uploads_apart_update)
next
  case (recorded i a ph)
  then have "held_upload ph = None"
    by (auto simp: artifact_record_def split: prod.splits result.splits)
  with recorded show ?thesis by (auto intro: uploads_apart_update [OF inv])
qed

section \<open>Progress of one upload\<close>

lemma map_filter_ok_append: "List.map_filter ok_value (map Ok cs @ stream) = cs @ List.map_filter ok_value stream"
  by (induction cs) (simp_all add: map_filter_simps)

text \<open>What the parts named so far hold, in their order.\<close>

definition part_bytes :: "'s s3_pending \<Rightarrow> 's s3 \<Rightarrow> string \<Rightarrow> completed_part list \<Rightarrow> bytes" where
  "part_bytes pending st uid parts =
     concat (map (\<lambda>p. snd (the (pending (s3_peer st) uid (cp_part_number p)))) parts)"

lemma send_part_bytes:
  assumes "s3_uploads cl object pending" and "send_part cl bucket key uid b n st = (Ok part, st')"
    and "numbered 1 parts" and "n = 1 + of_nat (length parts)" and "length parts < 2 ^ 32"
  shows "numbered 1 (parts @ [part])" and "part_bytes pending st' uid (parts @ [part]) = part_bytes pending st uid parts @ b"
proof -
  have part: "cp_part_number part = n" using send_part_calls(2) [OF assms(2)] by simp
  with assms(3,4) show num: "numbered 1 (parts @ [part])" by (simp add: numbered_append)
  have "distinct (map cp_part_number (parts @ [part]))"
    using num by (rule numbered_distinct) (use assms(5) in simp)
  then have "n \<notin> cp_part_number ` set parts" using part by auto
  then have "cp_part_number p \<noteq> n" if "p \<in> set parts" for p using that by (metis image_eqI)
  with send_part_pending [OF assms(1,2)] part
  show "part_bytes pending st' uid (parts @ [part]) = part_bytes pending st uid parts @ b"
    by (simp add: part_bytes_def cong: map_cong)
qed

text \<open>The object that \<open>body\<close> becomes, and the phases on the way to it.\<close>

definition stored_body ::
  "'s s3_object \<Rightarrow> bucket_args \<Rightarrow> int \<Rightarrow> (bytes, reqwest_error) result list \<Rightarrow> 's s3 \<Rightarrow> bool"
where
  "stored_body object args aid body st \<longleftrightarrow>
     (\<exists>cs. body = map Ok cs \<and> object (s3_peer st) (s3_bucket_name args) (artifact_key args aid) = Some (concat cs))"

fun progress ::
  "'s s3_object \<Rightarrow> 's s3_pending \<Rightarrow> bucket_args \<Rightarrow> artifact \<Rightarrow> (bytes, reqwest_error) result list \<Rightarrow> 's s3 \<Rightarrow>
    artifact_phase \<Rightarrow> bool"
where
  "progress object pending args a body st (Joining d x y) \<longleftrightarrow> x \<noteq> Some (af_artifact_id a)"
| "progress object pending args a body st (Stashing b stream) \<longleftrightarrow>
     (af_artifact_id b = af_artifact_id a \<longrightarrow> b = a \<and> stream = body)"
| "progress object pending args a body st (Uploading b uid stream buffer parts n) \<longleftrightarrow>
     (af_artifact_id b = af_artifact_id a \<longrightarrow> b = a \<and>
        (\<exists>cs. body = map Ok cs @ stream \<and> part_bytes pending st uid parts @ buffer = concat cs \<and>
           length parts * s3_minimum_upload_chunk_bytes \<le> length (part_bytes pending st uid parts) \<and>
           numbered 1 parts \<and> n = 1 + of_nat (length parts)))"
| "progress object pending args a body st (Completing b uid parts) \<longleftrightarrow>
     (af_artifact_id b = af_artifact_id a \<longrightarrow> b = a \<and>
        (\<exists>cs. body = map Ok cs \<and> part_bytes pending st uid parts = concat cs))"
| "progress object pending args a body st (Recording b) \<longleftrightarrow>
     (af_artifact_id b = af_artifact_id a \<longrightarrow> b = a \<and> stored_body object args (af_artifact_id a) body st)"
| "progress object pending args a body st (Answered r) = True"

lemma progress_joined:
  "x \<noteq> Some (af_artifact_id a) \<Longrightarrow> progress object pending args a body st (joined d x y)"
  by (cases "(d, x, y)" rule: joined.cases) auto

text \<open>The request's own pieces take it forward.\<close>

lemma artifact_create_progress:
  assumes "progress object pending args a body st (Stashing b stream)" and "artifact_create cl args b stream st = (ph, st')"
  shows "progress object pending args a body st' ph"
  using assms by (auto simp: artifact_create_def part_bytes_def Let_def split: prod.splits result.splits option.splits)

lemma artifact_chunk_progress:
  assumes s3: "s3_uploads cl object pending"
    and small: "length (concat (List.map_filter ok_value body)) < 2 ^ 32 * s3_minimum_upload_chunk_bytes"
    and here: "progress object pending args a body st (Uploading a uid stream buffer parts n)"
    and run: "artifact_chunk cl args a uid stream buffer parts n st = (ph, st')"
  shows "progress object pending args a body st' ph"
proof -
  let ?min = s3_minimum_upload_chunk_bytes
  from here obtain cs where body: "body = map Ok cs @ stream"
      and cs: "part_bytes pending st uid parts @ buffer = concat cs"
      and len: "length parts * ?min \<le> length (part_bytes pending st uid parts)"
      and num: "numbered 1 parts" "n = 1 + of_nat (length parts)" by auto
  have "length (concat cs) \<le> length (concat (List.map_filter ok_value body))"
    by (simp add: body map_filter_ok_append)
  with cs len small have "length parts * ?min < 2 ^ 32 * ?min"
    by (metis le_add1 le_less_trans le_trans length_append)
  then have few: "length parts < 2 ^ 32" by (metis mult_less_cancel2)
  note sent = send_part_bytes [OF s3 _ num few]
  show ?thesis
  proof (cases stream)
    case Nil
    with run body cs sent(2) show ?thesis
      by (auto simp: stash_rest_def split: prod.splits result.splits if_splits)
  next
    case (Cons x chunks)
    show ?thesis
    proof (cases x)
      case (Err e)
      with run Cons show ?thesis by auto
    next
      case (Ok c)
      have body': "body = map Ok (cs @ [c]) @ chunks" by (simp add: body Cons Ok)
      show ?thesis
      proof (cases "length (buffer @ c) < ?min")
        case True
        with run Cons Ok have "ph = Uploading a uid chunks (buffer @ c) parts n" "st' = st" by (simp_all add: Let_def)
        with body' cs len num show ?thesis by (auto intro!: exI [of _ "cs @ [c]"])
      next
        case False
        have "ph = failed \<or> (\<exists>part. send_part cl (s3_bucket_name args) (to_s3_key a (s3_bucket_prefix args)) uid
            (buffer @ c) n st = (Ok part, st') \<and> ph = Uploading a uid chunks [] (parts @ [part]) (n + 1))"
          using run False Cons Ok by (auto simp: Let_def split: prod.splits result.splits)
        then show ?thesis
          using body' cs len num sent False by (auto intro!: exI [of _ "cs @ [c]"])
      qed
    qed
  qed
qed

lemma artifact_complete_progress:
  assumes s3: "s3_completes cl object pending"
    and here: "progress object pending args a body st (Completing a uid parts)"
    and run: "artifact_complete cl args a uid parts st = (ph, st')"
  shows "progress object pending args a body st' ph"
proof -
  let ?key = "to_s3_key a (s3_bucket_prefix args)"
  obtain r where r: "s3_do (Complete (s3_bucket_name args) ?key uid parts)
      (complete_multipart_upload cl (s3_bucket_name args) ?key uid parts) st = (r, st')"
    using run by (auto simp: artifact_complete_def Let_def split: prod.splits result.splits)
  with run consider "ph = failed" | "r = Ok ()" "ph = Recording a"
    by (auto simp: artifact_complete_def Let_def split: result.splits)
  then show ?thesis
  proof cases
    case 2
    with s3 s3_do_result [OF r] have "object (s3_peer st') (s3_bucket_name args) ?key = Some (part_bytes pending st uid parts)"
      by (auto simp: s3_completes_def part_bytes_def)
    with 2 here show ?thesis by (auto simp: stored_body_def)
  qed simp
qed

text \<open>What other requests and the tables do leaves it where it is.\<close>

lemma progress_kept:
  assumes phase: "progress object pending args a body st ph"
    and mine: "\<And>uid. held_upload ph = Some uid \<Longrightarrow> pending (s3_peer st') uid = pending (s3_peer st) uid"
    and same: "\<And>b. ph = Recording b \<Longrightarrow> af_artifact_id b = af_artifact_id a \<Longrightarrow>
      object (s3_peer st') (s3_bucket_name args) (artifact_key args (af_artifact_id a)) =
      object (s3_peer st) (s3_bucket_name args) (artifact_key args (af_artifact_id a))"
  shows "progress object pending args a body st' ph"
proof (cases ph)
  case (Uploading b uid stream buffer parts n)
  with phase mine [of uid] show ?thesis by (auto simp: part_bytes_def)
next
  case (Completing b uid parts)
  with phase mine [of uid] show ?thesis by (auto simp: part_bytes_def)
next
  case (Recording b)
  with phase same show ?thesis by (auto simp: stored_body_def)
qed (use phase in auto)

text \<open>
  The download of \<open>body\<close> for artifact \<open>a\<close>, as long as its id is not lost: every request with that
  id is this one and has got as far as its phase says, and if the id is on record, its object is
  the body.
\<close>

definition traced ::
  "'s s3_object \<Rightarrow> 's s3_pending \<Rightarrow> bucket_args \<Rightarrow> artifact \<Rightarrow> (bytes, reqwest_error) result list \<Rightarrow>
    requests \<Rightarrow> pg \<Rightarrow> 's s3 \<Rightarrow> bool"
where
  "traced object pending args a body rs db st \<longleftrightarrow>
     id_ok (artifact_ids db) (af_artifact_id a) \<and>
     (\<forall>i ph. rs i = Some ph \<longrightarrow> progress object pending args a body st ph) \<and>
     (af_artifact_id a \<in> set (artifact_id_column (versions db)) \<longrightarrow> stored_body object args (af_artifact_id a) body st)"

lemma traced_progress:
  "traced object pending args a body rs db st \<Longrightarrow> rs i = Some ph \<Longrightarrow> progress object pending args a body st ph"
  by (simp only: traced_def)

lemma traced_update:
  assumes "traced object pending args a body rs db st"
    and "artifact_ids db \<le> artifact_ids db'"
    and "\<And>j q. j \<noteq> i \<Longrightarrow> rs j = Some q \<Longrightarrow> progress object pending args a body st q \<Longrightarrow> progress object pending args a body st' q"
    and "progress object pending args a body st' ph"
    and "af_artifact_id a \<in> set (artifact_id_column (versions db')) \<Longrightarrow> stored_body object args (af_artifact_id a) body st'"
  shows "traced object pending args a body (rs(i \<mapsto> ph)) db' st'"
  using assms by (auto simp: traced_def id_ok_def)

text \<open>A call to S3 by the request at \<open>i\<close>.\<close>

lemma traced_bucket_turn:
  assumes ok: "requests_ok cl object args rs db st" and wf: "pg_wf db" and tr: "traced object pending args a body rs db st"
    and up: "uploads_apart live rs st" and i: "rs i = Some old" "held_id old = Some (af_artifact_id b)"
    and apart: "apart pending live mine (s3_peer st) (s3_peer st')" "mine = None \<or> held_upload old = mine"
    and own: "own_object object args (af_artifact_id b) ph st st'"
    and here: "progress object pending args a body st' ph"
  shows "traced object pending args a body (rs(i \<mapsto> ph)) db st'"
  using tr order_refl
proof (rule traced_update)
  let ?aid = "af_artifact_id a"
  have aid: "id_ok (artifact_ids db) ?aid" using tr by (simp add: traced_def)
  note held = requests_ok_held [OF ok i]
  have i64: "in_i64 x" if "id_ok (artifact_ids db) x" for x
    using wf that by (auto simp: wf_defs id_ok_def seq_ok_def in_i64_def i64_min_def i64_max_def)
  have same: "object (s3_peer st') (s3_bucket_name args) (artifact_key args ?aid) =
      object (s3_peer st) (s3_bucket_name args) (artifact_key args ?aid)" if "af_artifact_id b \<noteq> ?aid"
    using own that artifact_key_inj [OF i64 [OF aid] i64 [OF held(1)], of args] by (auto simp: own_object_def)
  show "progress object pending args a body st' ph" by (rule here)
  show "stored_body object args ?aid body st'" if "?aid \<in> set (artifact_id_column (versions db))"
  proof -
    from that held(3) have "af_artifact_id b \<noteq> ?aid" by auto
    with same tr that show ?thesis by (simp add: traced_def stored_body_def)
  qed
  fix j q
  assume j: "j \<noteq> i" "rs j = Some q" and q: "progress object pending args a body st q"
  show "progress object pending args a body st' q"
  proof (rule progress_kept [OF q])
    fix uid assume uid: "held_upload q = Some uid"
    note live = uploads_apartD [OF up j(2) uid]
    then have "mine \<noteq> Some uid" using apart(2) i(1) j(1) by auto
    with live apart(1) show "pending (s3_peer st') uid = pending (s3_peer st) uid" by (simp add: apart_def)
  next
    fix c assume c: "q = Recording c" "af_artifact_id c = ?aid"
    then have "settled object args rs db st ?aid"
      using requests_okD [OF ok j(2)] by (simp add: phase_ok_def relies_ok_def)
    then have "af_artifact_id b \<noteq> ?aid" using i by (auto simp: settled_def)
    then show "object (s3_peer st') (s3_bucket_name args) (artifact_key args ?aid) =
        object (s3_peer st) (s3_bucket_name args) (artifact_key args ?aid)" by (rule same)
  qed
qed

lemma artifact_turn_traced:
  assumes s3: "s3_uploads cl object pending" "s3_completes cl object pending" "s3_apart cl pending live"
    and small: "length (concat (List.map_filter ok_value body)) < 2 ^ 32 * s3_minimum_upload_chunk_bytes"
    and ok: "requests_ok cl object args rs db st" and wf: "pg_wf db" and up: "uploads_apart live rs st"
    and tr: "traced object pending args a body rs db st"
    and turn: "artifact_turn up port cl args rs db st rs' db' st'"
  shows "traced object pending args a body rs' db' st'"
  using turn
proof (cases rule: artifact_turn.cases)
  case elsewhere
  with tr show ?thesis by (auto simp: traced_def id_ok_def)
next
  case dropped
  with tr show ?thesis by (auto simp: traced_def)
next
  case (started vid ph i)
  have "progress object pending args a body st ph"
    using started(3) by (auto simp: artifact_start_def split: prod.splits result.splits option.splits)
  then show ?thesis
    unfolding started(1,2) using artifact_start_ok(2,3) [OF ok wf started(3)] tr
    by (intro traced_update [OF tr]) (auto simp: traced_def)
next
  case (allocated i d fetched ph)
  note kept = artifact_allocate_ok [OF ok wf allocated(4)]
  have "af_artifact_id a < artifact_ids db" using tr by (simp add: traced_def id_ok_def)
  moreover obtain x where "ph = failed \<or> ph = joined d (Some x) fetched"
    using allocated(4) by (auto simp: artifact_allocate_def split: prod.splits result.splits)
  ultimately have "progress object pending args a body st ph"
    using kept(6) [of x] by (auto intro: progress_joined)
  then show ?thesis
    unfolding allocated(1,2) using kept(3,4) tr by (intro traced_update [OF tr]) (auto simp: traced_def)
next
  case (fetched i d alloc nt ph nt')
  note kept = artifact_fetch_ok [OF ok wf fetched(3,4)]
  have "alloc \<noteq> Some (af_artifact_id a)"
    using traced_progress [OF tr fetched(3)] by simp
  moreover have "(\<exists>r. ph = Answered r) \<or> (\<exists>b. ph = joined d alloc (Some b))"
    using fetched(4) by (auto simp: artifact_fetch_def split: prod.splits result.splits run.splits)
  ultimately have "progress object pending args a body st ph" by (auto intro: progress_joined)
  then show ?thesis
    unfolding fetched(1,2) using kept(3,4) tr by (intro traced_update [OF tr]) (auto simp: traced_def)
next
  case (created i b stream ph)
  have "progress object pending args a body st (Stashing b stream)" using tr created(3) by (rule traced_progress)
  from artifact_create_progress [OF this created(4)] show ?thesis
    unfolding created(1,2) using created(3)
    by (intro traced_bucket_turn [OF ok wf tr up created(3) _ artifact_create_apart(1) [OF s3(3) created(4)] _
        artifact_create_own [OF s3(1) created(4)]]) auto
next
  case (chunked i b uid stream buffer parts n ph)
  have here: "progress object pending args a body st (Uploading b uid stream buffer parts n)"
    using tr chunked(3) by (rule traced_progress)
  note own = artifact_chunk_own [OF s3(1) chunked(4)]
  have "progress object pending args a body st' ph"
  proof (cases "af_artifact_id b = af_artifact_id a")
    case True
    with here have "b = a" by simp
    with artifact_chunk_progress [OF s3(1) small] here chunked(4) show ?thesis by simp
  next
    case False
    with chunked(4) show ?thesis
      by (cases stream; cases "hd stream") (auto simp: Let_def split: prod.splits result.splits if_splits)
  qed
  then show ?thesis
    unfolding chunked(1,2)
    by (intro traced_bucket_turn [OF ok wf tr up chunked(3) _ artifact_chunk_apart(1) [OF s3(3) chunked(4)] _ own]) auto
next
  case (completed i b uid parts ph)
  have here: "progress object pending args a body st (Completing b uid parts)"
    using tr completed(3) by (rule traced_progress)
  have "progress object pending args a body st' ph"
  proof (cases "af_artifact_id b = af_artifact_id a")
    case True
    with here have "b = a" by simp
    with artifact_complete_progress [OF s3(2)] here completed(4) show ?thesis by simp
  next
    case False
    with completed(4) show ?thesis by (auto simp: artifact_complete_def Let_def split: prod.splits result.splits)
  qed
  then show ?thesis
    unfolding completed(1,2)
    by (intro traced_bucket_turn [OF ok wf tr up completed(3) _ artifact_complete_apart(1) [OF s3(3) completed(4)] _
        artifact_complete_own [OF s3(2) completed(4)]]) auto
next
  case (recorded i b ph)
  note kept = artifact_record_ok [OF ok wf recorded(3,4)]
  have "progress object pending args a body st (Recording b)" using tr recorded(3) by (rule traced_progress)
  then have "stored_body object args (af_artifact_id a) body st"
    if "af_artifact_id a \<in> set (artifact_id_column (versions db'))"
    using that kept(6) tr by (auto simp: traced_def)
  with kept(4,5) show ?thesis
    unfolding recorded(1,2) by (intro traced_update [OF tr]) auto
qed

text \<open>A download begins with a fetched body.\<close>

lemma traced_begin:
  assumes "requests_ok cl object args rs db st" and "rs i = Some (Stashing a body)"
  shows "traced object pending args a body rs db st"
proof -
  note held = requests_ok_held [OF assms, of "af_artifact_id a"]
  have "progress object pending args a body st ph" if "rs j = Some ph" for j ph
  proof -
    have "held_id ph = Some (af_artifact_id a) \<Longrightarrow> ph = Stashing a body"
      using held(2) that assms(2) by (auto simp: sole_holder_def)
    moreover have "\<not> settled object args rs db st (af_artifact_id a)"
      using assms(2) by (metis held_id.simps(2) settled_def)
    then have "af_artifact_id b \<noteq> af_artifact_id a" if "ph = Recording b" for b
      using requests_okD [OF assms(1) \<open>rs j = Some ph\<close>] that by (auto simp: phase_ok_def relies_ok_def)
    ultimately show ?thesis by (cases ph) auto
  qed
  with held show ?thesis by (simp add: traced_def)
qed

end
