(* ===== verification/Samples.thy ===== *)
theory Samples
  imports Lifecycle Artifact_Content
begin

text \<open>
  A small concrete world in which every property of the development has an instance: two
  databases, an upstream registry and a reference S3 service. The theorems named
  \<open>..._witness\<close> apply a property to it and evaluate its hypotheses there.
\<close>

section \<open>A database\<close>

definition sample_provider :: terraform_provider where
  "sample_provider = \<lparr>tp_hostname = ''r'', tp_namespace = ''n'', tp_type = ''t''\<rparr>"

definition sample_row :: "int \<Rightarrow> string \<Rightarrow> string \<Rightarrow> int option \<Rightarrow> version_row" where
  "sample_row i os ar aid =
     \<lparr>vr_id = i, vr_provider_id = 1, vr_version = ''1.0'', vr_os = os, vr_arch = ar, vr_artifact_id = aid,
      vr_artifact_timestamp = map_option (\<lambda>_. 0) aid\<rparr>"

definition sample_db :: pg where
  "sample_db = empty_pg\<lparr>
     providers := [\<lparr>pr_id = 1, pr_hostname = ''r'', pr_namespace = ''n'', pr_type = ''t'', pr_last_refreshed = 0\<rparr>],
     versions := [sample_row 1 ''linux'' ''amd64'' None, sample_row 2 ''darwin'' ''arm64'' (Some 1)],
     hosts := [\<lparr>hr_id = 1, hr_hostname = ''r'', hr_auth_token = Some ''secret''\<rparr>],
     provider_ids := 2, version_ids := 3, host_ids := 2, artifact_ids := 2\<rparr>"

definition ambiguous_db :: pg where
  "ambiguous_db = sample_db\<lparr>versions := [sample_row 1 ''a_b'' ''c'' None, sample_row 2 ''a'' ''b_c'' None]\<rparr>"

lemmas sample_defs = sample_provider_def sample_row_def sample_db_def ambiguous_db_def empty_pg_def

lemma sample_db_wf: "pg_wf sample_db" "pg_wf ambiguous_db"
  by (simp_all add: sample_defs wf_defs provider_key_def version_key_def provider_check_def version_check_def
      host_check_def upload_check_def artifact_id_column_def map_filter_simps id_ok_def seq_ok_def i64_max_def
      char_length_def is_continuation_def)

section \<open>An upstream registry\<close>

definition sample_listing :: provider_versions where
  "sample_listing = \<lparr>pvs_versions =
     [\<lparr>pv_version = ''2.0'', pv_protocols = [], pv_platforms = [\<lparr>pp_os = ''linux'', pp_arch = ''amd64''\<rparr>]\<rparr>,
      \<lparr>pv_version = ''3.0'', pv_protocols = [], pv_platforms = []\<rparr>]\<rparr>"

text \<open>One document with the members of all three types the client reads.\<close>

definition sample_document :: json where
  "sample_document = JObject
     [(''providers.v1'', JString ''/v1/''),
      (''versions'', JArray
        [JObject [(''version'', JString ''2.0''), (''protocols'', JArray []),
           (''platforms'', JArray [JObject [(''os'', JString ''linux''), (''arch'', JString ''amd64'')]])],
         JObject [(''version'', JString ''3.0''), (''protocols'', JArray []), (''platforms'', JArray [])]]),
      (''protocols'', JArray []), (''os'', JString ''linux''), (''arch'', JString ''amd64''),
      (''filename'', JString ''f''), (''download_url'', JString ''d''), (''shasums_url'', JString ''s''),
      (''shasums_signature_url'', JString ''g''), (''shasum'', JString ''h''),
      (''signing_keys'', JObject [(''gpg_public_keys'', JArray [])])]"

definition sample_upstream :: "unit upstream" where
  "sample_upstream =
     \<lparr>url_parse = (\<lambda>s. if CHR '' '' \<in> set s then None else Some s),
      url_join = (\<lambda>u p. Some (u @ p)),
      http_reply = (\<lambda>req p. (Ok \<lparr>resp_status = 200, resp_body = [Ok [1], Ok [2]]\<rparr>, p)),
      json_parse = (\<lambda>_. Ok sample_document)\<rparr>"

lemma sample_upstream_simps [simp]:
  "url_parse sample_upstream s = (if CHR '' '' \<in> set s then None else Some s)"
  "url_join sample_upstream u p = Some (u @ p)"
  "http_reply sample_upstream req n = (Ok \<lparr>resp_status = 200, resp_body = [Ok [1], Ok [2]]\<rparr>, n)"
  "json_parse sample_upstream b = Ok sample_document"
  by (simp_all add: sample_upstream_def)

lemmas struct_defs = struct1_def struct2_def struct3_def struct_fields_def required_def optional_def
  expect_string_def expect_list_def expect_url_def

lemma sample_documents [simp]:
  "json_services sample_upstream b = Ok \<lparr>providers_v1 = Some ''/v1/'', modules_v1 = None, login_v1 = None\<rparr>"
  "json_versions sample_upstream b = Ok sample_listing"
  "json_provider sample_upstream b = Ok \<lparr>ps_protocols = [], ps_os = ''linux'', ps_arch = ''amd64'', ps_filename = ''f'',
     ps_download_url = ''d'', ps_shasums_url = ''s'', ps_shasums_signature_url = ''g'', ps_shasum = ''h'',
     ps_signing_keys = \<lparr>gpg_public_keys = []\<rparr>\<rparr>"
  by (simp_all add: json_services_def json_versions_def json_provider_def sample_document_def sample_listing_def
      discovered_services_of_json_def provider_versions_of_json_def version_item_of_json_def platform_of_json_def
      provider_response_of_json_def signing_keys_of_json_def struct_defs)

definition sample_net :: "unit net" where
  "sample_net = \<lparr>peer = (), sent = []\<rparr>"

section \<open>A reference S3 service\<close>

record bucket_state =
  stored_objects :: "string \<Rightarrow> string \<Rightarrow> bytes option"
  stored_parts :: "string \<Rightarrow> i32 \<rightharpoonup> string \<times> bytes"
  uploads_begun :: nat

definition upload_name :: "nat \<Rightarrow> string" where
  "upload_name n = replicate n (CHR ''u'')"

definition sample_s3_client :: "bucket_state s3_client" where
  "sample_s3_client =
     \<lparr>create_multipart_upload = (\<lambda>b k s.
        (Ok (Some (upload_name (uploads_begun s))), s\<lparr>uploads_begun := uploads_begun s + 1\<rparr>)),
      upload_part = (\<lambda>b k uid body n s.
        (Ok (Some ''tag''), s\<lparr>stored_parts := (stored_parts s)(uid := (stored_parts s uid)(n \<mapsto> (''tag'', body)))\<rparr>)),
      complete_multipart_upload = (\<lambda>b k uid parts s.
        (Ok (), s\<lparr>stored_objects := (stored_objects s)(b := (stored_objects s b)(k :=
           Some (concat (map (\<lambda>p. snd (the (stored_parts s uid (cp_part_number p)))) parts))))\<rparr>)),
      abort_multipart_upload = (\<lambda>b k uid s. (Ok (), s)),
      presign_get_object = (\<lambda>b k secs. Ok (''https://s3/'' @ k)),
      uri_parse = Some\<rparr>"

definition sample_args :: bucket_args where
  "sample_args = \<lparr>s3_bucket_name = ''b'', s3_bucket_prefix = ''p/''\<rparr>"

definition sample_s3 :: "bucket_state s3" where
  "sample_s3 = \<lparr>s3_peer = \<lparr>stored_objects = (\<lambda>b k. if k = ''p/artifacts/1'' then Some [7] else None),
     stored_parts = (\<lambda>_ _. None), uploads_begun = 0\<rparr>, s3_calls = []\<rparr>"

lemma sample_s3_laws:
  "s3_uploads sample_s3_client stored_objects stored_parts"
  "s3_completes sample_s3_client stored_objects stored_parts"
  by (auto simp: s3_uploads_def s3_completes_def sample_s3_client_def)

definition begun_uploads :: "bucket_state \<Rightarrow> string set" where
  "begun_uploads s = {upload_name n | n. n < uploads_begun s}"

lemma upload_name_inject [simp]: "upload_name m = upload_name n \<longleftrightarrow> m = n"
  by (simp add: upload_name_def)

lemma sample_s3_apart: "s3_apart sample_s3_client stored_parts begun_uploads"
  by (auto simp: s3_apart_def apart_def sample_s3_client_def begun_uploads_def)

lemma sample_bodies: "bounded_bodies sample_upstream"
  by (simp add: bounded_bodies_def s3_minimum_upload_chunk_bytes_def map_filter_simps)

lemma show_int_one: "show_int 1 = ''1''" "show_int 2 = ''2''" "show_int 3 = ''3''"
  by code_simp+

lemma sample_present: "artifacts_present stored_objects sample_args sample_db sample_s3"
  by (simp add: artifacts_present_def sample_defs sample_args_def sample_s3_def artifact_id_column_def
      map_filter_simps artifact_key_def show_int_one)

section \<open>A server\<close>

definition sample_server :: "(unit, bucket_state) server" where
  "sample_server = \<lparr>sv_upstream = sample_upstream, sv_port = 443, sv_interval = 100,
     sv_s3_client = sample_s3_client, sv_bucket = sample_args, sv_redirect_url = ''https://m/mirror/v1/''\<rparr>"

definition sample_world :: "(unit, bucket_state) world" where
  "sample_world = boot sample_db sample_net sample_s3"

lemma sample_lawful: "s3_lawful sample_server stored_objects stored_parts"
  by (simp add: s3_lawful_def sample_server_def sample_s3_laws)

lemma sample_discovery_url: "discovery_url ''r'' 443 = ''https://r:443/.well-known/terraform.json''"
  by code_simp

lemma sample_db_inv: "db_inv sample_server stored_objects sample_world"
proof -
  have "hosts_known sample_upstream 443 sample_db"
    by (simp add: hosts_known_def sample_db_def sample_discovery_url)
  with sample_db_wf sample_present show ?thesis
    by (simp add: sample_world_def db_inv_boot sample_server_def)
qed

end
