(* ===== verification/Process.thy ===== *)
theory Process
  imports Lifecycle
begin

text \<open>
  The process as a whole: \<^verbatim>\<open>main\<close> spawns the command and a task that cancels the
  token on the first signal, and exits with the code of the command's result;
  \<^verbatim>\<open>run_server\<close> joins the accept loop of \<open>Lifecycle\<close> and the refresher of
  \<open>Mirror_System\<close>, each of which looks at the token when its own turn comes.
\<close>

section \<open>The process\<close>

text \<open>\<open>pc_token\<close> is the cancellation token and its children. After the end of the process its
  last memory is kept, for properties to speak about.\<close>

datatype process_stage =
    Starting args
  | Serving server_args
  | Exited nat

record ('n, 's) process =
  pc_stage :: process_stage
  pc_token :: bool
  pc_serve :: serve_state
  pc_world :: "('n, 's) world"

definition process_start :: "args \<Rightarrow> pg \<Rightarrow> 'n net \<Rightarrow> 's s3 \<Rightarrow> ('n, 's) process" where
  "process_start a db nt st =
     \<lparr>pc_stage = Starting a, pc_token = False, pc_serve = serve_init, pc_world = boot db nt st\<rparr>"

text \<open>\<^verbatim>\<open>main\<close> before that: the recorder of the metrics and the two signal handlers, each of
  which is unwrapped.\<close>

definition main_starts :: "platform \<Rightarrow> bool" where
  "main_starts pf \<longleftrightarrow> pf_recorder_installs pf \<and> pf_signals_register pf"

definition main_start :: "platform \<Rightarrow> args \<Rightarrow> pg \<Rightarrow> 'n net \<Rightarrow> 's s3 \<Rightarrow> ('n, 's) process" where
  "main_start pf a db nt st =
     (if main_starts pf then process_start a db nt st else (process_start a db nt st)\<lparr>pc_stage := Exited (exit_code Panic)\<rparr>)"

definition server_starts :: "platform \<Rightarrow> server_args \<Rightarrow> bool" where
  "server_starts pf config \<longleftrightarrow> run_server pf (Done ()) config = Done (Ok ())"

text \<open>
  A signal is taken by its own task at any time. The accept loop and the refresher see the token
  at some later turn, the refresher between two messages only; handlers go on. A connection is
  accepted also after the signal, as long as the loop has not seen the token.
\<close>

inductive process_step ::
  "platform \<Rightarrow> 'n upstream \<Rightarrow> 's s3_client \<Rightarrow> ('n, 's) process \<Rightarrow> ('n, 's) process \<Rightarrow> bool"
for pf up cl where
  signal: "(\<And>n. pc_stage p \<noteq> Exited n) \<Longrightarrow> process_step pf up cl p (p\<lparr>pc_token := True\<rparr>)"
| ready: "pc_stage p = Starting (Server config) \<Longrightarrow> server_starts pf config \<Longrightarrow>
    process_step pf up cl p (p\<lparr>pc_stage := Serving config\<rparr>)"
| start_failed: "pc_stage p = Starting (Server config) \<Longrightarrow> \<not> server_starts pf config \<Longrightarrow>
    process_step pf up cl p (p\<lparr>pc_stage := Exited (exit_code (run_command pf (Done ()) (Server config)))\<rparr>)"
| command_done: "pc_stage p = Starting a \<Longrightarrow> (\<And>config. a \<noteq> Server config) \<Longrightarrow>
    process_step pf up cl p (p\<lparr>pc_stage := Exited (exit_code (run_command pf tasks a))\<rparr>)"
| connection: "pc_stage p = Serving config \<Longrightarrow> e \<noteq> Cancel \<Longrightarrow>
    process_step pf up cl p (p\<lparr>pc_serve := serve_event_step e (pc_serve p)\<rparr>)"
| stop_accepting: "pc_stage p = Serving config \<Longrightarrow> pc_token p \<Longrightarrow>
    process_step pf up cl p (p\<lparr>pc_serve := serve_event_step Cancel (pc_serve p)\<rparr>)"
| task: "pc_stage p = Serving config \<Longrightarrow> step (app_state_new up cl config) (pc_world p) w \<Longrightarrow>
    (wd_status w = Stopped \<Longrightarrow> wd_status (pc_world p) = Stopped \<or> pc_token p) \<Longrightarrow>
    process_step pf up cl p (p\<lparr>pc_world := w\<rparr>)"
| tasks_ended: "pc_stage p = Serving config \<Longrightarrow> phase (pc_serve p) = Ended \<Longrightarrow> wd_status (pc_world p) = Stopped \<Longrightarrow>
    process_step pf up cl p (p\<lparr>pc_stage := Exited (exit_code (run_command pf (Done ()) (Server config)))\<rparr>)"
| task_panicked: "pc_stage p = Serving config \<Longrightarrow> wd_status (pc_world p) = Crashed \<Longrightarrow>
    process_step pf up cl p (p\<lparr>pc_stage := Exited (exit_code (run_command pf Panic (Server config)))\<rparr>)"

abbreviation process_run ::
  "platform \<Rightarrow> 'n upstream \<Rightarrow> 's s3_client \<Rightarrow> ('n, 's) process \<Rightarrow> ('n, 's) process \<Rightarrow> bool"
where
  "process_run pf up cl \<equiv> (process_step pf up cl)\<^sup>*\<^sup>*"

section \<open>How the server ends\<close>

definition serve_ok :: "bool \<Rightarrow> serve_state \<Rightarrow> bool" where
  "serve_ok token s \<longleftrightarrow>
     (phase s = Accepting \<or> token) \<and> (phase s = Draining \<longrightarrow> running s \<noteq> []) \<and>
     (phase s = Ended \<longrightarrow> running s = [] \<and> finished s = [])"

lemma serve_ok_step:
  "serve_ok token s \<Longrightarrow> (e = Cancel \<Longrightarrow> token) \<Longrightarrow> serve_ok token (serve_event_step e s)"
  by (cases e; cases "phase s") (auto simp: serve_ok_def reap_def join_all_def Let_def)

lemma step_no_revival: "step sv s s' \<Longrightarrow> wd_status s \<noteq> Waiting \<Longrightarrow> wd_status s' = wd_status s"
  by (erule step.cases) (auto simp: set_db_def dest: artifact_step_frame)



text \<open>A step that takes the server down: the refresher, at a host the URL library rejects.\<close>

lemma step_crash:
  assumes "step sv s s'" and "wd_status s' = Crashed" and "wd_status s \<noteq> Crashed"
  shows "\<exists>h. url_parse (sv_upstream sv) (discovery_url h (sv_port sv)) = None"
  using assms(1)
proof (cases rule: step.cases)
  case refresh
  from refresh(2) show ?thesis using assms(2,3) by (cases rule: refresh_step_cases) auto
next
  case (artifact_piece i ph order ph' t)
  with artifact_step_frame [OF artifact_piece(4)] assms(2,3) show ?thesis by simp
qed (use assms(2,3) in \<open>auto simp: set_db_def\<close>)

definition process_inv :: "platform \<Rightarrow> 'n upstream \<Rightarrow> server_args \<Rightarrow> ('n, 's) process \<Rightarrow> bool" where
  "process_inv pf up config p \<longleftrightarrow>
     wait_inv (pc_world p) \<and> serve_ok (pc_token p) (pc_serve p) \<and>
     (wd_status (pc_world p) = Stopped \<longrightarrow> pc_token p) \<and>
     (wd_status (pc_world p) = Crashed \<longrightarrow>
        (\<exists>h. url_parse up (discovery_url h (upstream_registry_port config)) = None)) \<and>
     (case pc_stage p of
        Starting a \<Rightarrow> a = Server config \<and> pc_serve p = serve_init
      | Serving c \<Rightarrow> c = config \<and> server_starts pf config
      | Exited n \<Rightarrow>
          n = 0 \<and> server_starts pf config \<and> phase (pc_serve p) = Ended \<and> wd_status (pc_world p) = Stopped \<or>
          n = 101 \<and> (server_starts pf config \<longrightarrow> wd_status (pc_world p) = Crashed))"

lemma run_server_ends:
  "server_starts pf config \<Longrightarrow> run_server pf tasks config = (case tasks of Panic \<Rightarrow> Panic | Done _ \<Rightarrow> Done (Ok ()))"
  "\<not> server_starts pf config \<Longrightarrow> run_server pf tasks config = Panic"
  by (auto simp: server_starts_def run_server_def split: run.splits result.splits if_splits)

lemma process_inv_exited:
  "process_inv pf up config p \<Longrightarrow> pc_stage p = Exited n \<Longrightarrow> server_starts pf config \<Longrightarrow>
     pc_token p \<or> (\<exists>h. url_parse up (discovery_url h (upstream_registry_port config)) = None)"
  by (auto simp: process_inv_def)

lemma process_inv_start: "process_inv pf up config (process_start (Server config) db nt st)"
  by (simp add: process_inv_def process_start_def wait_inv_boot serve_ok_def serve_init_def) (simp add: boot_def)

lemma process_step_inv:
  assumes "process_inv pf up config p" and "process_step pf up cl p p'"
  shows "process_inv pf up config p'"
  using assms(2)
proof (cases rule: process_step.cases)
  case signal
  with assms(1) show ?thesis by (auto simp: process_inv_def serve_ok_def split: process_stage.splits)
next
  case (connection c e)
  with assms(1) show ?thesis by (auto simp: process_inv_def intro: serve_ok_step)
next
  case (stop_accepting c)
  then have "serve_ok (pc_token p) (serve_event_step Cancel (pc_serve p))"
    using assms(1) serve_ok_step [of "pc_token p" "pc_serve p" Cancel] by (simp add: process_inv_def del: serve_event_step.simps)
  with stop_accepting assms(1) show ?thesis by (simp add: process_inv_def del: serve_event_step.simps)
next
  case (task c w)
  with assms(1) have c: "c = config" and wait: "wait_inv (pc_world p)" by (simp_all add: process_inv_def)
  have "\<exists>h. url_parse up (discovery_url h (upstream_registry_port config)) = None" if "wd_status w = Crashed"
    using step_crash [OF task(3) that] step_no_revival [OF task(3)] that assms(1) c
    by (auto simp: process_inv_def app_state_new_def)
  with assms(1) step_wait_inv [OF wait task(3)] task(1,2,4) show ?thesis
    by (auto simp: process_inv_def)
qed (use assms(1) in \<open>auto simp: process_inv_def run_server_ends\<close>)

lemma process_run_inv:
  "process_run pf up cl p p' \<Longrightarrow> process_inv pf up config p \<Longrightarrow> process_inv pf up config p'"
  by (induction rule: rtranclp_induct) (auto intro: process_step_inv)

text \<open>A process that \<^verbatim>\<open>main\<close> does not get going takes no step.\<close>

lemma exited_run:
  assumes "process_run pf up cl p p'" and "pc_stage p = Exited n"
  shows "p' = p"
  using assms(1)
proof (induction rule: rtranclp_induct)
  case (step q r)
  with assms(2) have "pc_stage q = Exited n" by simp
  with step.hyps(2) have False by (cases rule: process_step.cases) auto
  then show ?case ..
qed simp

lemma main_run:
  assumes "process_run pf up cl (main_start pf a db nt st) p"
  obtains (started) "main_starts pf" and "process_run pf up cl (process_start a db nt st) p"
  | (panicked) "\<not> main_starts pf" and "pc_stage p = Exited 101"
  using assms exited_run [of pf up cl "main_start pf a db nt st" p] by (auto simp: main_start_def split: if_splits)


text \<open>
  C38: how the other commands end. Once main has started them, the migration and the health check end with the code of their
  own result and in no other way: a signal, whose default action the process has replaced,
  changes nothing. The code is 0 exactly when the database was migrated, or when the server
  answered the health check with success.
\<close>

theorem command_process_exit:
  assumes "process_run pf up cl (main_start pf a db nt st) p" and "main_starts pf" and "\<And>config. a \<noteq> Server config"
  shows "(pc_stage p = Starting a \<or> pc_stage p = Exited (exit_code (run_command pf (Done ()) a))) \<and>
    (exit_code (run_command pf (Done ()) a) = 0 \<longleftrightarrow>
      (case a of Migrate m \<Rightarrow> pf_db_connects pf (ma_database_url m) \<and> pf_migrates pf
       | IsHealthy h \<Rightarrow> (\<exists>r. pf_get pf (healthcheck_url (ha_http_listen h)) = Ok r \<and> is_ok (error_for_status r))))"
proof
  have run: "process_run pf up cl (process_start a db nt st) p" using assms(1,2) by (simp add: main_start_def)
  then show "pc_stage p = Starting a \<or> pc_stage p = Exited (exit_code (run_command pf (Done ()) a))"
  proof (induction rule: rtranclp_induct)
    case base
    then show ?case by (simp add: process_start_def)
  next
    case (step q r)
    from step.hyps(2) step.IH show ?case
      using assms(3) by (cases rule: process_step.cases) (cases a; auto)+
  qed
qed (use assms(3) in \<open>cases a; auto simp: run_migrate_def run_healthy_def split: result.splits\<close>)

section \<open>Shutting down\<close>

lemma connections_run:
  assumes "pc_stage p = Serving config" and "Cancel \<notin> set es"
  shows "process_run pf up cl p (p\<lparr>pc_serve := fold serve_event_step es (pc_serve p)\<rparr>)"
  using assms
proof (induction es arbitrary: p)
  case (Cons e es)
  let ?q = "p\<lparr>pc_serve := serve_event_step e (pc_serve p)\<rparr>"
  have "process_step pf up cl p ?q"
    using Cons.prems by (intro process_step.connection [where config = config]) auto
  with Cons.IH [of ?q] Cons.prems show ?case by (auto intro: converse_rtranclp_into_rtranclp)
qed simp

lemma draining_ends:
  "phase s = Draining \<Longrightarrow> running s \<noteq> [] \<Longrightarrow> phase (fold serve_event_step (map Closed_conn (running s)) s) = Ended"
proof (induction "running s" arbitrary: s)
  case (Cons c cs)
  let ?s = "serve_event_step (Closed_conn c) s"
  have "running ?s = cs" "phase ?s = (if cs = [] then Ended else Draining)"
    using Cons.hyps(2) [symmetric] Cons.prems(1) by (simp_all add: reap_def join_all_def Let_def)
  with Cons.hyps(1) [of ?s] show ?case
    unfolding Cons.hyps(2) [symmetric] by (cases "cs = []") simp_all
qed simp

lemma serve_can_end:
  assumes "pc_stage p = Serving config" and "pc_token p" and "serve_ok True (pc_serve p)"
  shows "\<exists>s. process_run pf up cl p (p\<lparr>pc_serve := s\<rparr>) \<and> phase s = Ended"
proof -
  let ?s = "serve_event_step Cancel (pc_serve p)"
  let ?es = "map Closed_conn (running ?s)"
  have first: "process_step pf up cl p (p\<lparr>pc_serve := ?s\<rparr>)"
    using assms(1,2) by (rule process_step.stop_accepting)
  have "phase ?s = Ended \<or> phase ?s = Draining \<and> running ?s \<noteq> []"
    using serve_ok_step [OF assms(3), of Cancel]
    by (cases "phase (pc_serve p)") (auto simp: serve_ok_def join_all_def reap_def Let_def)
  then show ?thesis
  proof
    assume "phase ?s = Ended"
    with first show ?thesis by blast
  next
    assume "phase ?s = Draining \<and> running ?s \<noteq> []"
    then have "phase (fold serve_event_step ?es ?s) = Ended" by (auto intro: draining_ends)
    moreover have "process_run pf up cl (p\<lparr>pc_serve := ?s\<rparr>) (p\<lparr>pc_serve := fold serve_event_step ?es ?s\<rparr>)"
      using connections_run [of "p\<lparr>pc_serve := ?s\<rparr>" config ?es pf up cl] assms(1)
      by (auto simp del: serve_event_step.simps)
    ultimately show ?thesis using converse_rtranclp_into_rtranclp [of "process_step pf up cl", OF first] by blast
  qed
qed

lemma reachable_in_process:
  assumes "reachable (app_state_new up cl config) w w'" and "pc_stage p = Serving config" and "pc_world p = w"
    and "wd_status w' = Stopped \<Longrightarrow> pc_token p"
  shows "process_run pf up cl p (p\<lparr>pc_world := w'\<rparr>)"
  using assms
proof (induction rule: reachable.induct)
  case start
  then have "p\<lparr>pc_world := w\<rparr> = p" by (cases p) simp
  then show ?case by simp
next
  case (next_step s' s'')
  have "wd_status s' = Stopped \<Longrightarrow> wd_status s'' = Stopped"
    using step_no_revival [OF next_step.hyps(2)] by simp
  with next_step have "process_run pf up cl p (p\<lparr>pc_world := s'\<rparr>)" by simp
  moreover have "process_step pf up cl (p\<lparr>pc_world := s'\<rparr>) (p\<lparr>pc_world := s'\<rparr>\<lparr>pc_world := s''\<rparr>)"
    using next_step by (intro process_step.task [where config = config]) auto
  ultimately show ?case by simp
qed

lemma refresher_idles:
  assumes "wd_status s = Waiting"
    and "\<And>m. wd_refreshing s = Fetching m \<Longrightarrow>
      url_parse (sv_upstream sv) (discovery_url (tp_hostname (rq_provider m)) (sv_port sv)) \<noteq> None"
  shows "\<exists>s'. reachable sv s s' \<and> wd_status s' = Waiting \<and> wd_refreshing s' = Idle"
proof -
  have last: "\<exists>s'. reachable sv t s' \<and> wd_status s' = Waiting \<and> wd_refreshing s' = Idle"
    if saving: "wd_status t = Waiting" "wd_refreshing t = Saving m pv" for t m pv
  proof -
    obtain t' where t': "refresh_step sv t = Some t'"
      using refresh_step_enabled [of t sv] saving(2) by (auto simp: unanswered_def)
    from t' show ?thesis
      by (cases rule: refresh_step_cases)
        (use saving step.refresh [OF saving(1) t'] in \<open>auto simp: pieces_left_def intro: next_step [OF start]\<close>)
  qed
  show ?thesis
  proof (cases "wd_refreshing s")
    case Idle
    with assms(1) show ?thesis by (blast intro: start)
  next
    case (Saving m pv)
    with last assms(1) show ?thesis by blast
  next
    case (Fetching m)
    obtain t where t: "refresh_step sv s = Some t"
      using refresh_step_enabled [of s sv] Fetching by (auto simp: unanswered_def)
    note turn = step.refresh [OF assms(1) t]
    from t show ?thesis
    proof (cases rule: refresh_step_cases)
      case moved
      then obtain q pv where "wd_refreshing t = Saving q pv"
        using Fetching by (auto simp: pieces_left_def split: refresh_phase.splits)
      with last [of t q pv] moved(4) assms(1) obtain s' where "reachable sv t s'" "wd_status s' = Waiting" "wd_refreshing s' = Idle"
        by auto
      with reachable_trans [OF next_step [OF start turn]] show ?thesis by blast
    next
      case (answered q resp)
      with assms(1) next_step [OF start turn] show ?thesis by auto
    next
      case (crashed q)
      with assms(2) show ?thesis by simp
    qed
  qed
qed

text \<open>
  C37: a signal ends the server. From any state the server process can get into, once the token is
  cancelled, and unless the refresher is just fetching from a host the URL library rejects, the
  process can end with exit code 0: the accept loop stops and its connections close, and the
  refresher finishes its message and stops.
\<close>

theorem graceful_shutdown:
  assumes "process_run pf up cl (main_start pf (Server config) db nt st) p" and "pc_stage p = Serving config"
    and "pc_token p" and "wd_status (pc_world p) \<noteq> Crashed"
    and "\<And>m. wd_refreshing (pc_world p) = Fetching m \<Longrightarrow>
      url_parse up (discovery_url (tp_hostname (rq_provider m)) (upstream_registry_port config)) \<noteq> None"
  shows "\<exists>p'. process_run pf up cl p p' \<and> pc_stage p' = Exited 0"
proof -
  let ?sv = "app_state_new up cl config"
  have "process_run pf up cl (process_start (Server config) db nt st) p"
    using assms(1,2) by (cases rule: main_run) simp_all
  then have inv: "process_inv pf up config p" using process_run_inv process_inv_start by blast
  have "\<exists>w. reachable ?sv (pc_world p) w \<and> wd_status w = Stopped"
  proof (cases "wd_status (pc_world p) = Stopped")
    case True
    then show ?thesis by (blast intro: start)
  next
    case False
    with assms(4) have "wd_status (pc_world p) = Waiting" by (cases "wd_status (pc_world p)") auto
    with refresher_idles [of "pc_world p" ?sv] assms(5) obtain s where
        s: "reachable ?sv (pc_world p) s" "wd_status s = Waiting" "wd_refreshing s = Idle"
      by (auto simp: app_state_new_def)
    from next_step [OF s(1) step.cancel [OF s(2,3)]] show ?thesis
      by (intro exI conjI) (assumption, simp)
  qed
  then obtain w where w: "reachable ?sv (pc_world p) w" "wd_status w = Stopped" by blast
  let ?q = "p\<lparr>pc_world := w\<rparr>"
  have "process_run pf up cl p ?q"
    using reachable_in_process [OF w(1) assms(2)] assms(3) by simp
  moreover obtain s where s: "process_run pf up cl ?q (?q\<lparr>pc_serve := s\<rparr>)" "phase s = Ended"
    using serve_can_end [of ?q config pf up cl] assms(2,3) inv by (auto simp: process_inv_def)
  moreover have "process_step pf up cl (?q\<lparr>pc_serve := s\<rparr>) (?q\<lparr>pc_serve := s,
      pc_stage := Exited (exit_code (run_command pf (Done ()) (Server config)))\<rparr>)"
    using process_step.tasks_ended [of "?q\<lparr>pc_serve := s\<rparr>" config pf up cl] assms(2) s(2) w(2) by simp
  moreover have "exit_code (run_command pf (Done ()) (Server config)) = 0"
    using inv assms(2) by (simp add: process_inv_def run_server_ends)
  ultimately show ?thesis
    by (intro exI [of _ "?q\<lparr>pc_serve := s, pc_stage := Exited 0\<rparr>"]) (auto intro: rtranclp.rtrancl_into_rtrancl rtranclp_trans)
qed

text \<open>
  C33: one unauthenticated request ends the process. A server that has just started, asked for the
  index of a provider it has no rows of and whose host the URL library rejects, exits with code
  101, though no signal was sent: the steps are the request's own and those of the refresher.
\<close>

theorem bad_host_ends_process:
  assumes "main_starts pf" and "server_starts pf config"
    and "url_parse up (discovery_url h (upstream_registry_port config)) = None"
    and "fst (list_provider_versions h n ty db) = Ok None"
  shows "\<exists>p. process_run pf up cl (main_start pf (Server config) db nt st) p \<and>
    pc_stage p = Exited 101 \<and> \<not> pc_token p"
proof -
  let ?sv = "app_state_new up cl config" and ?p = "main_start pf (Server config) db nt st"
  let ?q = "?p\<lparr>pc_stage := Serving config\<rparr>"
  have "process_step pf up cl ?p ?q"
    using assms(1,2) by (intro process_step.ready) (simp_all add: main_start_def process_start_def)
  moreover obtain w where w: "reachable ?sv (boot db nt st) w" "wd_status w = Crashed"
    using bad_host_takes_server_down [of "boot db nt st" _ h n ty ?sv] assms(3,4)
    by (auto simp: boot_def app_state_new_def)
  then have "process_run pf up cl ?q (?q\<lparr>pc_world := w\<rparr>)"
    using assms(1) by (intro reachable_in_process) (simp_all add: main_start_def process_start_def)
  moreover have "process_step pf up cl (?q\<lparr>pc_world := w\<rparr>) (?q\<lparr>pc_world := w,
      pc_stage := Exited (exit_code (run_command pf Panic (Server config)))\<rparr>)"
    using process_step.task_panicked [of "?q\<lparr>pc_world := w\<rparr>" config pf up cl] w(2) by simp
  moreover have "exit_code (run_command pf Panic (Server config)) = 101"
    using assms(2) by (simp add: run_server_ends)
  ultimately show ?thesis
    by (intro exI [of _ "?q\<lparr>pc_world := w, pc_stage := Exited 101\<rparr>"])
      (use assms(1) in \<open>auto simp: main_start_def process_start_def intro: rtranclp.rtrancl_into_rtrancl converse_rtranclp_into_rtranclp\<close>)
qed

end
