(* ===== verification/Conformance.thy ===== *)
theory Conformance
  imports Process
begin

text \<open>
  The repository's own tests, run on the model: the unit tests of
  \<^verbatim>\<open>src/http/api/v1/credential.rs\<close>, \<^verbatim>\<open>src/credhelper/types.rs\<close> and
  \<^verbatim>\<open>src/config.rs\<close>, the database tests of \<^verbatim>\<open>integration/credhelper\<close>, and the tests of
  \<^verbatim>\<open>integration/main.rs\<close> that start a server and ask for its health. A test is a truth value: its
  assertions, and that no \<^verbatim>\<open>unwrap\<close> or \<^verbatim>\<open>expect\<close> panics.
\<close>

section \<open>The credential API\<close>











section \<open>Tokens on requests\<close>



section \<open>The database store\<close>





section \<open>Configuration\<close>





section \<open>A running server\<close>

text \<open>
  The two tests of the health check. \<open>db\<close>, \<open>prefix\<close> and \<open>port\<close> are the test database, the
  random prefix and the port the system chose. The spawned server's half of a test is that it
  gets to send its notification, which \<^verbatim>\<open>rx.await.unwrap()\<close> needs.
\<close>

definition startup_config :: "arg_parsers \<Rightarrow> string \<Rightarrow> string \<Rightarrow> server_args option" where
  "startup_config ps db prefix =
     Option.bind (parse_url ps ''http://localhost:9000'') (\<lambda>endpoint.
     Option.bind (parse_url ps ''https://localhost:9443/'') (\<lambda>redirect.
     Some \<lparr>http_listen = ''[::1]:0'', http_redirect_url = redirect, database_url = db, database_pool = 3,
       sa_bucket = \<lparr>s3_bucket_name = ''terrashine'', s3_bucket_prefix = prefix @ ''/''\<rparr>, s3_endpoint = Some endpoint,
       refresh_interval = 10000, upstream_registry_port = 443, http_proxy = None, no_proxy = None\<rparr>))"

definition test_server_startup :: "platform \<Rightarrow> arg_parsers \<Rightarrow> string \<Rightarrow> string \<Rightarrow> string \<Rightarrow> bool" where
  "test_server_startup pf ps db prefix port =
     (case startup_config ps db prefix of
        None \<Rightarrow> False
      | Some config \<Rightarrow>
          server_starts pf config \<and>
          (case pf_get pf (''http://localhost:'' @ port @ ''/healthcheck'') of
             Err e \<Rightarrow> False
           | Ok response \<Rightarrow> resp_status response = status_number S_OK))"

definition health_check_config :: "arg_parsers \<Rightarrow> string \<Rightarrow> string \<Rightarrow> server_args option" where
  "health_check_config ps db prefix =
     Option.bind (parse_url ps ''http://localhost:9000'') (\<lambda>endpoint.
     Option.bind (parse_url ps ''https://localhost:9445/mirror/v1/'') (\<lambda>redirect.
     Some \<lparr>http_listen = ''[::1]:9545'', http_redirect_url = redirect, database_url = db, database_pool = 3,
       sa_bucket = \<lparr>s3_bucket_name = ''terrashine'', s3_bucket_prefix = prefix @ ''/''\<rparr>, s3_endpoint = Some endpoint,
       refresh_interval = 10000, upstream_registry_port = 443, http_proxy = None, no_proxy = None\<rparr>))"

definition test_health_check_functionality :: "platform \<Rightarrow> arg_parsers \<Rightarrow> string \<Rightarrow> string \<Rightarrow> bool" where
  "test_health_check_functionality pf ps db prefix =
     (case health_check_config ps db prefix of
        None \<Rightarrow> False
      | Some config \<Rightarrow>
          server_starts pf config \<and> is_ok (run_healthy pf \<lparr>ha_http_listen = ''[::1]:9545''\<rparr>))"

text \<open>
  The environment the two tests are written for: everything a server needs is there, and a
  request to an address the server listens on gets the status of the handler that the router
  gives its path to.
\<close>

definition test_environment :: "platform \<Rightarrow> arg_parsers \<Rightarrow> string \<Rightarrow> bool" where
  "test_environment pf ps port \<longleftrightarrow>
     list_all (pf_cert_parses pf) (pf_native_certs pf) \<and> (\<forall>settings. pf_http_builds pf settings) \<and> pf_local_addr pf \<and> pf_startup_listens pf \<and>
     (\<forall>db. pf_db_connects pf db) \<and> (\<forall>listen. pf_binds pf listen) \<and>
     (\<forall>url \<in> {''http://localhost:9000'', ''https://localhost:9443/'', ''https://localhost:9445/mirror/v1/''}.
        parse_url ps url \<noteq> None) \<and>
     (\<forall>authority \<in> {''localhost:'' @ port, ''[::1]:9545''}. \<forall>path.
        provider_mirror_app Some GET path = Handled Healthcheck_route \<longrightarrow>
        (\<exists>body. pf_get pf (''http://'' @ authority @ path) =
           Ok \<lparr>resp_status = status_number healthcheck_handler, resp_body = body\<rparr>))"

lemma environment_starts:
  "test_environment pf ps port \<Longrightarrow> http_proxy config = None \<Longrightarrow> server_starts pf config"
  by (simp add: test_environment_def server_starts_def run_server_def setup_server_def)

text \<open>In such an environment both tests pass; and the server of a test, to which no signal is
  sent, cannot end before the client is done while the hosts it is asked for are well formed,
  which is the branch of the first test's \<^verbatim>\<open>select!\<close> that fails.\<close>

theorem server_tests_pass:
  assumes env: "test_environment pf ps port"
  shows "test_server_startup pf ps db prefix port" and "test_health_check_functionality pf ps db prefix"
    and "startup_config ps db prefix = Some config \<Longrightarrow> (\<And>h. url_parse up (discovery_url h 443) \<noteq> None) \<Longrightarrow>
      process_run pf up cl (process_start (Server config) pg nt st) p \<Longrightarrow> \<not> pc_token p \<Longrightarrow>
      pc_stage p \<noteq> Exited n"
proof -
  have route: "provider_mirror_app Some GET ''/healthcheck'' = Handled Healthcheck_route" by code_simp
  from env obtain e r h where urls: "parse_url ps ''http://localhost:9000'' = Some e"
      "parse_url ps ''https://localhost:9443/'' = Some r" "parse_url ps ''https://localhost:9445/mirror/v1/'' = Some h"
    by (auto simp: test_environment_def)
  have "\<exists>body. pf_get pf (''http://'' @ authority @ ''/healthcheck'') =
      Ok \<lparr>resp_status = status_number healthcheck_handler, resp_body = body\<rparr>"
    if "authority \<in> {''localhost:'' @ port, ''[::1]:9545''}" for authority
    using env that route by (auto simp: test_environment_def)
  from this [of "''localhost:'' @ port"] this [of "''[::1]:9545''"] obtain b c where
      gets: "pf_get pf (''http://localhost:'' @ port @ ''/healthcheck'') =
        Ok \<lparr>resp_status = status_number healthcheck_handler, resp_body = b\<rparr>"
      "pf_get pf ''http://[::1]:9545/healthcheck'' = Ok \<lparr>resp_status = status_number healthcheck_handler, resp_body = c\<rparr>"
    by auto
  show "test_server_startup pf ps db prefix port"
    using environment_starts [OF env] gets(1) urls
    by (simp add: test_server_startup_def startup_config_def healthcheck_handler_def)
  show "test_health_check_functionality pf ps db prefix"
    using environment_starts [OF env] gets(2) urls
    by (simp add: test_health_check_functionality_def health_check_config_def healthcheck_handler_def run_healthy_def
        healthcheck_url_def error_for_status_def)
  assume config: "startup_config ps db prefix = Some config" and hosts: "\<And>h. url_parse up (discovery_url h 443) \<noteq> None"
    and run: "process_run pf up cl (process_start (Server config) pg nt st) p" and "\<not> pc_token p"
  have c: "http_proxy config = None" "upstream_registry_port config = 443"
    using config urls by (auto simp: startup_config_def)
  have "process_inv pf up config p" using process_run_inv [OF run process_inv_start] .
  from process_inv_exited [OF this _ environment_starts [OF env c(1)]] hosts \<open>\<not> pc_token p\<close>
  show "pc_stage p \<noteq> Exited n" unfolding c(2) by blast
qed

section \<open>All pass\<close>









end
