(* ===== verification/Protocol_Flow.thy ===== *)
theory Protocol_Flow
  imports Router
begin






end
