(* ===== verification/Witnesses.thy ===== *)
theory Witnesses
  imports Samples Conformance Protocol_Flow
begin

text \<open>
  The properties of the development at work: each theorem here applies one property to the
  world of \<open>Samples\<close>, with its hypotheses evaluated there.
\<close>

section \<open>The version endpoint and its links\<close>

lemma sample_list: "list_downloads ''r'' ''n'' ''t'' ''1.0'' sample_db =
   (Ok [\<lparr>dl_os = ''linux'', dl_arch = ''amd64'', dl_id = 1\<rparr>, \<lparr>dl_os = ''darwin'', dl_arch = ''arm64'', dl_id = 2\<rparr>], sample_db)"
  by (simp add: list_downloads_def select_downloads_def sample_defs)

lemma sample_versions:
  "version_endpoint ''https://m/mirror/v1/'' sample_provider (''1.0'' @ json_suffix) sample_db =
    (Done (Some (Ok \<lparr>archives = [''linux_amd64'' \<mapsto> \<lparr>tpi_url = ''https://m/mirror/v1/artifacts/1''\<rparr>,
       ''darwin_arm64'' \<mapsto> \<lparr>tpi_url = ''https://m/mirror/v1/artifacts/2''\<rparr>]\<rparr>)), sample_db)"
  unfolding version_endpoint_json
  by (simp add: sample_provider_def sample_list mirror_version_build_def hash_map_def archive_name_def
      build_url_def show_int_one)

lemma ambiguous_versions:
  "version_endpoint ''https://m/mirror/v1/'' sample_provider (''1.0'' @ json_suffix) ambiguous_db =
    (Done (Some (Ok \<lparr>archives = [''a_b_c'' \<mapsto> \<lparr>tpi_url = ''https://m/mirror/v1/artifacts/2''\<rparr>]\<rparr>)), ambiguous_db)"
  unfolding version_endpoint_json
  by (simp add: sample_provider_def list_downloads_def select_downloads_def sample_defs
      mirror_version_build_def hash_map_def archive_name_def build_url_def show_int_one)

lemma sample_rows: "version_rows sample_db sample_provider ''1.0'' =
    {sample_row 1 ''linux'' ''amd64'' None, sample_row 2 ''darwin'' ''arm64'' (Some 1)}"
  by (auto simp: version_rows_def sample_defs id_keys_def provider_key_def provider_triple_def)

lemma ambiguous_rows: "version_rows ambiguous_db sample_provider ''1.0'' =
    {sample_row 1 ''a_b'' ''c'' None, sample_row 2 ''a'' ''b_c'' None}"
  by (auto simp: version_rows_def sample_defs id_keys_def provider_key_def provider_triple_def)

theorem version_endpoint_total_witness:
  "\<exists>r. fst (version_endpoint [] sample_provider ''1.0'' sample_db) = Done r \<and> r = None"
  using version_endpoint_total [of "[]" sample_provider "''1.0''" sample_db]
  by (auto simp: ends_with_def json_suffix_def)

theorem version_endpoint_sound_witness:
  "\<exists>v version digits. ''1.0.json'' = version @ json_suffix \<and> v \<in> version_rows sample_db sample_provider version \<and>
    ''linux_amd64'' = row_archive v \<and>
    ''https://m/mirror/v1/artifacts/1'' = ''https://m/mirror/v1/'' @ ''artifacts/'' @ digits \<and>
    parse_i64 digits = Some (vr_id v)"
  using version_endpoint_sound [OF sample_db_wf(1) sample_versions, of "''linux_amd64''"
      "\<lparr>tpi_url = ''https://m/mirror/v1/artifacts/1''\<rparr>"]
  by (simp add: json_suffix_def)

theorem version_endpoint_complete_witness:
  "\<exists>v \<in> version_rows sample_db sample_provider ''1.0''. ''darwin_arm64'' = row_archive v \<and>
    \<lparr>tpi_url = ''https://m/mirror/v1/artifacts/2''\<rparr> = \<lparr>tpi_url = build_url ''https://m/mirror/v1/'' (vr_id v)\<rparr>"
  using version_endpoint_complete [OF sample_db_wf(1) sample_versions, of "''darwin_arm64''"
      "\<lparr>tpi_url = ''https://m/mirror/v1/artifacts/2''\<rparr>"]
  by (auto simp: sample_rows) (auto simp: sample_row_def)

theorem version_endpoint_collision_witness:
  "card (dom [''a_b_c'' \<mapsto> \<lparr>tpi_url = ''https://m/mirror/v1/artifacts/2''\<rparr>]) <
     card (version_rows ambiguous_db sample_provider ''1.0'')"
  using version_endpoint_collision [OF ambiguous_versions, of "sample_row 1 ''a_b'' ''c'' None" "sample_row 2 ''a'' ''b_c'' None"]
  by (simp add: ambiguous_rows sample_row_def row_archive_def archive_name_def)

theorem version_links_route_back_witness:
  "\<exists>path v. ''https://m/mirror/v1/artifacts/1'' = ''https://m'' @ path \<and>
    v \<in> version_rows sample_db sample_provider ''1.0'' \<and>
    artifact_route_id (provider_mirror_app Some GET path) = Some (vr_id v)"
  using version_links_route_back [of sample_db "''https://m''" sample_provider "''1.0''"
      "\<lparr>archives = [''linux_amd64'' \<mapsto> \<lparr>tpi_url = ''https://m/mirror/v1/artifacts/1''\<rparr>,
       ''darwin_arm64'' \<mapsto> \<lparr>tpi_url = ''https://m/mirror/v1/artifacts/2''\<rparr>]\<rparr>" sample_db "''linux_amd64''"
      "\<lparr>tpi_url = ''https://m/mirror/v1/artifacts/1''\<rparr>" Some] sample_db_wf(1) sample_versions
  by simp

lemma origin_versions:
  "version_endpoint ''https://m/'' sample_provider (''1.0'' @ json_suffix) sample_db =
    (Done (Some (Ok \<lparr>archives = [''linux_amd64'' \<mapsto> \<lparr>tpi_url = ''https://m/artifacts/1''\<rparr>,
       ''darwin_arm64'' \<mapsto> \<lparr>tpi_url = ''https://m/artifacts/2''\<rparr>]\<rparr>)), sample_db)"
  unfolding version_endpoint_json
  by (simp add: sample_provider_def sample_list mirror_version_build_def hash_map_def archive_name_def
      build_url_def show_int_one)

theorem origin_redirect_unroutable_witness:
  "\<exists>path. ''https://m/artifacts/1'' = ''https://m'' @ path \<and> provider_mirror_app Some GET path = Not_found"
  using origin_redirect_unroutable [of "''https://m''" sample_provider "''1.0''" sample_db
      "\<lparr>archives = [''linux_amd64'' \<mapsto> \<lparr>tpi_url = ''https://m/artifacts/1''\<rparr>,
       ''darwin_arm64'' \<mapsto> \<lparr>tpi_url = ''https://m/artifacts/2''\<rparr>]\<rparr>" sample_db "''linux_amd64''"
      "\<lparr>tpi_url = ''https://m/artifacts/1''\<rparr>" Some] origin_versions
  by simp

section \<open>Uploads, artifacts, the client and the catalogue\<close>

definition sample_upload :: "(unit, anyhow_error) result \<times> bucket_state s3" where
  "sample_upload = stash_upload sample_s3_client ''b'' ''k'' [Ok [1], Ok [2]] sample_s3"

lemma sample_upload_ok: "is_ok (fst sample_upload)"
  by (simp add: sample_upload_def stash_upload_def s3_do_def sample_s3_client_def send_part_def stash_rest_def
      s3_minimum_upload_chunk_bytes_def)

theorem stash_upload_stores_witness:
  "\<exists>cs. ([Ok [1], Ok [2]] :: (bytes, reqwest_error) result list) = map Ok cs \<and> stored_objects (s3_peer (snd sample_upload)) ''b'' ''k'' = Some (concat cs)"
  using stash_upload_stores [OF sample_s3_laws, of "''b''" "''k''" "[Ok [1], Ok [2]]" sample_s3
      "fst sample_upload" "snd sample_upload"] sample_upload_ok
  by (simp add: sample_upload_def s3_minimum_upload_chunk_bytes_def map_filter_simps)

definition sample_artifact_world :: "(unit, bucket_state) artifact_world" where
  "sample_artifact_world = \<lparr>aw_db = sample_db, aw_net = sample_net, aw_s3 = sample_s3\<rparr>"

definition sample_request :: "int \<Rightarrow> (redirect, status_code) result run \<times> (unit, bucket_state) artifact_world" where
  "sample_request i =
     artifacts_handler sample_upstream 443 sample_s3_client sample_args Allocate_first i sample_artifact_world"

theorem artifacts_handler_safe_witness:
  "pg_wf (aw_db (snd (sample_request 1))) \<and>
   artifacts_present stored_objects sample_args (aw_db (snd (sample_request 1))) (aw_s3 (snd (sample_request 1))) \<and>
   safe_answer sample_s3_client stored_objects sample_args 1 (fst (sample_request 1))
     (aw_db (snd (sample_request 1))) (aw_s3 (snd (sample_request 1)))"
  using artifacts_handler_safe [OF sample_s3_laws sample_bodies, of sample_artifact_world sample_args 443
      Allocate_first 1 "fst (sample_request 1)" "snd (sample_request 1)"]
    sample_db_wf(1) sample_present
  by (simp add: sample_artifact_world_def sample_request_def)

theorem read_body_limit_cuts_off_witness:
  "\<exists>n \<le> 3 + 1. \<forall>rest. fst (read_body_limit [] (map (\<lambda>i. Ok [7]) [0..<n] @ rest) 3) = Err (ProviderResponseTooLarge 3)"
  using read_body_limit_cuts_off [of "\<lambda>_. [7]" 3] by simp

definition sample_get :: "(provider_versions, terrashine_error) result run \<times> pg \<times> unit net" where
  "sample_get = provider_get sample_upstream 443 database_helper (json_versions sample_upstream) ''r'' ''n/t/versions'' sample_db sample_net"

theorem provider_get_wire_witness:
  "\<exists>reqs. sent (snd (snd sample_get)) = reqs \<and> length reqs \<le> 2 \<and>
    (\<forall>req \<in> set (take 1 reqs). req_headers req = []) \<and>
    (\<forall>req \<in> set (drop 1 reqs). req_headers req = [(''authorization'', ''Bearer secret'')])"
  using provider_get_wire [OF sample_db_wf(1), of sample_upstream 443 "json_versions sample_upstream" "''r''"
      "''n/t/versions''" sample_net "fst sample_get" "fst (snd sample_get)" "snd (snd sample_get)"]
  by (simp add: sample_get_def sample_net_def database_view_def sample_defs)


lemma sample_registry_url: "registry_url ''r'' 443 = ''https://r:443''"
  by code_simp

lemmas client_defs = provider_get_def discover_services_def sample_discovery_url
    fetch_json_def http_send_def sample_net_def error_for_status_def
    discovery_response_size_max_bytes_def registry_metadata_size_max_bytes_def provider_url_def sample_registry_url
    transform_def database_helper_def database_get_def select_auth_token_def sample_defs


theorem mirror_version_roundtrip_witness:
  "mirror_version_of_json (JObject [(''archives'', JObject [(''linux_amd64'', JObject [(''url'', JString ''u'')])])]) =
    Ok \<lparr>archives = [''linux_amd64'' \<mapsto> \<lparr>tpi_url = ''u''\<rparr>]\<rparr>"
  using mirror_version_roundtrip [of "[''linux_amd64'']" "\<lparr>archives = [''linux_amd64'' \<mapsto> \<lparr>tpi_url = ''u''\<rparr>]\<rparr>"]
  by (simp add: mirror_version_json_def map_json_def)




definition sample_store :: "(nat, terrashine_error) result \<times> pg" where
  "sample_store = store_provider_versions ''r'' ''n'' ''t'' sample_listing sample_db"

lemmas store_defs = store_provider_versions_def begin_transaction_def upsert_provider_def nextval_def
  provider_check_def provider_key_def insert_versions_def version_check_def version_key_def commit_def abandon_def
  unnest_def char_length_def is_continuation_def i64_max_def

lemma sample_store_eval: "fst sample_store = Ok 1"
  by (simp add: sample_store_def sample_listing_def sample_defs store_defs)

lemma sample_store_again:
  "fst (store_provider_versions ''r'' ''n'' ''t'' sample_listing (snd sample_store)) = Ok 0"
  by (simp add: sample_store_def sample_listing_def sample_defs store_defs)


theorem store_provider_versions_idempotent_witness:
  "versions (snd (store_provider_versions ''r'' ''n'' ''t'' sample_listing (snd sample_store))) = versions (snd sample_store)"
  using store_provider_versions_idempotent [OF sample_db_wf(1), of "''r''" "''n''" "''t''" sample_listing 1
      "snd sample_store" 0 "snd (store_provider_versions ''r'' ''n'' ''t'' sample_listing (snd sample_store))"]
    sample_store_eval sample_store_again
  by (metis prod.collapse sample_store_def)

section \<open>Refreshing and the index\<close>

definition sample_refresh :: "(provider_versions, terrashine_error) result run \<times> pg \<times> unit net" where
  "sample_refresh = refresh_versions sample_upstream 443 sample_provider sample_db sample_net"

lemma sample_refresh_ok: "fst sample_refresh = Done (Ok sample_listing)"
  by (simp add: sample_refresh_def refresh_versions_def client_defs
    store_defs sample_listing_def)

lemma sample_relist: "\<exists>listing. fst (list_provider_versions ''r'' ''n'' ''t'' (fst (snd sample_refresh))) = Ok listing"
  by (simp add: sample_refresh_def refresh_versions_def client_defs
    store_defs sample_listing_def list_provider_versions_def
    select_versions_def)

theorem listing_after_refresh_witness:
  "\<exists>listing. listed_versions listing = fst ` catalog sample_db sample_provider \<union> {''2.0''}"
proof -
  have run: "refresh_versions sample_upstream 443 sample_provider sample_db sample_net =
      (Done (Ok sample_listing), fst (snd sample_refresh), snd (snd sample_refresh))"
    using sample_refresh_ok by (simp add: sample_refresh_def prod_eq_iff)
  obtain listing where "list_provider_versions (tp_hostname sample_provider) (tp_namespace sample_provider)
      (tp_type sample_provider) (fst (snd sample_refresh)) =
    (Ok listing, snd (list_provider_versions ''r'' ''n'' ''t'' (fst (snd sample_refresh))))"
    using sample_relist by (auto simp: sample_provider_def prod_eq_iff)
  from listing_after_refresh [OF sample_db_wf(1) run this] show ?thesis
    by (intro exI [of _ listing]) (auto simp: sample_listing_def)
qed








definition sample_state :: "unit refresher_state" where
  "sample_state = \<lparr>last_refresh = Map.empty, rs_db = sample_db, rs_net = sample_net\<rparr>"

definition sample_message :: refresh_request where
  "sample_message = \<lparr>rq_provider = sample_provider, rq_response_channel = Some 0\<rparr>"

lemma sample_handled:
  "\<exists>db nt. handle_request sample_upstream 443 100 sample_message c d sample_state =
    (Done (RefreshPerformed (Ok sample_listing)), sample_state\<lparr>rs_db := db, rs_net := nt, last_refresh := [sample_provider \<mapsto> d]\<rparr>)"
proof -
  obtain db nt where "refresh_versions sample_upstream 443 sample_provider sample_db sample_net = (Done (Ok sample_listing), db, nt)"
    using sample_refresh_ok unfolding sample_refresh_def by (metis prod.collapse)
  then show ?thesis
    by (intro exI [of _ db] exI [of _ nt])
      (simp add: handle_request_def refresh_provider_def sample_message_def sample_state_def)
qed

lemma sample_message_provider [simp]: "rq_provider sample_message = sample_provider"
  by (simp add: sample_message_def)

lemma sample_second:
  assumes "handle_request sample_upstream 443 100 sample_message 0 5 sample_state = (Done resp, st)"
    and "last_refresh st sample_provider = Some 5"
  shows "\<exists>r st'. handle_request sample_upstream 443 100 sample_message 200 201 st = (Done (RefreshPerformed r), st')"
proof -
  obtain x st' where x: "handle_request sample_upstream 443 100 sample_message 200 201 st = (x, st')" by fastforce
  have "x \<noteq> Panic"
    using handle_request_Panic [of sample_upstream 443 100 sample_message 200 201 st st'] x
    by (auto simp: sample_provider_def sample_discovery_url)
  moreover have "x \<noteq> Done ProviderVersionNotStale"
    using x assms(2) handle_request_not_stale [of sample_upstream 443 100 sample_message 200 201 st st'] by auto
  ultimately show ?thesis using x by (cases x) (auto, metis refresh_response.exhaust)
qed

theorem refresher_rate_limit_witness: "(5::nat) + 100 < 200"
proof -
  obtain db nt where one: "handle_request sample_upstream 443 100 sample_message 0 5 sample_state =
    (Done (RefreshPerformed (Ok sample_listing)), sample_state\<lparr>rs_db := db, rs_net := nt, last_refresh := [sample_provider \<mapsto> 5]\<rparr>)"
    (is "_ = (_, ?st)") using sample_handled by blast
  from sample_second [OF one] obtain r st' where
      two: "handle_request sample_upstream 443 100 sample_message 200 201 ?st = (Done (RefreshPerformed r), st')" by auto
  have "fst (refresher sample_upstream 443 100 [Received sample_message 0 5, Received sample_message 200 201] sample_state) =
      [] @ (sample_message, RefreshPerformed (Ok sample_listing), 0, 5) # [(sample_message, RefreshPerformed r, 200, 201)]"
    using one two by simp
  from refresher_rate_limit [OF _ this, of 0] show ?thesis by simp
qed

theorem refresher_in_order_witness:
  "received [Received sample_message 0 5, Cancelled] = [sample_message] \<and>
   (\<exists>h e st' rest. refresher sample_upstream 443 100 [Received sample_message 0 5, Cancelled] sample_state = (h, e, st') \<and>
     [sample_message] = map fst h @ rest)"
  using refresher_in_order [of sample_upstream 443 100 "[Received sample_message 0 5, Cancelled]" sample_state]
  by auto

definition broken_upstream :: "unit upstream" where
  "broken_upstream = sample_upstream\<lparr>http_reply := (\<lambda>req p. (Err (Transport ''timeout''), p))\<rparr>"

lemma broken_handled:
  "\<exists>st. handle_request broken_upstream 443 100 sample_message c d sample_state =
    (Done (RefreshPerformed (Err (ProviderResponseFailure (Transport ''timeout'')))), st)"
  by (simp add: handle_request_def refresh_provider_def sample_message_def sample_state_def refresh_versions_def
    provider_get_def discover_services_def sample_discovery_url broken_upstream_def sample_upstream_def fetch_json_def
    http_send_def sample_net_def sample_provider_def)

theorem failed_first_refresh_retried_witness:
  "\<exists>st. fst (handle_request broken_upstream 443 100 sample_message 1 1 st) \<noteq> Done ProviderVersionNotStale"
proof -
  obtain st where "handle_request broken_upstream 443 100 sample_message 0 0 sample_state =
    (Done (RefreshPerformed (Err (ProviderResponseFailure (Transport ''timeout'')))), st)"
    using broken_handled by blast
  from failed_first_refresh_retried [OF _ this refl, of 1 1] show ?thesis
    by (auto simp: sample_state_def)
qed

theorem index_429_iff_refused_witness:
  "ha_status (index_response (index_reply sample_provider (Some (RefreshPerformed (Ok sample_listing))))) \<noteq> S_TOO_MANY_REQUESTS"
proof -
  obtain db nt where one: "handle_request sample_upstream 443 100 sample_message 0 5 sample_state =
    (Done (RefreshPerformed (Ok sample_listing)), sample_state\<lparr>rs_db := db, rs_net := nt, last_refresh := [sample_provider \<mapsto> 5]\<rparr>)"
    using sample_handled by blast
  from index_429_iff_refused [OF one, of sample_provider] show ?thesis by (simp add: sample_state_def)
qed


theorem index_request_progress_witness:
  "fst (index_start ''r'' ''n'' ''t'' 0 sample_db new_channel) = Responded (Ok (index_of_strings [''1.0'', ''1.0'']))"
  using index_request_progress [of "''r''" "''n''" "''t''" 0 sample_db new_channel
      "fst (index_start ''r'' ''n'' ''t'' 0 sample_db new_channel)"
      "fst (snd (index_start ''r'' ''n'' ''t'' 0 sample_db new_channel))"
      "snd (snd (index_start ''r'' ''n'' ''t'' 0 sample_db new_channel))"]
  by (simp add: list_provider_versions_def select_versions_def sample_defs)

section \<open>The API, the process and the running server\<close>

definition sample_session :: "reply list \<times> pg api_state" where
  "sample_session = session database_helper \<lparr>credentials = sample_db\<rparr>
     [Get ''r'', Delete ''r'', Get ''r'', Post ''r'' \<lparr>ur_data = \<lparr>ud_token = ''x''\<rparr>\<rparr>, Get ''r'']"

lemma sample_session_statuses:
  "map fst (fst sample_session) = [S_OK, S_OK, S_NOT_FOUND, S_OK, S_OK]"
  by (simp add: sample_session_def exists_def delete_def update_def database_helper_def database_get_def
    database_forget_def database_store_def select_auth_token_def upsert_host_def delete_host_def
    nextval_def host_check_def char_length_def is_continuation_def i64_max_def sample_defs)

theorem credential_api_refines_witness:
  "pg_wf (credentials (snd sample_session)) \<and>
   abstract_session (database_view sample_db)
     [Get ''r'', Delete ''r'', Get ''r'', Post ''r'' \<lparr>ur_data = \<lparr>ud_token = ''x''\<rparr>\<rparr>, Get ''r'']
     [S_OK, S_OK, S_NOT_FOUND, S_OK, S_OK] (database_view (credentials (snd sample_session)))"
  using credential_api_refines [OF sample_db_wf(1), of
      "[Get ''r'', Delete ''r'', Get ''r'', Post ''r'' \<lparr>ur_data = \<lparr>ud_token = ''x''\<rparr>\<rparr>, Get ''r'']"
      "fst sample_session" "snd sample_session"] sample_session_statuses
  by (simp add: sample_session_def)

definition sample_memory :: memory_credentials where
  "sample_memory = \<lparr>mem_map = [''r'' \<mapsto> Some ''secret''], mem_lock = Unlocked\<rparr>"

lemma sample_memory_session:
  "session memory_helper \<lparr>credentials = sample_memory\<rparr> [Get ''r'', Delete ''r'', Get ''r''] =
     ([(S_OK, exists_data True), (S_OK, empty_data), (S_NOT_FOUND, exists_data False)],
      \<lparr>credentials = \<lparr>mem_map = Map.empty, mem_lock = Unlocked\<rparr>\<rparr>)"
  by (simp add: sample_memory_def exists_def delete_def memory_defs)

theorem memory_agrees_with_database_witness:
  "fst (session database_helper \<lparr>credentials = sample_db\<rparr> [Get ''r'', Delete ''r'', Get ''r'']) =
     [(S_OK, exists_data True), (S_OK, empty_data), (S_NOT_FOUND, exists_data False)]"
proof -
  have 1: "stores_agree (length [Get ''r'', Delete ''r'', Get ''r'']) sample_memory sample_db"
    by (simp add: stores_agree_def fun_eq_iff memory_view_def database_view_def sample_memory_def i64_max_def
        sample_defs)
  have 2: "\<forall>q \<in> set [Get ''r'', Delete ''r'', Get ''r'']. host_check (request_host q)"
    by (simp add: host_check_def char_length_def is_continuation_def)
  show ?thesis
    using memory_agrees_with_database [OF 1 2] unfolding sample_memory_session fst_conv by (rule conjunct1 [THEN sym])
qed

theorem serve_drains_witness:
  "phase (serve [Accepted 0, Accept_failed, Cancel, Accepted 1, Closed_conn 0]) = Ended"
proof -
  have "fresh_connections [Accepted 0, Accept_failed, Cancel, Accepted 1, Closed_conn 0]"
    by (auto simp: fresh_connections_def Cons_eq_append_conv)
  from serve_drains [OF this] show ?thesis by simp
qed

definition sample_platform :: platform where
  "sample_platform = \<lparr>pf_recorder_installs = True, pf_signals_register = True,
     pf_native_certs = [], pf_cert_parses = (\<lambda>_. True), pf_db_connects = (\<lambda>_. True), pf_proxy_parses = (\<lambda>_. True),
     pf_http_builds = (\<lambda>_. True), pf_binds = (\<lambda>_. True), pf_local_addr = True, pf_startup_listens = True,
     pf_migrates = True, pf_get = (\<lambda>url. Ok \<lparr>resp_status = 200, resp_body = []\<rparr>)\<rparr>"

theorem healthy_server_is_healthy_witness:
  "exit_code (run_command sample_platform (Done ()) (IsHealthy \<lparr>ha_http_listen = default_socket\<rparr>)) = 0"
  using healthy_server_is_healthy [of sample_platform "\<lparr>ha_http_listen = default_socket\<rparr>" "[]" "Done ()" Some]
  by (simp add: sample_platform_def healthcheck_handler_def)

definition sample_parsers :: arg_parsers where
  "sample_parsers = \<lparr>parse_url = Some, cannot_be_a_base = (\<lambda>_. False), parse_socket_addr = Some,
     parse_pg_options = Some, parse_duration = (\<lambda>_. Some 3600), parse_no_proxy_list = Some,
     parse_u32 = (\<lambda>_. Some 5), parse_u16 = (\<lambda>_. Some 443)\<rparr>"

definition sample_call :: invocation where
  "sample_call = \<lparr>flags = [''s3-bucket-name'' \<mapsto> ''b''],
     environment = [''TERRASHINE_HTTP_REDIRECT_URL'' \<mapsto> ''https://m/'']\<rparr>"

definition sample_config :: server_args where
  "sample_config = \<lparr>http_listen = default_socket, http_redirect_url = ''https://m/'',
     database_url = default_database_url, database_pool = 5,
     sa_bucket = \<lparr>s3_bucket_name = ''b'', s3_bucket_prefix = []\<rparr>, s3_endpoint = None, refresh_interval = 3600,
     upstream_registry_port = 443, http_proxy = None, no_proxy = None\<rparr>"

lemma sample_parsed: "parse_args sample_parsers Server_command sample_call = Ok (Server sample_config)"
  by (simp add: parse_args_def parse_server_args_def and_then_def arg_required_def arg_optional_def arg_text_def
    sample_parsers_def sample_call_def sample_config_def value_of_def validate_redirect_url_def parse_humantime_def
    ends_with_def)

theorem parsed_configuration_witness:
  "\<exists>url_text. environment sample_call ''TERRASHINE_HTTP_REDIRECT_URL'' = Some url_text \<and> ends_with url_text ''/'' \<and>
    sv_interval (app_state_new sample_upstream sample_s3_client sample_config) = 3600"
  using parsed_configuration [OF sample_parsed refl, of sample_upstream sample_s3_client]
  by (auto simp: sample_call_def sample_parsers_def)



end
