(* ===== verification/Cluster.thy ===== *)
theory Cluster
  imports Mirror_System Artifact_Content "HOL-Library.Countable"
begin

text \<open>
  Several servers on one database and one bucket, which is how the documentation deploys the
  mirror for high availability. Each server takes the steps of \<open>Mirror_System\<close> on its own
  memory and the shared storage, and may be restarted at any time, which loses its memory. The
  requests of all servers are gathered into one map, so that a step of one of them is a step of
  a single server with all requests, and the invariant of the single server carries over.
\<close>

section \<open>Several servers\<close>

text \<open>The copies of database and bucket that the memories hold are stale; \<open>node\<close> is a server's
  view, and \<open>put_node\<close> takes over what it did. A restart finds the network in any state; only the
  log of what the server has sent goes on.\<close>

record ('n, 's) cluster =
  cl_db :: pg
  cl_s3 :: "'s s3"
  cl_nodes :: "nat \<Rightarrow> ('n, 's) world"

definition node :: "nat \<Rightarrow> ('n, 's) cluster \<Rightarrow> ('n, 's) world" where
  "node k c = (set_db (cl_db c) (cl_nodes c k))\<lparr>wd_s3 := cl_s3 c\<rparr>"

definition put_node :: "nat \<Rightarrow> ('n, 's) world \<Rightarrow> ('n, 's) cluster \<Rightarrow> ('n, 's) cluster" where
  "put_node k s c = \<lparr>cl_db = wd_db s, cl_s3 = wd_s3 s, cl_nodes = (cl_nodes c)(k := s)\<rparr>"

inductive cluster_step :: "(nat \<Rightarrow> ('n, 's) server) \<Rightarrow> ('n, 's) cluster \<Rightarrow> ('n, 's) cluster \<Rightarrow> bool" for sv where
  turn: "step (sv k) (node k c) s \<Longrightarrow> cluster_step sv c (put_node k s c)"
| restart: "sent nt = sent (rs_net (wd_refresher (cl_nodes c k))) \<Longrightarrow>
    cluster_step sv c (put_node k (boot (cl_db c) nt (cl_s3 c)) c)"

definition cluster_boot :: "pg \<Rightarrow> (nat \<Rightarrow> 'n net) \<Rightarrow> 's s3 \<Rightarrow> ('n, 's) cluster" where
  "cluster_boot db nts st = \<lparr>cl_db = db, cl_s3 = st, cl_nodes = (\<lambda>k. boot db (nts k) st)\<rparr>"

abbreviation cluster_run :: "(nat \<Rightarrow> ('n, 's) server) \<Rightarrow> ('n, 's) cluster \<Rightarrow> ('n, 's) cluster \<Rightarrow> bool" where
  "cluster_run sv \<equiv> (cluster_step sv)\<^sup>*\<^sup>*"

text \<open>Servers of one deployment differ in refresh interval and redirect URL at most.\<close>

definition same_deployment :: "('n, 's) server \<Rightarrow> (nat \<Rightarrow> ('n, 's) server) \<Rightarrow> bool" where
  "same_deployment cfg sv \<longleftrightarrow>
     (\<forall>k. sv_upstream (sv k) = sv_upstream cfg \<and> sv_port (sv k) = sv_port cfg \<and>
        sv_s3_client (sv k) = sv_s3_client cfg \<and> sv_bucket (sv k) = sv_bucket cfg)"

lemma node_simps [simp]:
  "wd_db (node k c) = cl_db c" "wd_s3 (node k c) = cl_s3 c" "wd_artifacts (node k c) = wd_artifacts (cl_nodes c k)"
  "wd_refreshing (node k c) = wd_refreshing (cl_nodes c k)" "wd_status (node k c) = wd_status (cl_nodes c k)"
  "wd_index (node k c) = wd_index (cl_nodes c k)" "wd_channel (node k c) = wd_channel (cl_nodes c k)"
  "wd_next (node k c) = wd_next (cl_nodes c k)" "wd_time (node k c) = wd_time (cl_nodes c k)"
  by (simp_all add: node_def set_db_def)

lemma put_node_simps [simp]:
  "cl_db (put_node k s c) = wd_db s" "cl_s3 (put_node k s c) = wd_s3 s"
  "cl_nodes (put_node k s c) = (cl_nodes c)(k := s)" "node k (put_node k s c) = s"
  by (simp_all add: put_node_def node_def set_db_def)

section \<open>All requests of all servers\<close>

text \<open>Request \<open>i\<close> of server \<open>k\<close> becomes request \<open>prod_encode (k, i)\<close>.\<close>

definition gather :: "(nat \<Rightarrow> requests) \<Rightarrow> requests" where
  "gather R = (\<lambda>n. case prod_decode n of (k, i) \<Rightarrow> R k i)"

lemma gather_at [simp]: "gather R (prod_encode (k, i)) = R k i"
  by (simp add: gather_def)

lemma gather_update: "gather (R(k := (R k)(i := x))) = (gather R)(prod_encode (k, i) := x)"
proof
  fix n
  obtain j l where "n = prod_encode (j, l)" by (metis prod_decode_inverse surj_pair)
  then show "gather (R(k := (R k)(i := x))) n = ((gather R)(prod_encode (k, i) := x)) n"
    by (auto simp: prod_encode_eq)
qed

lemma gather_Some: "gather R n = Some ph \<Longrightarrow> \<exists>k i. n = prod_encode (k, i) \<and> R k i = Some ph"
  by (metis gather_at prod_decode_inverse surj_pair)

abbreviation with_requests :: "requests \<Rightarrow> ('n, 's) world \<Rightarrow> ('n, 's) world" where
  "with_requests rs s \<equiv> s\<lparr>wd_artifacts := rs\<rparr>"

lemma with_requests_inside:
  "with_requests rs (s\<lparr>wd_refresher := a\<rparr>) = (with_requests rs s)\<lparr>wd_refresher := a\<rparr>"
  "with_requests rs (s\<lparr>wd_channel := b\<rparr>) = (with_requests rs s)\<lparr>wd_channel := b\<rparr>"
  "with_requests rs (s\<lparr>wd_index := d\<rparr>) = (with_requests rs s)\<lparr>wd_index := d\<rparr>"
  "with_requests rs (s\<lparr>wd_next := n\<rparr>) = (with_requests rs s)\<lparr>wd_next := n\<rparr>"
  "with_requests rs (s\<lparr>wd_time := n\<rparr>) = (with_requests rs s)\<lparr>wd_time := n\<rparr>"
  "with_requests rs (s\<lparr>wd_status := e\<rparr>) = (with_requests rs s)\<lparr>wd_status := e\<rparr>"
  by simp_all

lemma set_db_requests: "set_db db (with_requests rs s) = with_requests rs (set_db db s)"
  by (simp add: set_db_def)

lemma refresh_step_requests:
  "refresh_step sv (with_requests rs s) = map_option (with_requests rs) (refresh_step sv s)"
  by (auto simp: refresh_step_def advance_def Let_def split: refresh_phase.split option.split prod.split run.split)

lemma artifact_step_requests:
  "artifact_step sv half ph (with_requests rs s) = map_option (apsnd (with_requests rs)) (artifact_step sv half ph s)"
  by (simp add: artifact_step_def artifact_view_def put_view_def map_option_case split: option.split prod.split)

lemma refresh_step_artifacts: "refresh_step sv s = Some s' \<Longrightarrow> wd_artifacts s' = wd_artifacts s"
  by (auto simp: refresh_step_def advance_def Let_def split: refresh_phase.splits option.splits prod.splits run.splits)

lemma step_gather:
  assumes "step sv s s'" and "wd_artifacts s = R k"
  shows "step sv (with_requests (gather R) s) (with_requests (gather (R(k := wd_artifacts s'))) s')"
    (is "step sv ?s ?s'")
  using assms(1)
proof (cases rule: step.cases)
  case (tick t)
  with step.tick [of ?s t sv] assms(2) show ?thesis by (simp add: with_requests_inside)
next
  case (index_request h n ty ph db ch)
  with step.index_request [of ?s h n ty ph db ch sv] assms(2) show ?thesis
    by (simp add: set_db_def with_requests_inside)
next
  case (index_send i tp t ph ch)
  with step.index_send [of ?s i tp t ph ch sv] assms(2) show ?thesis by (simp add: with_requests_inside)
next
  case refresh
  with step.refresh [of ?s sv ?s'] refresh_step_artifacts [of sv s s'] assms(2) show ?thesis
    by (simp add: refresh_step_requests)
next
  case cancel
  with step.cancel [of ?s sv] assms(2) show ?thesis by (simp add: with_requests_inside)
next
  case (disconnect i)
  with step.disconnect [of sv ?s i] assms(2) show ?thesis by (simp add: with_requests_inside)
next
  case (credentials r a st)
  with step.credentials [of ?s r a st sv] assms(2) show ?thesis by (simp add: set_db_def with_requests_inside)
next
  case (version_request tp segment r db)
  with step.version_request [of ?s sv tp segment r db] assms(2) show ?thesis by (simp add: set_db_def with_requests_inside)
next
  case (artifact_request i vid ph db)
  with step.artifact_request [of ?s "prod_encode (k, i)" sv vid ph db] assms(2) show ?thesis
    by (simp add: set_db_def gather_update with_requests_inside)
next
  case (artifact_piece i ph half ph' t)
  with step.artifact_piece [of ?s "prod_encode (k, i)" ph sv half ph' "with_requests (gather R) t"] assms(2) show ?thesis
    by (simp add: artifact_step_requests gather_update)
next
  case (artifact_disconnect i)
  with step.artifact_disconnect [of sv ?s "prod_encode (k, i)"] assms(2) show ?thesis
    by (simp add: gather_update)
qed


section \<open>The storage of a deployment\<close>

definition cluster_requests :: "('n, 's) cluster \<Rightarrow> requests" where
  "cluster_requests c = gather (\<lambda>k. wd_artifacts (cl_nodes c k))"

definition cluster_inv :: "('n, 's) server \<Rightarrow> 's s3_object \<Rightarrow> ('n, 's) cluster \<Rightarrow> bool" where
  "cluster_inv cfg object c \<longleftrightarrow> (\<forall>k. db_inv cfg object (with_requests (cluster_requests c) (node k c)))"

lemma same_deployment_db_inv:
  "same_deployment cfg sv \<Longrightarrow> db_inv (sv k) object s = db_inv cfg object s"
  "same_deployment cfg sv \<Longrightarrow> s3_lawful (sv k) object pending = s3_lawful cfg object pending"
  by (simp_all add: same_deployment_def db_inv_def request_hosts_def s3_lawful_def)

lemma cluster_inv_node:
  "cluster_inv cfg object c \<longleftrightarrow>
     pg_wf (cl_db c) \<and>
     requests_ok (sv_s3_client cfg) object (sv_bucket cfg) (cluster_requests c) (cl_db c) (cl_s3 c) \<and>
     hosts_known (sv_upstream cfg) (sv_port cfg) (cl_db c) \<and>
     (\<forall>i ph. cluster_requests c i = Some ph \<longrightarrow> request_hosts cfg ph) \<and>
     (\<forall>k m pv. wd_refreshing (cl_nodes c k) = Saving m pv \<longrightarrow>
        url_parse (sv_upstream cfg) (discovery_url (tp_hostname (rq_provider m)) (sv_port cfg)) \<noteq> None)"
  unfolding cluster_inv_def db_inv_def by simp

lemma cluster_requests_boot: "cluster_requests (cluster_boot db nts st) = Map.empty"
  by (auto simp: cluster_requests_def cluster_boot_def boot_def gather_def split: prod.split)

lemma cluster_inv_boot:
  "cluster_inv cfg object (cluster_boot db nts st) \<longleftrightarrow>
     pg_wf db \<and> artifacts_present object (sv_bucket cfg) db st \<and> hosts_known (sv_upstream cfg) (sv_port cfg) db"
  using cluster_requests_boot [of db nts st]
  by (auto simp: cluster_inv_node requests_ok_empty cluster_boot_def boot_def)

text \<open>What a step of any server, or a restart, is for the requests of all.\<close>

abbreviation cluster_turn :: "('n, 's) server \<Rightarrow> ('n, 's) cluster \<Rightarrow> ('n, 's) cluster \<Rightarrow> bool" where
  "cluster_turn cfg c c' \<equiv>
     artifact_turn (sv_upstream cfg) (sv_port cfg) (sv_s3_client cfg) (sv_bucket cfg)
       (cluster_requests c) (cl_db c) (cl_s3 c) (cluster_requests c') (cl_db c') (cl_s3 c')"

lemma turn_gather:
  assumes "step (sv k) (node k c) s"
  shows "step (sv k) (with_requests (cluster_requests c) (node k c))
    (with_requests (cluster_requests (put_node k s c)) s)"
proof -
  let ?R = "\<lambda>j. wd_artifacts (cl_nodes c j)"
  have "wd_artifacts (node k c) = ?R k" by simp
  from step_gather [of "sv k", OF assms, of ?R k, OF this] show ?thesis
    by (simp add: cluster_requests_def fun_upd_def if_distrib cong: if_cong)
qed

lemma restart_requests:
  "cluster_requests (put_node k (boot db nt st) c) n = Some ph \<Longrightarrow> cluster_requests c n = Some ph"
  using gather_Some [of "\<lambda>j. wd_artifacts (cl_nodes (put_node k (boot db nt st) c) j)" n ph]
  by (auto simp: cluster_requests_def boot_def split: if_splits)

lemma cluster_step_turn:
  assumes "same_deployment cfg sv" and "pg_wf (cl_db c)" and "cluster_step sv c c'"
  shows "cluster_turn cfg c c'"
  using assms(3)
proof (cases rule: cluster_step.cases)
  case (turn k s)
  from step_turn [OF _ turn_gather [of sv, OF turn(2)]] assms(1,2) show ?thesis
    by (simp add: turn(1) same_deployment_def)
next
  case (restart k nt)
  have "cl_db c' = cl_db c" "cl_s3 c' = cl_s3 c" by (simp_all add: restart boot_def)
  moreover have "cluster_requests c n = Some ph" if "cluster_requests c' n = Some ph" for n ph
    using that restart_requests unfolding restart by blast
  ultimately show ?thesis by (simp add: artifact_turn.dropped)
qed

lemma cluster_step_inv:
  assumes "same_deployment cfg sv" and "s3_lawful cfg object pending" and "cluster_inv cfg object c"
    and "cluster_step sv c c'"
  shows "cluster_inv cfg object c' \<and> (\<forall>tp. catalog (cl_db c) tp \<subseteq> catalog (cl_db c') tp)"
  using assms(4)
proof (cases rule: cluster_step.cases)
  case (turn k s)
  from step_inv [OF _ _ turn_gather [of sv, OF turn(2)], of object pending]
  have inv: "db_inv cfg object (with_requests (cluster_requests c') s)" and "grows (node k c) s"
    using assms(1-3) by (simp_all add: turn(1) same_deployment_db_inv cluster_inv_def grows_def)
  moreover have "cluster_inv cfg object c'"
    using inv assms(3) unfolding cluster_inv_node turn(1) by (auto simp: db_inv_def)
  ultimately show ?thesis by (simp add: turn(1) grows_def)
next
  case (restart k nt)
  have fewer: "cluster_requests c n = Some ph" if "cluster_requests c' n = Some ph" for n ph
    using that restart_requests unfolding restart by blast
  have "cl_db c' = cl_db c" "cl_s3 c' = cl_s3 c" by (simp_all add: restart boot_def)
  moreover have "wd_refreshing (cl_nodes c' j) \<in> {Idle, wd_refreshing (cl_nodes c j)}" for j
    by (simp add: restart boot_def)
  ultimately show ?thesis
    using assms(3) fewer requests_ok_frame [of "sv_s3_client cfg" object "sv_bucket cfg" "cluster_requests c" "cl_db c" "cl_s3 c" "cl_db c" "cluster_requests c'"]
    unfolding cluster_inv_node by (auto; metis insert_iff refresh_phase.distinct(3) singletonD)
qed

lemma cluster_run_inv:
  assumes "cluster_run sv c c'" and "same_deployment cfg sv" and "s3_lawful cfg object pending"
    and "cluster_inv cfg object c"
  shows "cluster_inv cfg object c' \<and> (\<forall>tp. catalog (cl_db c) tp \<subseteq> catalog (cl_db c') tp)"
  using assms(1)
proof (induction rule: rtranclp_induct)
  case base
  then show ?case using assms(4) by simp
next
  case (step c1 c2)
  then show ?case using cluster_step_inv [OF assms(2,3) _ step.hyps(2)] by blast
qed

text \<open>
  C3: several servers share one database and one bucket, may crash and be restarted at any time,
  and their requests interleave in any way. The tables stay well formed, every artifact id on
  record has its object in the bucket, every redirect that a running server has given links to
  an object that is still there, every stored provider has a host the URL library parses, and
  nothing any server does takes a version, system or architecture out of the catalogue.
\<close>

theorem shared_storage_safe:
  assumes "same_deployment cfg sv" and "s3_lawful cfg object pending"
    and "pg_wf db" and "artifacts_present object (sv_bucket cfg) db st"
    and "hosts_known (sv_upstream cfg) (sv_port cfg) db"
    and "cluster_run sv (cluster_boot db nts st) c" and "cluster_run sv c c'"
  shows "pg_wf (cl_db c') \<and> artifacts_present object (sv_bucket cfg) (cl_db c') (cl_s3 c') \<and>
    (\<forall>k i rd. wd_artifacts (cl_nodes c' k) i = Some (Answered (Done (Ok rd))) \<longrightarrow>
       (\<exists>a. redirect_to (sv_s3_client cfg) (sv_bucket cfg) a = Done (Ok rd) \<and>
          object (s3_peer (cl_s3 c')) (s3_bucket_name (sv_bucket cfg))
            (artifact_key (sv_bucket cfg) (af_artifact_id a)) \<noteq> None)) \<and>
    hosts_known (sv_upstream cfg) (sv_port cfg) (cl_db c') \<and>
    (\<forall>tp. catalog (cl_db c) tp \<subseteq> catalog (cl_db c') tp)"
proof -
  have "cluster_inv cfg object c"
    using cluster_run_inv [OF assms(6,1,2)] assms(3-5) by (simp add: cluster_inv_boot)
  then have inv: "cluster_inv cfg object c'" and grows: "\<forall>tp. catalog (cl_db c) tp \<subseteq> catalog (cl_db c') tp"
    using cluster_run_inv [OF assms(7,1,2)] by simp_all
  then have ok: "requests_ok (sv_s3_client cfg) object (sv_bucket cfg) (cluster_requests c') (cl_db c') (cl_s3 c')"
    by (simp add: cluster_inv_node)
  have "\<exists>a. redirect_to (sv_s3_client cfg) (sv_bucket cfg) a = Done (Ok rd) \<and>
      object (s3_peer (cl_s3 c')) (s3_bucket_name (sv_bucket cfg)) (artifact_key (sv_bucket cfg) (af_artifact_id a)) \<noteq> None"
    if "wd_artifacts (cl_nodes c' k) i = Some (Answered (Done (Ok rd)))" for k i rd
  proof -
    from that have "cluster_requests c' (prod_encode (k, i)) = Some (Answered (Done (Ok rd)))"
      by (simp add: cluster_requests_def)
    from requests_okD [OF ok this] show ?thesis by (auto simp: phase_ok_def relies_ok_def settled_def)
  qed
  with inv grows requests_ok_present [OF ok] show ?thesis by (simp add: cluster_inv_node)
qed

section \<open>Archives that stay what they are\<close>

lemma cluster_run_settled:
  assumes "cluster_run sv c c'" and "same_deployment cfg sv" and "s3_lawful cfg object pending"
    and "cluster_inv cfg object c"
    and "settled object (sv_bucket cfg) (cluster_requests c) (cl_db c) (cl_s3 c) aid"
  shows "settled object (sv_bucket cfg) (cluster_requests c') (cl_db c') (cl_s3 c') aid \<and>
    object (s3_peer (cl_s3 c')) (s3_bucket_name (sv_bucket cfg)) (artifact_key (sv_bucket cfg) aid) =
    object (s3_peer (cl_s3 c)) (s3_bucket_name (sv_bucket cfg)) (artifact_key (sv_bucket cfg) aid)"
  using assms(1)
proof (induction rule: rtranclp_induct)
  case base
  then show ?case using assms(5) by simp
next
  case (step c1 c2)
  have inv: "cluster_inv cfg object c1" using cluster_run_inv [OF step.hyps(1) assms(2-4)] by simp
  then have ok: "requests_ok (sv_s3_client cfg) object (sv_bucket cfg) (cluster_requests c1) (cl_db c1) (cl_s3 c1)"
      and wf: "pg_wf (cl_db c1)" by (simp_all add: cluster_inv_node)
  have s3: "s3_uploads (sv_s3_client cfg) object pending" "s3_completes (sv_s3_client cfg) object pending"
    using assms(3) by (simp_all add: s3_lawful_def)
  note turn = cluster_step_turn [OF assms(2) wf step.hyps(2)]
  from artifact_turn_settled [OF s3 ok wf turn] artifact_turn_ok [OF s3 ok wf turn] step.IH show ?case
    by (simp add: contents_kept_def)
qed

text \<open>
  C6: an archive is never changed once it is on record. Whatever several servers, racing
  downloads, crashes and restarts do afterwards, the object of an artifact id that a row names,
  or that a request is about to record, keeps its bytes for good.
\<close>

theorem archives_never_change:
  assumes "same_deployment cfg sv" and "s3_lawful cfg object pending"
    and "pg_wf db" and "artifacts_present object (sv_bucket cfg) db st"
    and "hosts_known (sv_upstream cfg) (sv_port cfg) db"
    and "cluster_run sv (cluster_boot db nts st) c" and "cluster_run sv c c'"
    and "aid \<in> set (artifact_id_column (versions (cl_db c))) \<or>
      (\<exists>k i a. wd_artifacts (cl_nodes c k) i = Some (Recording a) \<and> af_artifact_id a = aid)"
  shows "\<exists>content.
    object (s3_peer (cl_s3 c)) (s3_bucket_name (sv_bucket cfg)) (artifact_key (sv_bucket cfg) aid) = Some content \<and>
    object (s3_peer (cl_s3 c')) (s3_bucket_name (sv_bucket cfg)) (artifact_key (sv_bucket cfg) aid) = Some content"
proof -
  have inv: "cluster_inv cfg object c"
    using cluster_run_inv [OF assms(6,1,2)] assms(3-5) by (simp add: cluster_inv_boot)
  then have ok: "requests_ok (sv_s3_client cfg) object (sv_bucket cfg) (cluster_requests c) (cl_db c) (cl_s3 c)"
    by (simp add: cluster_inv_node)
  have "settled object (sv_bucket cfg) (cluster_requests c) (cl_db c) (cl_s3 c) aid"
    using assms(8)
  proof
    assume "aid \<in> set (artifact_id_column (versions (cl_db c)))"
    with ok show ?thesis by (simp add: requests_ok_def)
  next
    assume "\<exists>k i a. wd_artifacts (cl_nodes c k) i = Some (Recording a) \<and> af_artifact_id a = aid"
    then obtain k i a where "cluster_requests c (prod_encode (k, i)) = Some (Recording a)" "af_artifact_id a = aid"
      by (auto simp: cluster_requests_def)
    with requests_okD [OF ok] show ?thesis by (auto simp: phase_ok_def relies_ok_def)
  qed
  with cluster_run_settled [OF assms(7,1,2) inv] show ?thesis by (auto simp: settled_def)
qed

text \<open>The uploads of a deployment, and the download of one archive in it.\<close>

lemma cluster_run_uploads_apart:
  assumes "same_deployment cfg sv" and "s3_lawful cfg object pending" and "s3_apart (sv_s3_client cfg) pending live"
    and "cluster_inv cfg object (cluster_boot db nts st)" and "cluster_run sv (cluster_boot db nts st) c"
  shows "uploads_apart live (cluster_requests c) (cl_s3 c)"
  using assms(5)
proof (induction rule: rtranclp_induct)
  case base
  have "cluster_requests (cluster_boot db nts st) = Map.empty" by (rule cluster_requests_boot)
  then show ?case by (simp add: uploads_apart_def)
next
  case (step c1 c2)
  have "pg_wf (cl_db c1)" using cluster_run_inv [OF step.hyps(1) assms(1,2,4)] by (simp add: cluster_inv_node)
  from artifact_turn_apart [OF assms(3) step.IH cluster_step_turn [OF assms(1) this step.hyps(2)]] show ?case .
qed

lemma cluster_run_traced:
  assumes "same_deployment cfg sv" and "s3_lawful cfg object pending" and "s3_apart (sv_s3_client cfg) pending live"
    and "cluster_inv cfg object (cluster_boot db nts st)" and "cluster_run sv (cluster_boot db nts st) c"
    and "length (concat (List.map_filter ok_value body)) < 2 ^ 32 * s3_minimum_upload_chunk_bytes"
    and "traced object pending (sv_bucket cfg) a body (cluster_requests c) (cl_db c) (cl_s3 c)"
    and "cluster_run sv c c'"
  shows "traced object pending (sv_bucket cfg) a body (cluster_requests c') (cl_db c') (cl_s3 c')"
  using assms(8)
proof (induction rule: rtranclp_induct)
  case base
  then show ?case using assms(7) by simp
next
  case (step c1 c2)
  have run: "cluster_run sv (cluster_boot db nts st) c1" using assms(5) step.hyps(1) by simp
  have inv: "cluster_inv cfg object c1" using cluster_run_inv [OF run assms(1,2,4)] by simp
  then have ok: "requests_ok (sv_s3_client cfg) object (sv_bucket cfg) (cluster_requests c1) (cl_db c1) (cl_s3 c1)"
      and wf: "pg_wf (cl_db c1)" by (simp_all add: cluster_inv_node)
  have s3: "s3_uploads (sv_s3_client cfg) object pending" "s3_completes (sv_s3_client cfg) object pending"
    using assms(2) by (simp_all add: s3_lawful_def)
  from artifact_turn_traced [OF s3 assms(3,6) ok wf cluster_run_uploads_apart [OF assms(1-4) run] step.IH
      cluster_step_turn [OF assms(1) wf step.hyps(2)]] show ?case .
qed

text \<open>
  C5: downloads arrive whole. When a server has fetched an archive and is about to upload it,
  and at any later time a request is about to record that artifact id or a row names it, then
  every chunk of the body had arrived and the object is their concatenation, whatever other
  uploads, of this server or of others, ran in between and whoever was restarted. The body must
  need fewer than 2^32 parts, and S3 must keep the multipart uploads apart.
\<close>

theorem downloads_intact:
  assumes "same_deployment cfg sv" and "s3_lawful cfg object pending" and "s3_apart (sv_s3_client cfg) pending live"
    and "pg_wf db" and "artifacts_present object (sv_bucket cfg) db st"
    and "hosts_known (sv_upstream cfg) (sv_port cfg) db"
    and "cluster_run sv (cluster_boot db nts st) c" and "wd_artifacts (cl_nodes c k) i = Some (Stashing a body)"
    and "length (concat (List.map_filter ok_value body)) < 2 ^ 32 * s3_minimum_upload_chunk_bytes"
    and "cluster_run sv c c'"
    and "af_artifact_id a \<in> set (artifact_id_column (versions (cl_db c'))) \<or>
      (\<exists>j l b. wd_artifacts (cl_nodes c' j) l = Some (Recording b) \<and> af_artifact_id b = af_artifact_id a)"
  shows "\<exists>cs. body = map Ok cs \<and>
    object (s3_peer (cl_s3 c')) (s3_bucket_name (sv_bucket cfg)) (artifact_key (sv_bucket cfg) (af_artifact_id a)) =
      Some (concat cs)"
proof -
  have boot: "cluster_inv cfg object (cluster_boot db nts st)" using assms(4-6) by (simp add: cluster_inv_boot)
  have "cluster_inv cfg object c" using cluster_run_inv [OF assms(7,1,2) boot] by simp
  then have ok: "requests_ok (sv_s3_client cfg) object (sv_bucket cfg) (cluster_requests c) (cl_db c) (cl_s3 c)"
    by (simp add: cluster_inv_node)
  have "cluster_requests c (prod_encode (k, i)) = Some (Stashing a body)"
    using assms(8) by (simp add: cluster_requests_def)
  from cluster_run_traced [OF assms(1-3) boot assms(7,9) traced_begin [OF ok this] assms(10)]
  have tr: "traced object pending (sv_bucket cfg) a body (cluster_requests c') (cl_db c') (cl_s3 c')" .
  have "stored_body object (sv_bucket cfg) (af_artifact_id a) body (cl_s3 c')"
    using assms(11)
  proof
    assume "\<exists>j l b. wd_artifacts (cl_nodes c' j) l = Some (Recording b) \<and> af_artifact_id b = af_artifact_id a"
    then obtain j l b where "cluster_requests c' (prod_encode (j, l)) = Some (Recording b)" "af_artifact_id b = af_artifact_id a"
      by (auto simp: cluster_requests_def)
    with traced_progress [OF tr] show ?thesis by fastforce
  qed (use tr in \<open>simp add: traced_def\<close>)
  then show ?thesis by (simp add: stored_body_def)
qed

section \<open>One server among others\<close>

lemma unanswered_node [simp]: "unanswered (node k c) = unanswered (cl_nodes c k)"
  by (simp add: unanswered_def)

lemma wait_inv_node: "wait_inv (node k c) \<longleftrightarrow> wait_inv (cl_nodes c k)"
  by (simp add: wait_inv_def)

lemma cluster_run_wait_inv:
  assumes "cluster_run sv (cluster_boot db nts st) c"
  shows "wait_inv (cl_nodes c k)"
  using assms
proof (induction rule: rtranclp_induct)
  case base
  then show ?case by (simp add: cluster_boot_def wait_inv_boot)
next
  case (step c1 c2)
  from step.hyps(2) show ?case
  proof (cases rule: cluster_step.cases)
    case (turn j s)
    from step.IH have "wait_inv s" if "j = k"
      using step_wait_inv [OF _ turn(2)] that by (simp add: wait_inv_node)
    with step.IH show ?thesis by (simp add: turn(1))
  next
    case (restart j nt)
    with step.IH show ?thesis by (simp add: wait_inv_boot)
  qed
qed

lemma reachable_in_cluster:
  assumes "reachable (sv k) (node k c) s"
  shows "\<exists>c'. cluster_run sv c c' \<and> node k c' = s \<and> (\<forall>j. j \<noteq> k \<longrightarrow> cl_nodes c' j = cl_nodes c j)"
  using assms
proof (induction rule: reachable.induct)
  case start
  then show ?case by blast
next
  case (next_step s' s'')
  then obtain c' where c': "cluster_run sv c c'" "node k c' = s'" "\<forall>j. j \<noteq> k \<longrightarrow> cl_nodes c' j = cl_nodes c j"
    by blast
  with next_step.hyps(2) have "cluster_step sv c' (put_node k s'' c')" by (simp add: cluster_step.turn)
  with c' show ?case by (intro exI [of _ "put_node k s'' c'"]) auto
qed

text \<open>
  Waiting ends, on every server and whatever became of the others. In any state several
  servers can get into, a server whose refresher is alive and whose unanswered messages name
  hosts the URL library parses gets, by its own steps, to a state where no message is
  unanswered and every handler that waited has its response; the memories of the other servers,
  which may have crashed, play no part in it.
\<close>

theorem cluster_waiters_answered:
  assumes "cluster_run sv (cluster_boot db nts st) c" and "wd_status (cl_nodes c k) = Waiting"
    and "\<forall>m \<in> set (unanswered (cl_nodes c k)).
      url_parse (sv_upstream (sv k)) (discovery_url (tp_hostname (rq_provider m)) (sv_port (sv k))) \<noteq> None"
  shows "\<exists>c'. cluster_run sv c c' \<and> unanswered (cl_nodes c' k) = [] \<and>
    (\<forall>i tp. wd_index (cl_nodes c k) i = Some (Awaiting tp) \<longrightarrow> (\<exists>x. wd_index (cl_nodes c' k) i = Some (Responded x))) \<and>
    (\<forall>j. j \<noteq> k \<longrightarrow> cl_nodes c' j = cl_nodes c j)"
proof -
  from drain [of "node k c" "sv k"] assms(2,3) obtain s' where s': "reachable (sv k) (node k c) s'" "unanswered s' = []"
      "\<And>i tp. wd_index (cl_nodes c k) i = Some (Awaiting tp) \<Longrightarrow> wd_index s' i = Some (Awaiting tp) \<or> (\<exists>x. wd_index s' i = Some (Responded x))"
    by auto
  have "wait_inv s'"
    using reachable_wait_inv [OF s'(1)] cluster_run_wait_inv [OF assms(1)] by (simp add: wait_inv_node)
  with s'(2) have nobody: "wd_index s' i \<noteq> Some (Awaiting tp)" for i tp by (auto simp: wait_inv_def)
  from reachable_in_cluster [of sv k c, OF s'(1)] obtain c' where
      c': "cluster_run sv c c'" "node k c' = s'" "\<forall>j. j \<noteq> k \<longrightarrow> cl_nodes c' j = cl_nodes c j" by blast
  with s'(2,3) nobody show ?thesis by (metis node_simps(6) unanswered_node)
qed

end
