(* ===== verification/Token_Flow.thy ===== *)
theory Token_Flow
  imports Cluster
begin

text \<open>
  Where the tokens of the credential API go: what all servers of a deployment ever send, whichever
  handler or refresher sends it, and whatever else happens in between.
\<close>

section \<open>What a step sends\<close>


text \<open>A request with the token of host \<open>h\<close>, for a document below the base that the discovery of
  \<open>h\<close> named, and one that carries no header at all or the token of its host.\<close>

definition token_request :: "'n upstream \<Rightarrow> u16 \<Rightarrow> (string \<Rightarrow> credential) \<Rightarrow> http_request \<Rightarrow> bool" where
  "token_request up port view req \<longleftrightarrow>
     (\<exists>h tok base path. view h = Entry (Some tok) \<and> provider_url up port h base path = Some (req_url req) \<and>
        req_headers req = [(''authorization'', ''Bearer '' @ tok)])"

definition sends :: "('n, 's) server \<Rightarrow> (string \<Rightarrow> credential) \<Rightarrow> http_request list \<Rightarrow> http_request list \<Rightarrow> bool" where
  "sends sv view before after \<longleftrightarrow>
     (\<exists>new. after = before @ new \<and>
        (\<forall>req \<in> set new. req_headers req = [] \<or> token_request (sv_upstream sv) (sv_port sv) view req))"

lemma sends_nothing [simp]: "sends sv view l l"
  by (simp add: sends_def)







section \<open>What a deployment sends\<close>



end
