(* ===== verification/Artifact_Progress.thy ===== *)
theory Artifact_Progress
  imports Cluster
begin

text \<open>
  Artifact requests get answers: from every state that a deployment can get into, a request that
  is left to run reaches its answer, whatever became of the others.
\<close>

section \<open>A piece is always there\<close>

text \<open>A join with both halves done does not stay one.\<close>

definition unjoined :: "requests \<Rightarrow> bool" where
  "unjoined rs \<longleftrightarrow> (\<forall>i d x y. rs i \<noteq> Some (Joining d (Some x) (Some y)))"

lemma joined_not_both: "joined d x y \<noteq> Joining e (Some i) (Some b)"
  by (cases "(d, x, y)" rule: joined.cases) auto

lemma artifact_piece_unjoined:
  assumes "artifact_piece up port cl args half ph w = Some (ph', w')"
  shows "ph' \<noteq> Joining d (Some x) (Some y)"
proof (cases ph)
  case (Uploading a uid stream buffer parts n)
  with assms show ?thesis
    by (cases stream; cases "hd stream")
      (auto simp: artifact_piece_def Let_def split: if_splits prod.splits result.splits)
qed (use assms joined_not_both in \<open>auto simp: artifact_piece_def piece_defs Let_def
      split: join_half.splits if_splits prod.splits result.splits option.splits run.splits\<close>)

lemma step_unjoined:
  assumes "unjoined (wd_artifacts s)" and "step sv s s'"
  shows "unjoined (wd_artifacts s')"
  using assms(2)
proof (cases rule: step.cases)
  case (index_request h n ty ph db ch)
  with assms(1) show ?thesis by (simp add: set_db_def)
next
  case refresh
  with assms(1) refresh_step_artifacts [of sv s s'] show ?thesis by simp
next
  case (artifact_request i vid ph db)
  then have "ph \<noteq> Joining d (Some x) (Some y)" for d x y
    by (auto simp: artifact_start_def split: prod.splits result.splits option.splits)
  with artifact_request assms(1) show ?thesis by (simp add: unjoined_def set_db_def)
next
  case (artifact_piece i ph half ph' t)
  then have "ph' \<noteq> Joining d (Some x) (Some y)" for d x y
    by (auto simp: artifact_step_def dest: artifact_piece_unjoined)
  with artifact_piece assms(1) show ?thesis by (simp add: unjoined_def)
qed (use assms(1) in \<open>simp_all add: unjoined_def set_db_def\<close>)

lemma cluster_run_unjoined:
  assumes "cluster_run sv (cluster_boot db nts st) c"
  shows "unjoined (wd_artifacts (cl_nodes c k))"
  using assms
proof (induction rule: rtranclp_induct)
  case base
  then show ?case by (simp add: cluster_boot_def boot_def unjoined_def)
next
  case (step c1 c2)
  from step.hyps(2) show ?case
  proof (cases rule: cluster_step.cases)
    case (turn j s)
    from step.IH have "unjoined (wd_artifacts s)" if "j = k"
      using step_unjoined [OF _ turn(2)] that by simp
    with step.IH show ?thesis by (simp add: turn(1))
  next
    case (restart j nt)
    with step.IH show ?thesis by (simp add: boot_def unjoined_def)
  qed
qed

lemma artifact_piece_enabled:
  assumes "\<nexists>r. ph = Answered r" and "\<nexists>d x y. ph = Joining d (Some x) (Some y)"
  shows "\<exists>half ph' w'. artifact_piece up port cl args half ph w = Some (ph', w')"
proof (cases ph)
  case (Joining d allocated fetched)
  with assms(2) consider "allocated = None" | "fetched = None" by fastforce
  then show ?thesis
  proof cases
    case 1
    with Joining show ?thesis by (intro exI [of _ Allocation]) (auto simp: artifact_piece_def split: prod.split)
  next
    case 2
    with Joining show ?thesis by (intro exI [of _ Fetch]) (auto simp: artifact_piece_def split: prod.split)
  qed
qed (use assms(1) in \<open>auto simp: artifact_piece_def split: prod.split\<close>)

lemma run_to_answer:
  assumes "wd_status s \<noteq> Crashed" and "wd_artifacts s i = Some ph" and "unjoined (wd_artifacts s)"
  shows "\<exists>s' r. reachable sv s s' \<and> wd_artifacts s' = (wd_artifacts s)(i \<mapsto> Answered r) \<and>
    wd_index s' = wd_index s \<and> wd_channel s' = wd_channel s \<and> wd_status s' = wd_status s"
proof -
  have "wf (inv_image (less_than <*lex*> less_than) phase_rank)" by (intro wf_inv_image wf_lex_prod wf_less_than)
  then show ?thesis
    using assms
  proof (induction ph arbitrary: s rule: wf_induct_rule)
    case (less ph)
    show ?case
    proof (cases "\<exists>r. ph = Answered r")
      case True
      then obtain r where "wd_artifacts s = (wd_artifacts s)(i \<mapsto> Answered r)"
        using less.prems(2) by (metis fun_upd_idem)
      with start show ?thesis by blast
    next
      case False
      have "\<nexists>d x y. ph = Joining d (Some x) (Some y)" using less.prems(2,3) by (auto simp: unjoined_def)
      then obtain half ph' w' where w': "artifact_piece (sv_upstream sv) (sv_port sv) (sv_s3_client sv) (sv_bucket sv) half ph
          (artifact_view s) = Some (ph', w')"
        using artifact_piece_enabled [OF False] by blast
      let ?t = "(put_view w' s)\<lparr>wd_artifacts := (wd_artifacts s)(i \<mapsto> ph')\<rparr>"
      have step: "step sv s ?t"
        using less.prems(1,2) w' by (intro step.artifact_piece) (auto simp: artifact_step_def)
      have "(ph', ph) \<in> inv_image (less_than <*lex*> less_than) phase_rank"
        using artifact_piece_rank [OF w'] by simp
      moreover have "wd_status ?t \<noteq> Crashed" "wd_artifacts ?t i = Some ph'"
        using less.prems(1) by (simp_all add: put_view_def)
      moreover have "unjoined (wd_artifacts ?t)" using less.prems(3) step by (rule step_unjoined)
      ultimately obtain s' r where s': "reachable sv ?t s'" "wd_artifacts s' = (wd_artifacts ?t)(i \<mapsto> Answered r)"
          "wd_index s' = wd_index ?t" "wd_channel s' = wd_channel ?t" "wd_status s' = wd_status ?t"
        using less.IH by blast
      with reachable_trans [OF next_step [OF start step]] show ?thesis
        by (intro exI [of _ s'] exI [of _ r]) (simp add: put_view_def)
    qed
  qed
qed

section \<open>Requests of a deployment\<close>

text \<open>
  Every artifact request can be finished. In any state several servers can get into, a
  request of a server whose process runs reaches its answer by its own pieces alone, of which
  there are finitely many; no other request, message or server is needed for it or disturbed.
\<close>

theorem artifact_requests_end:
  assumes "cluster_run sv (cluster_boot db nts st) c" and "wd_status (cl_nodes c k) \<noteq> Crashed"
    and "wd_artifacts (cl_nodes c k) i = Some ph"
  shows "\<exists>c' r. cluster_run sv c c' \<and>
    wd_artifacts (cl_nodes c' k) = (wd_artifacts (cl_nodes c k))(i \<mapsto> Answered r) \<and>
    wd_index (cl_nodes c' k) = wd_index (cl_nodes c k) \<and> wd_channel (cl_nodes c' k) = wd_channel (cl_nodes c k) \<and>
    (\<forall>j. j \<noteq> k \<longrightarrow> cl_nodes c' j = cl_nodes c j)"
proof -
  from run_to_answer [of "node k c" i ph "sv k"] assms(2,3) cluster_run_unjoined [OF assms(1), of k]
  obtain s r where s: "reachable (sv k) (node k c) s" "wd_artifacts s = (wd_artifacts (cl_nodes c k))(i \<mapsto> Answered r)"
      "wd_index s = wd_index (cl_nodes c k)" "wd_channel s = wd_channel (cl_nodes c k)" by auto
  from reachable_in_cluster [of sv k c, OF s(1)] obtain c' where
      c': "cluster_run sv c c'" "node k c' = s" "\<forall>j. j \<noteq> k \<longrightarrow> cl_nodes c' j = cl_nodes c j" by blast
  have "wd_artifacts (cl_nodes c' k) = wd_artifacts s" "wd_index (cl_nodes c' k) = wd_index s"
      "wd_channel (cl_nodes c' k) = wd_channel s"
    using c'(2) by (auto simp flip: c'(2))
  with s c' show ?thesis by (intro exI [of _ c'] exI [of _ r]) simp
qed

end
