(* ===== verification/First_Index.thy ===== *)
theory First_Index
  imports Mirror_System
begin

text \<open>
  The first request for a provider, through all the parts: the handler, the channel, the
  refresher, the registry, the transaction and the reply, up to the JSON of the answer.
\<close>

lemma list_unknown:
  assumes "faults db = []" and "catalog db \<lparr>tp_hostname = h, tp_namespace = n, tp_type = t\<rparr> = {}"
  shows "list_provider_versions h n t db = (Ok None, db)"
proof -
  have "\<exists>r. list_provider_versions h n t db = (Ok r, db)"
    using assms(1) by (auto simp: list_provider_versions_def select_versions_def split: list.split)
  then obtain r where r: "list_provider_versions h n t db = (Ok r, db)" ..
  with list_provider_versions_answer [OF r] assms(2) show ?thesis by (simp add: Let_def)
qed

text \<open>The request itself, up to its wait.\<close>

lemma index_request_waits:
  assumes "wd_status s = Waiting" and "wd_channel s = new_channel" and "faults (wd_db s) = []"
    and "catalog (wd_db s) tp = {}"
  shows "reachable sv s (s\<lparr>wd_channel := new_channel\<lparr>ch_queue := [\<lparr>rq_provider = tp, rq_response_channel = Some (wd_next s)\<rparr>]\<rparr>,
    wd_index := (wd_index s)(wd_next s \<mapsto> Awaiting tp), wd_next := wd_next s + 1\<rparr>)" (is "reachable sv s ?s2")
proof -
  obtain h n ty where tp: "tp = \<lparr>tp_hostname = h, tp_namespace = n, tp_type = ty\<rparr>" by (cases tp) auto
  define s1 where "s1 = s\<lparr>wd_index := (wd_index s)(wd_next s \<mapsto> Sending tp (wd_time s)), wd_next := wd_next s + 1\<rparr>"
  have "set_db (wd_db s) s = s" by (simp add: set_db_def)
  with step.index_request [of s h n ty "Sending tp (wd_time s)" "wd_db s" new_channel sv]
    list_unknown [OF assms(3), of h n ty] assms(1,2,4)
  have "step sv s (s\<lparr>wd_channel := new_channel, wd_index := (wd_index s)(wd_next s \<mapsto> Sending tp (wd_time s)), wd_next := wd_next s + 1\<rparr>)"
    by (simp add: index_start_def Let_def tp)
  moreover have "s\<lparr>wd_channel := new_channel, wd_index := (wd_index s)(wd_next s \<mapsto> Sending tp (wd_time s)), wd_next := wd_next s + 1\<rparr> = s1"
    using assms(2) by (cases s) (simp add: s1_def)
  ultimately have one: "step sv s s1" by simp
  have "step sv s1 (s1\<lparr>wd_channel := new_channel\<lparr>ch_queue := [\<lparr>rq_provider = tp, rq_response_channel = Some (wd_next s)\<rparr>]\<rparr>,
      wd_index := (wd_index s1)(wd_next s \<mapsto> Awaiting tp)\<rparr>)"
    using assms(1,2) by (intro step.index_send [where tp = tp and t = "wd_time s"])
      (simp_all add: s1_def index_send_def try_send_def new_channel_def channel_capacity_def)
  moreover have "s1\<lparr>wd_channel := new_channel\<lparr>ch_queue := [\<lparr>rq_provider = tp, rq_response_channel = Some (wd_next s)\<rparr>]\<rparr>,
      wd_index := (wd_index s1)(wd_next s \<mapsto> Awaiting tp)\<rparr> = ?s2"
    by (cases s) (simp add: s1_def)
  ultimately show ?thesis using next_step [OF next_step [OF start one]] by simp
qed

text \<open>The refresher's turn to the message.\<close>

lemma refresh_turn_answers:
  assumes "wd_status s = Waiting" and "wd_refreshing s = Idle"
    and "wd_channel s = new_channel\<lparr>ch_queue := [\<lparr>rq_provider = tp, rq_response_channel = Some i\<rparr>]\<rparr>"
    and "last_refresh (wd_refresher s) tp = None" and "wd_index s i = Some (Awaiting tp)"
    and "refresh_versions (sv_upstream sv) (sv_port sv) tp (wd_db s) (rs_net (wd_refresher s)) = (Done (Ok pv), db, nt)"
  shows "reachable sv s (s\<lparr>wd_channel := new_channel,
    wd_refresher := \<lparr>last_refresh = (last_refresh (wd_refresher s))(tp \<mapsto> wd_time s), rs_db = db, rs_net = nt\<rparr>,
    wd_index := (wd_index s)(i \<mapsto> Responded (Ok (index_of_provider_versions pv)))\<rparr>)" (is "reachable sv s ?s3")
proof -
  let ?m = "\<lparr>rq_provider = tp, rq_response_channel = Some i\<rparr>"
  obtain db1 k where get: "provider_get (sv_upstream sv) (sv_port sv) database_helper (json_versions (sv_upstream sv)) (tp_hostname tp)
      (versions_path (tp_namespace tp) (tp_type tp)) (wd_db s) (rs_net (wd_refresher s)) = (Done (Ok pv), db1, nt)"
      and store: "store_provider_versions (tp_hostname tp) (tp_namespace tp) (tp_type tp) pv db1 = (Ok k, db)"
    using assms(6) by (auto simp: refresh_versions_def split: prod.splits run.splits result.splits)
  let ?st = "(wd_refresher s)\<lparr>rs_db := db1, rs_net := nt\<rparr>"
  define s1 where "s1 = s\<lparr>wd_channel := new_channel, wd_refreshing := Fetching ?m\<rparr>"
  define s2 where "s2 = s1\<lparr>wd_refresher := ?st, wd_refreshing := Saving ?m pv\<rparr>"
  have "refresh_step sv s = Some s1"
    using assms(2-4) by (simp add: refresh_step_def recv_def new_channel_def refresh_take_def advance_def s1_def)
  with assms(1) have one: "step sv s s1" by (rule step.refresh)
  have "refresh_step sv s1 = Some s2"
    using get by (simp add: refresh_step_def refresh_fetch_def advance_def s1_def s2_def Let_def)
  moreover have "wd_status s1 = Waiting" using assms(1) by (simp add: s1_def)
  ultimately have two: "step sv s1 s2" by (intro step.refresh)
  have "refresh_step sv s2 = Some ?s3"
    using store assms(2,5) by (cases s; cases "wd_refresher s")
      (simp add: refresh_step_def refresh_save_def refresh_finish_def advance_def s1_def s2_def deliver_def reply_to_def
        index_reply_def Let_def)
  moreover have "wd_status s2 = Waiting" using assms(1) by (simp add: s1_def s2_def)
  ultimately have "step sv s2 ?s3" by (intro step.refresh)
  with next_step [OF next_step [OF start one] two] show ?thesis by (rule next_step)
qed

lemma index_json:
  assumes "inner Map.empty = []"
  shows "dom (mi_versions (index_of_provider_versions pv)) = pv_version ` set (pvs_versions pv)"
    and "set order = pv_version ` set (pvs_versions pv) \<Longrightarrow>
      mirror_index_json order inner (index_of_provider_versions pv) =
        JObject [(''versions'', JObject (map (\<lambda>v. (v, JObject [])) order))]"
  using assms
  by (auto simp: mirror_index_json_def map_json_def index_of_provider_versions_set dom_def split: if_splits)

text \<open>
  C11: a provider the mirror has never heard of is served by its first request. With an idle
  refresher and a registry that answers, the request, the refresher and their messages get, by
  their own steps, to a state in which the request is answered with 200 and the JSON index of
  exactly the versions the registry lists, the catalogue holds exactly the platforms it lists,
  the refresher waits for the next message, and no other request was touched.
\<close>

theorem first_index_served:
  assumes "wd_status s = Waiting" and "wd_channel s = new_channel" and "wd_refreshing s = Idle"
    and "pg_wf (wd_db s)" and "faults (wd_db s) = []" and "catalog (wd_db s) tp = {}"
    and "last_refresh (wd_refresher s) tp = None"
    and "fst (refresh_versions (sv_upstream sv) (sv_port sv) tp (wd_db s) (rs_net (wd_refresher s))) = Done (Ok pv)"
  shows "\<exists>s' idx. reachable sv s s' \<and> wd_index s' = (wd_index s)(wd_next s \<mapsto> Responded (Ok idx)) \<and>
    ha_status (index_response (Ok idx)) = S_OK \<and> dom (mi_versions idx) = pv_version ` set (pvs_versions pv) \<and>
    (\<forall>order inner. set order = dom (mi_versions idx) \<and> inner Map.empty = [] \<longrightarrow>
       mirror_index_json order inner idx = JObject [(''versions'', JObject (map (\<lambda>v. (v, JObject [])) order))]) \<and>
    catalog (wd_db s') tp = set (platform_triples (pvs_versions pv)) \<and>
    wd_refreshing s' = Idle \<and> wd_channel s' = new_channel \<and> wd_status s' = Waiting"
proof -
  obtain db nt where run: "refresh_versions (sv_upstream sv) (sv_port sv) tp (wd_db s) (rs_net (wd_refresher s)) = (Done (Ok pv), db, nt)"
    using assms(8) by (metis prod.collapse)
  let ?idx = "index_of_provider_versions pv"
  let ?s2 = "s\<lparr>wd_channel := new_channel\<lparr>ch_queue := [\<lparr>rq_provider = tp, rq_response_channel = Some (wd_next s)\<rparr>]\<rparr>,
    wd_index := (wd_index s)(wd_next s \<mapsto> Awaiting tp), wd_next := wd_next s + 1\<rparr>"
  let ?s3 = "?s2\<lparr>wd_channel := new_channel,
    wd_refresher := \<lparr>last_refresh = (last_refresh (wd_refresher s))(tp \<mapsto> wd_time s), rs_db = db, rs_net = nt\<rparr>,
    wd_index := (wd_index s)(wd_next s \<mapsto> Responded (Ok ?idx))\<rparr>"
  have "reachable sv ?s2 ?s3"
    using refresh_turn_answers [of ?s2 tp "wd_next s" sv pv db nt] assms(1,3,7) run by simp
  with index_request_waits [OF assms(1,2,5,6)] have "reachable sv s ?s3" by (rule reachable_trans)
  moreover have "catalog db tp = set (platform_triples (pvs_versions pv))"
    using refresh_versions_spec(3) [OF assms(4) run] assms(6) by auto
  ultimately show ?thesis
    using assms(1,3) index_json
    by (intro exI [of _ ?s3] exI [of _ ?idx]) (auto simp: index_response_def)
qed

end
