(* ===== verification/System_Witnesses.thy ===== *)
theory System_Witnesses
  imports Witnesses Token_Flow Artifact_Progress First_Index
begin

text \<open>
  Runs of the sample server, of two of them on one storage, and of the process around it, and
  the instances of the properties of \<open>Mirror_System\<close>, \<open>Cluster\<close> and \<open>Process\<close>
  in them.
\<close>

section \<open>The server\<close>

text \<open>A world in which one index request waits.\<close>

definition waiting_provider :: terraform_provider where
  "waiting_provider = \<lparr>tp_hostname = ''w'', tp_namespace = ''n'', tp_type = ''t''\<rparr>"

definition sending_world :: "(unit, bucket_state) world" where
  "sending_world = sample_world\<lparr>wd_index := [0 \<mapsto> Sending waiting_provider 0], wd_next := 1\<rparr>"

definition waiting_world :: "(unit, bucket_state) world" where
  "waiting_world = sending_world\<lparr>wd_index := [0 \<mapsto> Awaiting waiting_provider],
     wd_channel := new_channel\<lparr>ch_queue := [\<lparr>rq_provider = waiting_provider, rq_response_channel = Some 0\<rparr>]\<rparr>\<rparr>"

lemmas world_defs = sample_world_def sending_world_def waiting_world_def waiting_provider_def boot_def set_db_def

lemma waiting_reachable: "reachable sample_server (boot sample_db sample_net sample_s3) waiting_world"
proof -
  have "step sample_server sample_world sending_world"
  proof -
    have "index_start ''w'' ''n'' ''t'' (wd_time sample_world) (wd_db sample_world) (wd_channel sample_world) =
        (Sending waiting_provider 0, sample_db, new_channel)"
      by (simp add: index_start_def list_provider_versions_def select_versions_def world_defs sample_defs Let_def)
    from step.index_request [OF _ this, of sample_server] show ?thesis
      by (simp add: world_defs)
  qed
  moreover have "step sample_server sending_world waiting_world"
  proof -
    have "index_send 0 waiting_provider 0 (wd_time sending_world) (wd_channel sending_world) =
        (Awaiting waiting_provider, wd_channel waiting_world)"
      by (simp add: index_send_def try_send_def world_defs new_channel_def channel_capacity_def)
    from step.index_send [OF _ _ this, of sample_server] show ?thesis
      by (simp add: world_defs)
  qed
  ultimately show ?thesis
    unfolding sample_world_def [symmetric] by (meson start next_step)
qed

theorem no_lost_waiter_witness:
  "wd_status waiting_world = Waiting \<and>
    (\<exists>m \<in> set (unanswered waiting_world). rq_response_channel m = Some 0)"
proof -
  have "wd_index waiting_world 0 = Some (Awaiting waiting_provider)" by (simp add: waiting_world_def)
  with no_lost_waiter [OF waiting_reachable] show ?thesis by blast
qed

lemma sample_db_inv_boot: "db_inv sample_server stored_objects (boot sample_db sample_net sample_s3)"
  using sample_db_inv by (simp add: sample_world_def)

text \<open>A provider of the sample registry that the sample database does not have.\<close>

definition other_provider :: terraform_provider where
  "other_provider = sample_provider\<lparr>tp_namespace := ''x''\<rparr>"

lemma other_refresh: "fst (refresh_versions sample_upstream 443 other_provider sample_db sample_net) = Done (Ok sample_listing)"
  by (simp add: other_provider_def refresh_versions_def client_defs store_defs sample_listing_def)

theorem first_index_served_witness:
  "\<exists>s idx. reachable sample_server sample_world s \<and> wd_index s 0 = Some (Responded (Ok idx)) \<and>
    mirror_index_json [''2.0'', ''3.0''] (\<lambda>_. []) idx =
      JObject [(''versions'', JObject [(''2.0'', JObject []), (''3.0'', JObject [])])] \<and>
    catalog (wd_db s) other_provider = {(''2.0'', ''linux'', ''amd64'')}"
proof -
  have "catalog sample_db other_provider = {}"
    by (auto simp: catalog_def other_provider_def sample_defs id_keys_def provider_key_def provider_triple_def)
  then obtain s' idx where s': "reachable sample_server sample_world s'" "wd_index s' 0 = Some (Responded (Ok idx))"
      "dom (mi_versions idx) = pv_version ` set (pvs_versions sample_listing)"
      "\<And>order inner. set order = dom (mi_versions idx) \<Longrightarrow> inner Map.empty = [] \<Longrightarrow>
         mirror_index_json order inner idx = JObject [(''versions'', JObject (map (\<lambda>v. (v, JObject [])) order))]"
      "catalog (wd_db s') other_provider = set (platform_triples (pvs_versions sample_listing))"
    using first_index_served [of sample_world other_provider sample_server sample_listing] other_refresh sample_db_wf(1)
    by (auto simp: world_defs sample_server_def sample_defs other_provider_def)
  have "mirror_index_json [''2.0'', ''3.0''] (\<lambda>_. []) idx =
      JObject [(''versions'', JObject (map (\<lambda>v. (v, JObject [])) [''2.0'', ''3.0'']))]"
    by (rule s'(4)) (simp_all add: s'(3) sample_listing_def)
  with s'(1,2,5) show ?thesis by (intro exI [of _ s'] exI [of _ idx]) (simp add: sample_listing_def)
qed

text \<open>Two servers on the sample storage; the first gets to the world that waits, the second is
  restarted.\<close>

definition sample_cluster :: "(unit, bucket_state) cluster" where
  "sample_cluster = cluster_boot sample_db (\<lambda>_. sample_net) sample_s3"

lemma sample_cluster_node: "node k sample_cluster = boot sample_db sample_net sample_s3"
  by (simp add: sample_cluster_def cluster_boot_def node_def boot_def set_db_def)

lemma sample_deployment: "same_deployment sample_server (\<lambda>_. sample_server)"
  by (simp add: same_deployment_def)

lemma waiting_cluster:
  obtains c where "cluster_run (\<lambda>_. sample_server) sample_cluster c" and "node 0 c = waiting_world"
  using reachable_in_cluster [of "\<lambda>_. sample_server" 0 sample_cluster waiting_world] waiting_reachable
  by (auto simp: sample_cluster_node)

theorem cluster_waiters_answered_witness:
  "\<exists>c c'. cluster_run (\<lambda>_. sample_server) c c' \<and> wd_index (cl_nodes c 0) 0 = Some (Awaiting waiting_provider) \<and>
    (\<exists>x. wd_index (cl_nodes c' 0) 0 = Some (Responded x))"
proof -
  obtain c where c: "cluster_run (\<lambda>_. sample_server) sample_cluster c" "node 0 c = waiting_world" by (rule waiting_cluster)
  have url: "discovery_url ''w'' 443 = ''https://w:443/.well-known/terraform.json''" by code_simp
  have "wd_status (cl_nodes c 0) = Waiting" "wd_index (cl_nodes c 0) 0 = Some (Awaiting waiting_provider)"
    using arg_cong [OF c(2), of wd_status] arg_cong [OF c(2), of wd_index] by (simp_all add: world_defs)
  moreover have "unanswered (cl_nodes c 0) = unanswered waiting_world" using c(2) by (metis unanswered_node)
  then have "\<forall>m \<in> set (unanswered (cl_nodes c 0)). url_parse (sv_upstream sample_server)
      (discovery_url (tp_hostname (rq_provider m)) (sv_port sample_server)) \<noteq> None"
    by (simp add: unanswered_def world_defs sample_server_def url)
  ultimately show ?thesis
    using cluster_waiters_answered [OF c(1) [unfolded sample_cluster_def], of 0] by blast
qed

theorem shared_storage_safe_witness:
  "\<exists>c. cluster_run (\<lambda>_. sample_server) sample_cluster c \<and> pg_wf (cl_db c) \<and>
    catalog sample_db sample_provider \<subseteq> catalog (cl_db c) sample_provider"
proof -
  obtain c where c: "cluster_run (\<lambda>_. sample_server) sample_cluster c" "node 0 c = waiting_world" by (rule waiting_cluster)
  let ?c = "put_node 1 (boot (cl_db c) (rs_net (wd_refresher (cl_nodes c 1))) (cl_s3 c)) c"
  have run: "cluster_run (\<lambda>_. sample_server) sample_cluster ?c"
    using c(1) cluster_step.restart [OF refl, of "\<lambda>_. sample_server" c 1] by (rule rtranclp.rtrancl_into_rtrancl)
  have "hosts_known (sv_upstream sample_server) (sv_port sample_server) sample_db"
    using sample_db_inv_boot by (simp add: db_inv_boot)
  moreover have "artifacts_present stored_objects (sv_bucket sample_server) sample_db sample_s3"
    using sample_present by (simp add: sample_server_def)
  ultimately show ?thesis
    using shared_storage_safe [OF sample_deployment sample_lawful sample_db_wf(1) _ _ rtranclp.rtrancl_refl
        run [unfolded sample_cluster_def]] run
    by (intro exI [of _ ?c]) (auto simp: cluster_boot_def)
qed

text \<open>A bucket whose links are not header values.\<close>

definition odd_server :: "(unit, bucket_state) server" where
  "odd_server = sample_server\<lparr>sv_s3_client := sample_s3_client\<lparr>presign_get_object := (\<lambda>_ _ _. Ok [CHR 0x0A])\<rparr>\<rparr>"

definition odd_world :: "(unit, bucket_state) world" where
  "odd_world = sample_world\<lparr>wd_artifacts := [0 \<mapsto> Answered Panic]\<rparr>"

lemma odd_lawful: "s3_lawful odd_server stored_objects stored_parts"
  using sample_s3_laws sample_bodies
  by (simp add: s3_lawful_def odd_server_def sample_server_def s3_uploads_def s3_completes_def)

lemma odd_reachable: "reachable odd_server (boot sample_db sample_net sample_s3) odd_world"
proof -
  have "artifact_start (sv_s3_client odd_server) (sv_bucket odd_server) 2 sample_db = (Answered Panic, sample_db)"
    by (simp add: artifact_start_def get_artifact_from_database_def select_artifact_def sample_defs redirect_to_def
        presign_request_def odd_server_def sample_server_def sample_s3_client_def artifact_response_def header_value_ok_def)
  then have "step odd_server sample_world odd_world"
    using step.artifact_request [of sample_world 0 odd_server 2 "Answered Panic" sample_db]
    by (simp add: odd_world_def world_defs)
  then show ?thesis unfolding sample_world_def [symmetric] by (meson start next_step)
qed

theorem artifact_requests_panic_only_at_redirect_witness:
  "\<exists>a uri. presign_request (sv_s3_client odd_server) ''b'' ''p/'' a = Ok uri \<and> \<not> header_value_ok uri"
proof -
  have "db_inv odd_server stored_objects (boot sample_db sample_net sample_s3)"
    using sample_db_inv_boot by (simp add: db_inv_boot odd_server_def)
  moreover have "wd_artifacts odd_world 0 = Some (Answered Panic)" by (simp add: odd_world_def)
  ultimately show ?thesis
    using artifact_requests_panic_only_at_redirect [OF odd_lawful _ odd_reachable]
    by (simp add: odd_server_def sample_server_def sample_args_def)
qed

text \<open>Downloads of row 1 on the sample server, up to the recording. \<open>at_phase\<close> is the sample
  server with given requests.\<close>

definition at_phase :: "requests \<Rightarrow> (unit, bucket_state) artifact_world \<Rightarrow> (unit, bucket_state) world" where
  "at_phase rs w = (put_view w sample_world)\<lparr>wd_artifacts := rs\<rparr>"

definition racing_details :: artifact_details where
  "racing_details = \<lparr>ad_version_id = 1, ad_hostname = ''r'', ad_namespace = ''n'', ad_provider_type = ''t'',
     ad_version = ''1.0'', ad_os = ''linux'', ad_arch = ''amd64'', ad_artifact_id = None\<rparr>"

abbreviation racing_artifact :: "int \<Rightarrow> artifact" where
  "racing_artifact \<equiv> artifact_of racing_details"

abbreviation "sample_body \<equiv> [Ok [1], Ok [2]] :: (bytes, reqwest_error) result list"

abbreviation sample_piece where
  "sample_piece \<equiv> artifact_piece sample_upstream 443 sample_s3_client sample_args"

lemma at_phase_simps [simp]:
  "wd_status (at_phase rs w) = Waiting" "wd_artifacts (at_phase rs w) = rs" "wd_db (at_phase rs w) = aw_db w"
  "artifact_view (at_phase rs w) = w" "put_view w' (at_phase rs w) = at_phase rs w'"
  "(at_phase rs w)\<lparr>wd_artifacts := rs'\<rparr> = at_phase rs' w" "wd_s3 (at_phase rs w) = aw_s3 w"
  by (simp_all add: at_phase_def put_view_def artifact_view_def world_defs)

lemma sample_server_parts:
  "sv_s3_client sample_server = sample_s3_client" "sv_bucket sample_server = sample_args"
  "sv_upstream sample_server = sample_upstream" "sv_port sample_server = 443"
  by (simp_all add: sample_server_def)

lemma piece_reach:
  assumes "reachable sample_server s0 (at_phase rs w)" and "rs i = Some ph"
    and "sample_piece half ph w = Some (ph', w')"
  shows "reachable sample_server s0 (at_phase (rs(i \<mapsto> ph')) w')"
proof -
  have "step sample_server (at_phase rs w) ((at_phase rs w')\<lparr>wd_artifacts := (wd_artifacts (at_phase rs w))(i \<mapsto> ph')\<rparr>)"
    by (rule step.artifact_piece) (use assms(2,3) in \<open>auto simp: artifact_step_def sample_server_parts\<close>)
  with assms(1) show ?thesis by (auto intro: next_step)
qed

lemma piece_go:
  "reachable sample_server s0 (at_phase (rs(i \<mapsto> ph)) w) \<Longrightarrow> sample_piece half ph w = Some (ph', w') \<Longrightarrow>
    reachable sample_server s0 (at_phase (rs(i \<mapsto> ph')) w')"
  using piece_reach [of s0 "rs(i \<mapsto> ph)" w i ph half ph' w'] by simp

definition racing_db :: "int \<Rightarrow> pg" where
  "racing_db n = sample_db\<lparr>artifact_ids := n\<rparr>"

lemma sample_fetch:
  assumes "aw_db w = racing_db n"
  shows "\<exists>nt. sample_piece Fetch (Joining racing_details (Some i) None) w =
     Some (Stashing (racing_artifact i) sample_body, w\<lparr>aw_net := nt\<rparr>) \<and>
     (\<exists>req \<in> set (sent nt). req_headers req = [(''authorization'', ''Bearer secret'')])"
  using assms
  by (cases w; cases "aw_net w") (simp add: artifact_piece_def artifact_fetch_def get_upstream_def client_defs
      racing_db_def racing_details_def http_get_def bearer_auth_def)

lemma sample_allocation:
  assumes "aw_db w = racing_db n" and "0 < n" and "n < i64_max"
  shows "sample_piece Allocation (Joining racing_details None None) w =
     Some (Joining racing_details (Some n) None, w\<lparr>aw_db := racing_db (n + 1)\<rparr>)"
  using assms
  by (simp add: artifact_piece_def artifact_allocate_def allocate_artifact_id_def next_artifact_id_def
      nextval_def racing_db_def sample_defs)

lemma sample_start:
  "artifact_start sample_s3_client sample_args 1 (racing_db n) = (Joining racing_details None None, racing_db n)"
  by (simp add: artifact_start_def get_artifact_from_database_def select_artifact_def racing_db_def
      sample_defs racing_details_def)

lemma sample_upload:
  "\<exists>st. sample_piece half (Stashing a sample_body) w =
     Some (Uploading a (upload_name (uploads_begun (s3_peer (aw_s3 w)))) sample_body [] [] 1, w\<lparr>aw_s3 := st\<rparr>)"
  "sample_piece half (Uploading a uid sample_body [] [] 1) w = Some (Uploading a uid [Ok [2]] [1] [] 1, w)"
  "sample_piece half (Uploading a uid [Ok [2]] [1] [] 1) w = Some (Uploading a uid [] [1, 2] [] 1, w)"
  "\<exists>st. sample_piece half (Uploading a uid [] [1, 2] [] 1) w =
     Some (Completing a uid [\<lparr>cp_e_tag = ''tag'', cp_part_number = 1\<rparr>], w\<lparr>aw_s3 := st\<rparr>)"
  "\<exists>st. sample_piece half (Completing a uid parts) w = Some (Recording a, w\<lparr>aw_s3 := st\<rparr>)"
  by (simp_all add: artifact_piece_def artifact_create_def artifact_complete_def stash_rest_def send_part_def s3_do_def
      sample_s3_client_def s3_minimum_upload_chunk_bytes_def Let_def)
    (rule exI, rule refl)+

text \<open>One request gets to the point where it has fetched the archive, and to the recording.\<close>

lemma sample_fetched:
  assumes "reachable sample_server s0 (at_phase rs w)" and "aw_db w = racing_db n" and "0 < n" and "n < i64_max"
    and "rs i = None"
  shows "\<exists>w'. reachable sample_server s0 (at_phase (rs(i \<mapsto> Stashing (racing_artifact n) sample_body)) w') \<and>
    aw_db w' = racing_db (n + 1) \<and>
    (\<exists>req \<in> set (sent (aw_net w')). req_headers req = [(''authorization'', ''Bearer secret'')])"
proof -
  have "set_db (racing_db n) (at_phase rs w) = at_phase rs w"
    using assms(2) by (simp add: at_phase_def put_view_def set_db_def)
  then have "step sample_server (at_phase rs w) (at_phase (rs(i \<mapsto> Joining racing_details None None)) w)"
    using step.artifact_request [of "at_phase rs w" i sample_server 1 "Joining racing_details None None" "racing_db n"]
      sample_start [of n] assms(2,5) by (simp add: sample_server_parts)
  from piece_go [OF next_step [OF assms(1) this] sample_allocation [OF assms(2-4)]]
  have joined: "reachable sample_server s0
      (at_phase (rs(i \<mapsto> Joining racing_details (Some n) None)) (w\<lparr>aw_db := racing_db (n + 1)\<rparr>))" .
  obtain nt where "sample_piece Fetch (Joining racing_details (Some n) None) (w\<lparr>aw_db := racing_db (n + 1)\<rparr>) =
      Some (Stashing (racing_artifact n) sample_body, w\<lparr>aw_db := racing_db (n + 1), aw_net := nt\<rparr>)"
      and "\<exists>req \<in> set (sent nt). req_headers req = [(''authorization'', ''Bearer secret'')]"
    using sample_fetch [of "w\<lparr>aw_db := racing_db (n + 1)\<rparr>" "n + 1" n] by auto
  with piece_go [OF joined this(1)] show ?thesis
    by (intro exI [of _ "w\<lparr>aw_db := racing_db (n + 1), aw_net := nt\<rparr>"]) simp
qed

lemma sample_recording:
  assumes "reachable sample_server s0 (at_phase rs w)" and "rs i = Some (Stashing a sample_body)"
  shows "\<exists>w'. reachable sample_server s0 (at_phase (rs(i \<mapsto> Recording a)) w') \<and> aw_db w' = aw_db w"
proof -
  have "rs = rs(i \<mapsto> Stashing a sample_body)" using assms(2) by auto
  with assms(1) have start: "reachable sample_server s0 (at_phase (rs(i \<mapsto> Stashing a sample_body)) w)" by simp
  obtain st1 uid where "reachable sample_server s0 (at_phase (rs(i \<mapsto> Uploading a uid sample_body [] [] 1)) (w\<lparr>aw_s3 := st1\<rparr>))"
    using piece_go [OF start] sample_upload(1) by blast
  note read = piece_go [OF piece_go [OF this sample_upload(2)] sample_upload(3)]
  obtain st2 where "reachable sample_server s0 (at_phase (rs(i \<mapsto>
      Completing a uid [\<lparr>cp_e_tag = ''tag'', cp_part_number = 1\<rparr>])) (w\<lparr>aw_s3 := st1, aw_s3 := st2\<rparr>))"
    using piece_go [OF read] sample_upload(4) by blast
  note sent = this
  obtain st3 where "reachable sample_server s0 (at_phase (rs(i \<mapsto> Recording a)) (w\<lparr>aw_s3 := st1, aw_s3 := st2, aw_s3 := st3\<rparr>))"
    using piece_go [OF sent] sample_upload(5) by blast
  then show ?thesis by (intro exI [of _ "w\<lparr>aw_s3 := st1, aw_s3 := st2, aw_s3 := st3\<rparr>"]) simp
qed

text \<open>Two requests for row 1 that have both uploaded, from the start.\<close>

lemma sample_world_phase: "sample_world = at_phase Map.empty (artifact_view sample_world)"
  by (simp add: at_phase_def put_view_def artifact_view_def world_defs)

lemma sample_world_db: "aw_db (artifact_view sample_world) = racing_db 2"
  by (simp add: artifact_view_def world_defs racing_db_def sample_defs)

lemma first_fetched:
  obtains w where "reachable sample_server sample_world (at_phase [0 \<mapsto> Stashing (racing_artifact 2) sample_body] w)"
    and "aw_db w = racing_db 3"
    and "\<exists>req \<in> set (sent (aw_net w)). req_headers req = [(''authorization'', ''Bearer secret'')]"
proof -
  have "reachable sample_server sample_world (at_phase Map.empty (artifact_view sample_world))"
    by (simp add: start flip: sample_world_phase)
  from sample_fetched [OF this sample_world_db, of 0] that show ?thesis by (auto simp: i64_max_def)
qed



text \<open>The first download, in a deployment of two servers.\<close>

lemma sample_downloads:
  obtains c c' where "cluster_run (\<lambda>_. sample_server) sample_cluster c"
    and "wd_artifacts (cl_nodes c 0) 0 = Some (Stashing (racing_artifact 2) sample_body)"
    and "wd_status (cl_nodes c 0) \<noteq> Crashed"
    and "cluster_run (\<lambda>_. sample_server) c c'" and "wd_artifacts (cl_nodes c' 0) 0 = Some (Recording (racing_artifact 2))"
proof -
  obtain w where w: "reachable sample_server sample_world (at_phase [0 \<mapsto> Stashing (racing_artifact 2) sample_body] w)"
    by (rule first_fetched)
  obtain w' where w': "reachable sample_server (at_phase [0 \<mapsto> Stashing (racing_artifact 2) sample_body] w)
      (at_phase [0 \<mapsto> Recording (racing_artifact 2)] w')"
    using sample_recording [OF start, of "[0 \<mapsto> Stashing (racing_artifact 2) sample_body]" 0 "racing_artifact 2" w] by auto
  have "node 0 sample_cluster = sample_world" by (simp add: sample_cluster_node sample_world_def)
  with reachable_in_cluster [of "\<lambda>_. sample_server" 0 sample_cluster] w obtain c where
      c: "cluster_run (\<lambda>_. sample_server) sample_cluster c" "node 0 c = at_phase [0 \<mapsto> Stashing (racing_artifact 2) sample_body] w"
    by metis
  with reachable_in_cluster [of "\<lambda>_. sample_server" 0 c] w' obtain c' where
      c': "cluster_run (\<lambda>_. sample_server) c c'" "node 0 c' = at_phase [0 \<mapsto> Recording (racing_artifact 2)] w'"
    by metis
  have "wd_artifacts (node 0 c) 0 = Some (Stashing (racing_artifact 2) sample_body)" "wd_status (node 0 c) \<noteq> Crashed"
    "wd_artifacts (node 0 c') 0 = Some (Recording (racing_artifact 2))" by (simp_all only: c(2) c'(2)) simp_all
  with c(1) c'(1) that show ?thesis by simp
qed

lemma sample_hosts: "hosts_known (sv_upstream sample_server) (sv_port sample_server) sample_db"
  using sample_db_inv_boot by (simp add: db_inv_boot)


theorem artifact_requests_end_witness:
  "\<exists>c r. cluster_run (\<lambda>_. sample_server) sample_cluster c \<and> wd_artifacts (cl_nodes c 0) 0 = Some (Answered r)"
proof -
  obtain c where c: "cluster_run (\<lambda>_. sample_server) sample_cluster c"
      "wd_artifacts (cl_nodes c 0) 0 = Some (Stashing (racing_artifact 2) sample_body)" "wd_status (cl_nodes c 0) \<noteq> Crashed"
    by (rule sample_downloads)
  from artifact_requests_end [OF c(1) [unfolded sample_cluster_def] c(3,2)] obtain c' r where
      "cluster_run (\<lambda>_. sample_server) c c'" "wd_artifacts (cl_nodes c' 0) 0 = Some (Answered r)" by auto
  with rtranclp_trans [OF c(1)] show ?thesis by blast
qed

theorem downloads_intact_witness:
  "\<exists>c. cluster_run (\<lambda>_. sample_server) sample_cluster c \<and>
    stored_objects (s3_peer (cl_s3 c)) ''b'' ''p/artifacts/2'' = Some [1, 2]"
proof -
  obtain c c' where c: "cluster_run (\<lambda>_. sample_server) sample_cluster c"
      "wd_artifacts (cl_nodes c 0) 0 = Some (Stashing (racing_artifact 2) sample_body)"
      "cluster_run (\<lambda>_. sample_server) c c'" "wd_artifacts (cl_nodes c' 0) 0 = Some (Recording (racing_artifact 2))"
    by (rule sample_downloads)
  have small: "length (concat (List.map_filter ok_value sample_body)) < 2 ^ 32 * s3_minimum_upload_chunk_bytes"
    by (simp add: map_filter_simps s3_minimum_upload_chunk_bytes_def)
  have "artifacts_present stored_objects (sv_bucket sample_server) sample_db sample_s3"
    using sample_present by (simp add: sample_server_def)
  moreover have "af_artifact_id (racing_artifact 2) \<in> set (artifact_id_column (versions (cl_db c'))) \<or>
      (\<exists>j l b. wd_artifacts (cl_nodes c' j) l = Some (Recording b) \<and> af_artifact_id b = af_artifact_id (racing_artifact 2))"
    using c(4) by blast
  moreover have "s3_apart (sv_s3_client sample_server) stored_parts begun_uploads"
    using sample_s3_apart by (simp add: sample_server_parts)
  ultimately obtain cs where cs: "sample_body = map Ok cs" "stored_objects (s3_peer (cl_s3 c'))
      (s3_bucket_name (sv_bucket sample_server)) (artifact_key (sv_bucket sample_server) (af_artifact_id (racing_artifact 2))) =
      Some (concat cs)"
    using downloads_intact [OF sample_deployment sample_lawful _ sample_db_wf(1) _ sample_hosts
      c(1) [unfolded sample_cluster_def] c(2) small c(3)] by meson
  from cs(1) have "cs = [[1], [2]]" by (auto simp: Cons_eq_map_conv)
  with cs(2) have "stored_objects (s3_peer (cl_s3 c')) ''b'' ''p/artifacts/2'' = Some [1, 2]"
    by (simp add: sample_server_parts sample_args_def artifact_key_def show_int_one)
  with rtranclp_trans [OF c(1,3)] show ?thesis by blast
qed

theorem archives_never_change_witness:
  "\<exists>c c' content. cluster_run (\<lambda>_. sample_server) c c' \<and> wd_artifacts (cl_nodes c 0) 0 \<noteq> None \<and>
    wd_artifacts (cl_nodes c' 0) 0 = None \<and>
    stored_objects (s3_peer (cl_s3 c)) ''b'' ''p/artifacts/2'' = Some content \<and>
    stored_objects (s3_peer (cl_s3 c')) ''b'' ''p/artifacts/2'' = Some content"
proof -
  obtain c0 c where c: "cluster_run (\<lambda>_. sample_server) sample_cluster c0" "cluster_run (\<lambda>_. sample_server) c0 c"
      "wd_artifacts (cl_nodes c 0) 0 = Some (Recording (racing_artifact 2))"
    by (rule sample_downloads)
  let ?c = "put_node 0 (boot (cl_db c) (rs_net (wd_refresher (cl_nodes c 0))) (cl_s3 c)) c"
  have run: "cluster_run (\<lambda>_. sample_server) c ?c" by (rule r_into_rtranclp) (rule cluster_step.restart [OF refl])
  have "artifacts_present stored_objects (sv_bucket sample_server) sample_db sample_s3"
    using sample_present by (simp add: sample_server_def)
  moreover have "2 \<in> set (artifact_id_column (versions (cl_db c))) \<or>
      (\<exists>k i a. wd_artifacts (cl_nodes c k) i = Some (Recording a) \<and> af_artifact_id a = 2)"
    using c(3) artifact_of_simps(1) by blast
  ultimately obtain content where "stored_objects (s3_peer (cl_s3 c)) ''b'' ''p/artifacts/2'' = Some content"
      "stored_objects (s3_peer (cl_s3 ?c)) ''b'' ''p/artifacts/2'' = Some content"
    using archives_never_change [OF sample_deployment sample_lawful sample_db_wf(1) _ sample_hosts
      rtranclp_trans [OF c(1,2), unfolded sample_cluster_def] run, of 2]
    by (auto simp: sample_server_parts sample_args_def artifact_key_def show_int_one)
  moreover have "wd_artifacts (cl_nodes ?c 0) 0 = None" by (simp add: boot_def)
  ultimately show ?thesis using run c(3) by blast
qed

definition bad_message :: refresh_request where
  "bad_message = \<lparr>rq_provider = \<lparr>tp_hostname = ''a b'', tp_namespace = ''n'', tp_type = ''t''\<rparr>, rq_response_channel = None\<rparr>"

definition bad_world :: "(unit, bucket_state) world" where
  "bad_world = sample_world\<lparr>wd_refreshing := Fetching bad_message\<rparr>"

lemma bad_discovery: "CHR '' '' \<in> set (discovery_url ''a b'' p)" "url_parse sample_upstream (discovery_url ''a b'' p) = None"
  by (simp_all add: discovery_url_def)

lemma bad_world_crashes: "\<exists>s'. step sample_server bad_world s' \<and> wd_status s' = Crashed"
  using bad_host_crashes [of bad_world bad_message sample_server]
  by (auto simp: bad_world_def world_defs bad_message_def sample_server_def bad_discovery)

theorem crash_only_by_bad_host_witness:
  "\<exists>m :: refresh_request. catalog (wd_db bad_world) (rq_provider m) = {} \<and>
    url_parse sample_upstream (discovery_url (tp_hostname (rq_provider m)) 443) = None"
proof -
  have "db_inv sample_server stored_objects bad_world"
    using sample_db_inv by (simp add: db_inv_def bad_world_def)
  moreover obtain s' where "step sample_server bad_world s'" "wd_status s' = Crashed" using bad_world_crashes by blast
  moreover have "wd_status bad_world \<noteq> Crashed" by (simp add: bad_world_def world_defs)
  ultimately show ?thesis using crash_only_by_bad_host [of sample_server stored_objects bad_world s']
    by (auto simp: sample_server_parts simp del: sample_upstream_simps)
qed

section \<open>The process\<close>

abbreviation sample_process :: "(unit, bucket_state) process" where
  "sample_process \<equiv> main_start sample_platform (Server sample_config) sample_db sample_net sample_s3"

abbreviation sample_run :: "(unit, bucket_state) process \<Rightarrow> (unit, bucket_state) process \<Rightarrow> bool" where
  "sample_run \<equiv> process_run sample_platform sample_upstream sample_s3_client"

lemma sample_starts: "server_starts sample_platform sample_config"
  by (simp add: server_starts_def run_server_def setup_server_def sample_platform_def sample_config_def)

lemma sample_main: "main_starts sample_platform"
  by (simp add: main_starts_def sample_platform_def)

lemma sample_process_start: "sample_process = process_start (Server sample_config) sample_db sample_net sample_s3"
  by (simp add: main_start_def sample_main)

text \<open>A server that is told to stop as soon as it runs.\<close>

definition signalled :: "(unit, bucket_state) process" where
  "signalled = sample_process\<lparr>pc_stage := Serving sample_config, pc_token := True\<rparr>"

lemma signalled_run: "sample_run sample_process signalled"
proof -
  have "process_step sample_platform sample_upstream sample_s3_client sample_process (sample_process\<lparr>pc_stage := Serving sample_config\<rparr>)"
    by (rule process_step.ready) (simp_all add: sample_process_start process_start_def sample_starts)
  moreover have "process_step sample_platform sample_upstream sample_s3_client
      (sample_process\<lparr>pc_stage := Serving sample_config\<rparr>) signalled"
    using process_step.signal [of "sample_process\<lparr>pc_stage := Serving sample_config\<rparr>" sample_platform sample_upstream sample_s3_client]
    by (simp add: signalled_def)
  ultimately show ?thesis by (meson converse_rtranclp_into_rtranclp r_into_rtranclp)
qed

theorem graceful_shutdown_witness: "\<exists>p. sample_run signalled p \<and> pc_stage p = Exited 0"
  using graceful_shutdown [OF signalled_run]
  by (simp add: signalled_def sample_process_start process_start_def boot_def)


theorem command_process_exit_witness:
  "\<exists>p :: (unit, bucket_state) process. pc_token p \<and>
    pc_stage p = Starting (Migrate \<lparr>ma_database_url = default_database_url\<rparr>)"
proof -
  let ?a = "Migrate \<lparr>ma_database_url = default_database_url\<rparr>"
  let ?p = "main_start sample_platform ?a sample_db sample_net sample_s3"
  have "sample_run ?p (?p\<lparr>pc_token := True\<rparr>)"
    by (intro r_into_rtranclp process_step.signal) (simp add: main_start_def sample_main process_start_def)
  from command_process_exit [OF this sample_main] have "pc_stage (?p\<lparr>pc_token := True\<rparr>) = Starting ?a"
    by (auto simp: main_start_def sample_main process_start_def)
  then show ?thesis by (intro exI [of _ "?p\<lparr>pc_token := True\<rparr>"]) simp
qed

theorem bad_host_ends_process_witness: "\<exists>p. sample_run sample_process p \<and> pc_stage p = Exited 101"
proof -
  have "url_parse sample_upstream (discovery_url ''a b'' (upstream_registry_port sample_config)) = None"
    by (rule bad_discovery(2))
  moreover have "fst (list_provider_versions ''a b'' ''n'' ''t'' sample_db) = Ok None"
    by (simp add: list_provider_versions_def select_versions_def sample_defs)
  ultimately show ?thesis using bad_host_ends_process [OF sample_main sample_starts] by blast
qed

end
