(* ===== verification/Mirror_Spec.thy ===== *)
theory Mirror_Spec
  imports Cluster
begin

text \<open>
  What a whole deployment promises, without its servers: a table of links, each of which names
  one platform of one provider for good and has an archive or not yet, and a table of
  credentials. The specification is four kinds of events on the two tables; the deployment of
  \<open>Cluster\<close>, with its tables, sequences, bucket, tasks, faults and crashes, refines it.
\<close>

section \<open>The specification\<close>

text \<open>A link is what the number in \<^verbatim>\<open>/artifacts/{version_id}\<close> stands for.\<close>

type_synonym platform_key = "string \<times> string \<times> string"

record link =
  li_provider :: platform_key
  li_platform :: platform_key
  li_archive :: "bytes option"

record mirror =
  mr_links :: "int \<rightharpoonup> link"
  mr_credentials :: "string \<Rightarrow> credential"

definition offered :: "(int \<rightharpoonup> link) \<Rightarrow> platform_key \<Rightarrow> platform_key set" where
  "offered L k = {li_platform l | i l. L i = Some l \<and> li_provider l = k}"

lemma offeredI: "L i = Some l \<Longrightarrow> li_provider l = k \<Longrightarrow> li_platform l = t \<Longrightarrow> t \<in> offered L k"
  by (auto simp: offered_def)

text \<open>New links of a provider: unused numbers, platforms not offered before, each once.\<close>

definition new_links :: "(int \<rightharpoonup> link) \<Rightarrow> platform_key \<Rightarrow> (int \<rightharpoonup> link) \<Rightarrow> bool" where
  "new_links L k new \<longleftrightarrow>
     dom new \<inter> dom L = {} \<and>
     (\<forall>i l. new i = Some l \<longrightarrow> li_provider l = k \<and> li_archive l = None \<and> li_platform l \<notin> offered L k) \<and>
     (\<forall>i j l l'. new i = Some l \<and> new j = Some l' \<and> li_platform l = li_platform l' \<longrightarrow> i = j)"

inductive mirror_step :: "mirror \<Rightarrow> mirror \<Rightarrow> bool" where
  stutter: "mirror_step m m"
| listed: "new_links (mr_links m) k new \<Longrightarrow> mirror_step m (m\<lparr>mr_links := mr_links m ++ new\<rparr>)"
| archived: "mr_links m i = Some l \<Longrightarrow>
    mirror_step m (m\<lparr>mr_links := (mr_links m)(i \<mapsto> l\<lparr>li_archive := Some content\<rparr>)\<rparr>)"
| credential_changed: "mirror_step m (m\<lparr>mr_credentials := request_effect r (mr_credentials m)\<rparr>)"

abbreviation mirror_run :: "mirror \<Rightarrow> mirror \<Rightarrow> bool" where
  "mirror_run \<equiv> mirror_step\<^sup>*\<^sup>*"

text \<open>What follows from the specification alone: a link keeps its number, provider and platform,
  and once it has an archive it has one; and no platform gets a second link.\<close>

definition same_target :: "link \<Rightarrow> link \<Rightarrow> bool" where
  "same_target l l' \<longleftrightarrow> li_provider l' = li_provider l \<and> li_platform l' = li_platform l \<and>
     (li_archive l \<noteq> None \<longrightarrow> li_archive l' \<noteq> None)"

lemma same_target_trans: "same_target a b \<Longrightarrow> same_target b c \<Longrightarrow> same_target a c"
  by (auto simp: same_target_def)

lemma mirror_step_link:
  assumes "mirror_step m m'" and "mr_links m i = Some l"
  shows "\<exists>l'. mr_links m' i = Some l' \<and> same_target l l'"
  using assms
  by (cases rule: mirror_step.cases) (auto simp: same_target_def new_links_def map_add_Some_iff)

lemma mirror_run_link:
  assumes "mirror_run m m'" and "mr_links m i = Some l"
  shows "\<exists>l'. mr_links m' i = Some l' \<and> same_target l l'"
  using assms
proof (induction rule: rtranclp_induct)
  case base
  then show ?case by (auto simp: same_target_def)
next
  case (step m1 m2)
  then show ?case using mirror_step_link [OF step.hyps(2)] same_target_trans by blast
qed

definition one_link_each :: "(int \<rightharpoonup> link) \<Rightarrow> bool" where
  "one_link_each L \<longleftrightarrow> (\<forall>i j l l'. L i = Some l \<and> L j = Some l' \<and>
     li_provider l = li_provider l' \<and> li_platform l = li_platform l' \<longrightarrow> i = j)"

section \<open>The tables and the bucket as a mirror\<close>

text \<open>The link of a row, with the query the endpoint itself uses to look it up.\<close>

definition stored_archive :: "'s s3_object \<Rightarrow> bucket_args \<Rightarrow> 's s3 \<Rightarrow> int option \<Rightarrow> bytes option" where
  "stored_archive object args st aid =
     (case aid of None \<Rightarrow> None | Some i \<Rightarrow> object (s3_peer st) (s3_bucket_name args) (artifact_key args i))"

definition link_at :: "'s s3_object \<Rightarrow> bucket_args \<Rightarrow> 's s3 \<Rightarrow> artifact_details \<Rightarrow> link" where
  "link_at object args st d =
     \<lparr>li_provider = (ad_hostname d, ad_namespace d, ad_provider_type d),
      li_platform = (ad_version d, ad_os d, ad_arch d),
      li_archive = stored_archive object args st (ad_artifact_id d)\<rparr>"

definition links_of :: "'s s3_object \<Rightarrow> bucket_args \<Rightarrow> pg \<Rightarrow> 's s3 \<Rightarrow> int \<rightharpoonup> link" where
  "links_of object args db st i =
     (case fst (select_artifact i db) of Ok (Some d) \<Rightarrow> Some (link_at object args st d) | _ \<Rightarrow> None)"

definition mirror_of :: "'s s3_object \<Rightarrow> bucket_args \<Rightarrow> pg \<Rightarrow> 's s3 \<Rightarrow> mirror" where
  "mirror_of object args db st =
     \<lparr>mr_links = links_of object args db st, mr_credentials = database_view db\<rparr>"

definition row_link :: "'s s3_object \<Rightarrow> bucket_args \<Rightarrow> 's s3 \<Rightarrow> platform_key \<Rightarrow> version_row \<Rightarrow> link" where
  "row_link object args st k v =
     \<lparr>li_provider = k, li_platform = version_triple v, li_archive = stored_archive object args st (vr_artifact_id v)\<rparr>"

lemma row_link_simps [simp]:
  "li_provider (row_link object args st k v) = k" "li_platform (row_link object args st k v) = version_triple v"
  "li_archive (row_link object args st k v) = stored_archive object args st (vr_artifact_id v)"
  by (simp_all add: row_link_def)

lemma link_at_details: "link_at object args st (details_of v p) = row_link object args st (provider_key p) v"
  by (simp add: link_at_def details_of_def row_link_def provider_key_def version_triple_def)

lemma pg_wf_row_ids: "pg_wf db \<Longrightarrow> v \<in> set (versions db) \<Longrightarrow> w \<in> set (versions db) \<Longrightarrow> vr_id v = vr_id w \<Longrightarrow> v = w"
  using distinct_map_inj [of vr_id "versions db"] by (simp add: wf_defs)

lemma links_of_iff:
  assumes "pg_wf db"
  shows "links_of object args db st i = Some l \<longleftrightarrow>
    (\<exists>v \<in> set (versions db). \<exists>k. vr_id v = i \<and> (vr_provider_id v, k) \<in> id_keys db \<and> l = row_link object args st k v)"
    (is "_ \<longleftrightarrow> ?R l")
proof -
  have row: "?R (link_at object args st d)" if "d \<in> set (artifact_rows i db)" for d
  proof -
    from that obtain v p where "v \<in> set (versions db)" "vr_id v = i" "p \<in> set (providers db)"
        "vr_provider_id v = pr_id p" "d = details_of v p"
      by (auto simp: artifact_rows_set)
    then show ?thesis
      by (intro bexI [of _ v] exI [of _ "provider_key p"]) (auto simp: link_at_details id_keys_def)
  qed
  have only: "l = l'" if l: "?R l" and l': "?R l'" for l l'
  proof -
    from l obtain v k where v: "v \<in> set (versions db)" "vr_id v = i" "(vr_provider_id v, k) \<in> id_keys db"
        "l = row_link object args st k v" by blast
    from l' obtain w k' where w: "w \<in> set (versions db)" "vr_id w = i" "(vr_provider_id w, k') \<in> id_keys db"
        "l' = row_link object args st k' w" by blast
    have "v = w" using pg_wf_row_ids [OF assms v(1) w(1)] v(2) w(2) by simp
    with pg_wf_id_keys [OF assms v(3) w(3)] v(4) w(4) show ?thesis by simp
  qed
  have none: "artifact_rows i db \<noteq> []" if "?R l" for l
  proof -
    from that obtain v p where "v \<in> set (versions db)" "vr_id v = i" "p \<in> set (providers db)" "vr_provider_id v = pr_id p"
      by (auto simp: id_keys_def)
    then have "details_of v p \<in> set (artifact_rows i db)" by (auto simp: artifact_rows_set)
    then show ?thesis by auto
  qed
  show ?thesis
  proof (cases "artifact_rows i db")
    case Nil
    with none [of l] show ?thesis by (auto simp: links_of_def select_artifact_rows)
  next
    case (Cons d ds)
    with row [of d] only [of "link_at object args st d" l] show ?thesis
      by (auto simp: links_of_def select_artifact_rows)
  qed
qed

lemma links_of_row:
  "pg_wf db \<Longrightarrow> v \<in> set (versions db) \<Longrightarrow> (vr_provider_id v, k) \<in> id_keys db \<Longrightarrow>
     links_of object args db st (vr_id v) = Some (row_link object args st k v)"
  using links_of_iff [of db object args st "vr_id v"] by blast

lemma links_ofE:
  assumes "links_of object args db st i = Some l" and "pg_wf db"
  obtains v k where "v \<in> set (versions db)" and "vr_id v = i" and "(vr_provider_id v, k) \<in> id_keys db"
    and "l = row_link object args st k v"
  using assms links_of_iff [of db object args st i l] by blast

text \<open>The platforms a provider is offered with are its catalogue, and every platform has one link.\<close>

lemma offered_catalog:
  assumes "pg_wf db"
  shows "offered (links_of object args db st) (provider_triple tp) = catalog db tp"
proof (rule set_eqI, rule iffI)
  fix t assume "t \<in> offered (links_of object args db st) (provider_triple tp)"
  then show "t \<in> catalog db tp"
    using assms by (auto simp: offered_def catalog_def elim!: links_ofE)
next
  fix t assume "t \<in> catalog db tp"
  then obtain v where "v \<in> set (versions db)" "(vr_provider_id v, provider_triple tp) \<in> id_keys db" "t = version_triple v"
    by (auto simp: catalog_def)
  then show "t \<in> offered (links_of object args db st) (provider_triple tp)"
    using links_of_row [OF assms, of v "provider_triple tp" object args st]
    by (simp add: offeredI [of _ "vr_id v" "row_link object args st (provider_triple tp) v"])
qed

lemma links_of_one_each:
  assumes "pg_wf db"
  shows "one_link_each (links_of object args db st)"
proof -
  have "inj_on version_key (set (versions db))" using assms by (simp add: wf_defs distinct_map)
  then have key: "v = w" if "v \<in> set (versions db)" "w \<in> set (versions db)" "version_key v = version_key w" for v w
    using that by (simp add: inj_on_def)
  show ?thesis
    unfolding one_link_each_def links_of_iff [OF assms]
  proof (intro allI impI, elim conjE bexE exE)
    fix i j l l' v w k k'
    assume v: "v \<in> set (versions db)" "vr_id v = i" "(vr_provider_id v, k) \<in> id_keys db" "l = row_link object args st k v"
      and w: "w \<in> set (versions db)" "vr_id w = j" "(vr_provider_id w, k') \<in> id_keys db" "l' = row_link object args st k' w"
      and same: "li_provider l = li_provider l'" "li_platform l = li_platform l'"
    have "vr_provider_id v = vr_provider_id w" using pg_wf_id_keys [OF assms v(3) w(3)] v(4) w(4) same(1) by simp
    then have "version_key v = version_key w" using v(4) w(4) same(2) by (simp add: version_key_def version_triple_def)
    with key [OF v(1) w(1)] v(2) w(2) show "i = j" by simp
  qed
qed

section \<open>What changes the tables\<close>

lemma mirror_of_frame:
  assumes "providers db' = providers db" and "versions db' = versions db" and "database_view db' = database_view db"
    and "\<And>aid. aid \<in> set (artifact_id_column (versions db)) \<Longrightarrow>
      object (s3_peer st') (s3_bucket_name args) (artifact_key args aid) =
      object (s3_peer st) (s3_bucket_name args) (artifact_key args aid)"
  shows "mirror_of object args db' st' = mirror_of object args db st"
proof -
  have rows: "artifact_rows i db' = artifact_rows i db" for i by (simp add: artifact_rows_def assms(1,2))
  have same: "link_at object args st' d = link_at object args st d" if "d \<in> set (artifact_rows i db)" for d i
  proof -
    from that have "aid \<in> set (artifact_id_column (versions db))" if "ad_artifact_id d = Some aid" for aid
      using that by (auto simp: artifact_rows_set artifact_id_column_set)
    with assms(4) show ?thesis by (auto simp: link_at_def stored_archive_def split: option.split)
  qed
  have "links_of object args db' st' i = links_of object args db st i" for i
    using same [of _ i] by (cases "artifact_rows i db") (simp_all add: links_of_def select_artifact_rows rows)
  then show ?thesis by (simp add: mirror_of_def assms(3) fun_eq_iff)
qed

text \<open>Storing a listing adds links of its provider.\<close>

lemma stored_links:
  assumes stored: "stored (provider_triple tp) rows db db' new" and wf: "pg_wf db" "pg_wf db'"
  shows "\<exists>nl. new_links (links_of object args db st) (provider_triple tp) nl \<and>
    links_of object args db' st = links_of object args db st ++ nl"
proof -
  let ?L = "links_of object args db st" and ?L' = "links_of object args db' st"
  from stored obtain pid where keys: "id_keys db' = insert (pid, provider_triple tp) (id_keys db)"
      and vs: "versions db' = versions db @ new" and fresh: "list_all (new_row pid) new"
    by (auto simp: stored_def)
  have old: "?L' i = Some l" if "?L i = Some l" for i l
    using that wf(1)
  proof (rule links_ofE)
    fix v k assume "v \<in> set (versions db)" "vr_id v = i" "(vr_provider_id v, k) \<in> id_keys db" "l = row_link object args st k v"
    with links_of_row [OF wf(2), of v k object args st] show ?thesis by (simp add: vs keys)
  qed
  define nl where "nl i = (if ?L i = None then ?L' i else None)" for i
  have "?L' = ?L ++ nl"
  proof
    fix i show "?L' i = (?L ++ nl) i" using old by (cases "?L i") (auto simp: map_add_def nl_def split: option.split)
  qed
  moreover have "li_provider l = provider_triple tp \<and> li_archive l = None \<and> li_platform l \<notin> offered ?L (provider_triple tp)"
    if nl: "nl i = Some l" for i l
  proof -
    from nl have "?L' i = Some l" and none: "?L i = None" by (simp_all add: nl_def split: if_splits)
    from this(1) wf(2) obtain v k where v: "v \<in> set (versions db')" "vr_id v = i" "(vr_provider_id v, k) \<in> id_keys db'"
        "l = row_link object args st k v" by (rule links_ofE)
    have "v \<notin> set (versions db)"
      using version_has_provider [OF wf(1), of v] links_of_row [OF wf(1), of v _ object args st] v(2) none by auto
    with v(1) have "v \<in> set new" by (simp add: vs)
    with fresh have row: "vr_provider_id v = pid" "vr_artifact_id v = None" by (auto simp: list_all_iff new_row_def)
    moreover have "k = provider_triple tp"
      using pg_wf_id_keys [OF wf(2) v(3), of pid "provider_triple tp"] row(1) keys by simp
    ultimately show ?thesis
      using stored_fresh [OF stored wf(2) \<open>v \<in> set new\<close>] v(4) offered_catalog [OF wf(1), of object args st tp]
      by (simp add: stored_archive_def)
  qed
  moreover have "i = j" if "nl i = Some l" "nl j = Some l'" "li_platform l = li_platform l'" for i j l l'
    using links_of_one_each [OF wf(2), of object args st] that calculation(2)
    unfolding one_link_each_def by (metis nl_def option.distinct(1))
  moreover have "dom nl \<inter> dom ?L = {}" by (auto simp: nl_def split: if_splits)
  ultimately show ?thesis unfolding new_links_def by blast
qed

text \<open>Recording an artifact gives one link its archive.\<close>

lemma recorded_links:
  assumes wf: "pg_wf db" "pg_wf db'" and ps: "providers db' = providers db"
    and vs: "versions db' = map (record_artifact aid vid t) (versions db)"
    and content: "object (s3_peer st) (s3_bucket_name args) (artifact_key args aid) = Some content"
  shows "links_of object args db' st i =
    (if i = vid then map_option (\<lambda>l. l\<lparr>li_archive := Some content\<rparr>) (links_of object args db st i)
     else links_of object args db st i)"
proof (cases "links_of object args db st i")
  case None
  have "links_of object args db' st i \<noteq> Some l" for l
  proof
    assume "links_of object args db' st i = Some l"
    from this wf(2) obtain w k where w: "w \<in> set (versions db')" "vr_id w = i" "(vr_provider_id w, k) \<in> id_keys db'"
      by (rule links_ofE)
    then obtain v where "v \<in> set (versions db)" "vr_id v = i" "vr_provider_id v = vr_provider_id w"
      by (auto simp: vs split: if_splits)
    with links_of_row [OF wf(1), of v k object args st] w(3) None show False by (simp add: id_keys_def ps)
  qed
  then have "links_of object args db' st i = None" by (cases "links_of object args db' st i") auto
  with None show ?thesis by auto
next
  case (Some l)
  from this wf(1) obtain v k where v: "v \<in> set (versions db)" "vr_id v = i" "(vr_provider_id v, k) \<in> id_keys db"
      "l = row_link object args st k v" by (rule links_ofE)
  let ?w = "record_artifact aid vid t v"
  have "?w \<in> set (versions db')" "vr_id ?w = i" "(vr_provider_id ?w, k) \<in> id_keys db'"
    using v(1-3) by (auto simp: vs id_keys_def ps)
  from links_of_row [OF wf(2) this(1,3), of object args st] this(2)
  have "links_of object args db' st i = Some (row_link object args st k ?w)" by simp
  with Some v content show ?thesis
    by (auto simp: row_link_def stored_archive_def version_triple_def)
qed

section \<open>Every step is an event\<close>

definition same_storage :: "pg \<Rightarrow> pg \<Rightarrow> bool" where
  "same_storage db db' \<longleftrightarrow> providers db' = providers db \<and> versions db' = versions db \<and>
     database_view db' = database_view db"

lemma same_storage_blind [simp]: "fault_blind (same_storage db)"
  by (simp add: fault_blind_def same_storage_def)

lemma same_storage_refl [simp]: "same_storage db db"
  by (simp add: same_storage_def)

lemma same_storage_step:
  "same_storage db db' \<Longrightarrow> mirror_step (mirror_of object args db st) (mirror_of object args db' st)"
  using mirror_of_frame [of db' db object st args st] by (simp add: same_storage_def mirror_step.stutter)

lemma allocate_storage: "same_storage db (snd (allocate_artifact_id db))"
proof -
  have "same_storage db (snd (next_artifact_id d))" if "same_storage db d" for d
    using that by (simp add: next_artifact_id_def same_storage_def database_view_def fun_eq_iff split: result.split)
  from send_statement_keeps [OF same_storage_blind this same_storage_refl] show ?thesis
    by (simp add: allocate_artifact_id_def split_beta Let_def)
qed

lemma get_upstream_storage:
  assumes "pg_wf db" and "get_upstream up port d db nt = (r, db', nt')"
  shows "same_storage db db'"
proof -
  obtain g db1 nt1 where g: "provider_get up port database_helper (json_provider up) (ad_hostname d)
      (download_path d) db nt = (g, db1, nt1)" by (metis prod_cases3)
  with assms(2) have "db' = db1"
    by (auto simp: get_upstream_def split: prod.splits run.splits result.splits option.splits)
  with provider_get_database(2,3) [OF assms(1) g] show ?thesis by (simp add: same_storage_def catalog_part_def)
qed

lemma artifact_piece_storage:
  assumes "pg_wf (aw_db w)" and "artifact_piece up port cl args half ph w = Some (ph', w')"
    and "\<nexists>a. ph = Recording a"
  shows "same_storage (aw_db w) (aw_db w')"
proof (cases ph)
  case (Joining d x y)
  show ?thesis
  proof (cases half)
    case Allocation
    with Joining assms(2) allocate_storage [of "aw_db w"] show ?thesis
      by (auto simp: artifact_piece_def artifact_allocate_def Let_def split: if_splits prod.splits result.splits)
  next
    case Fetch
    obtain r db nt where "get_upstream up port d (aw_db w) (aw_net w) = (r, db, nt)" by (metis prod_cases3)
    with Joining Fetch assms(2) get_upstream_storage [OF assms(1) this] show ?thesis
      by (auto simp: artifact_piece_def artifact_fetch_def Let_def split: if_splits prod.splits run.splits result.splits)
  qed
qed (use assms(2,3) in \<open>auto simp: artifact_piece_def Let_def split: prod.splits\<close>)

lemma artifact_record_mirror:
  assumes inv: "requests_ok cl object args rs db st" and wf: "pg_wf db" and i: "rs i = Some (Recording a)"
    and run: "artifact_record cl args a db = (ph, db')"
  shows "mirror_step (mirror_of object args db st) (mirror_of object args db' st)"
proof -
  let ?aid = "af_artifact_id a" and ?vid = "af_version_id a" and ?L = "links_of object args"
  have wf': "pg_wf db'" and ps: "providers db' = providers db"
    using artifact_record_ok(2,3) [OF inv wf i run] by (simp_all add: same_rows_def)
  have "db' = snd (send_statement (update_artifact ?aid ?vid) db)"
    using run by (auto simp: artifact_record_def store_artifact_in_database_def Let_def split: prod.splits result.splits)
  with send_statement_outcome [of "update_artifact ?aid ?vid" db] consider "versions db' = versions db"
    | "versions db' = map (record_artifact ?aid ?vid (now db)) (versions db)"
    by (auto simp: update_artifact_def split: if_splits)
  moreover have view: "database_view db' = database_view db"
    using send_statement_outcome [of "update_artifact ?aid ?vid" db] \<open>db' = _\<close>
    by (auto simp: update_artifact_def database_view_def fun_eq_iff split: if_splits)
  ultimately show ?thesis
  proof cases
    case 1
    with ps view show ?thesis by (simp add: same_storage_step same_storage_def)
  next
    case 2
    from requests_okD [OF inv i] obtain content where
        content: "object (s3_peer st) (s3_bucket_name args) (artifact_key args ?aid) = Some content"
      by (auto simp: phase_ok_def relies_ok_def settled_def)
    note links = recorded_links [where object = object and args = args and st = st, OF wf wf' ps 2 content]
    show ?thesis
    proof (cases "?L db st ?vid")
      case None
      then have "?L db' st = ?L db st" by (auto simp: fun_eq_iff links)
      then show ?thesis by (simp add: mirror_of_def view mirror_step.stutter)
    next
      case (Some l)
      then have "?L db' st = (?L db st)(?vid \<mapsto> l\<lparr>li_archive := Some content\<rparr>)"
        by (auto simp: fun_eq_iff links)
      with mirror_step.archived [of "mirror_of object args db st" ?vid l content] Some show ?thesis
        by (simp add: mirror_of_def view)
    qed
  qed
qed

lemma artifact_piece_mirror:
  assumes s3: "s3_uploads cl object pending" "s3_completes cl object pending"
    and inv: "requests_ok cl object args rs (aw_db w) (aw_s3 w)" and wf: "pg_wf (aw_db w)" and i: "rs i = Some ph"
    and run: "artifact_piece up port cl args half ph w = Some (ph', w')"
  shows "mirror_step (mirror_of object args (aw_db w) (aw_s3 w)) (mirror_of object args (aw_db w') (aw_s3 w'))"
proof (cases "\<exists>a. ph = Recording a")
  case True
  with run artifact_record_mirror [OF inv wf] i show ?thesis
    by (auto simp: artifact_piece_def split: prod.splits)
next
  case False
  from artifact_turn_ok [OF s3 inv wf artifact_piece_turn [where rs = rs and i = i, OF i run]]
  have kept: "contents_kept object args rs (aw_db w) (aw_s3 w) (aw_s3 w')" by simp
  have "mirror_of object args (aw_db w') (aw_s3 w') = mirror_of object args (aw_db w) (aw_s3 w)"
    using artifact_piece_storage [OF wf run False] kept inv
    by (intro mirror_of_frame) (simp_all add: same_storage_def contents_kept_def requests_ok_def)
  then show ?thesis by (simp add: mirror_step.stutter)
qed

lemma refresh_step_mirror:
  assumes inv: "db_inv sv object s" and run: "refresh_step sv s = Some s'"
  shows "mirror_step (mirror_of object args (wd_db s) (wd_s3 s)) (mirror_of object args (wd_db s') (wd_s3 s'))"
proof -
  have wf: "pg_wf (wd_db s)" and wf': "pg_wf (wd_db s')"
    using inv refresh_step_inv [OF inv run] by (simp_all add: db_inv_def)
  have s3: "wd_s3 s' = wd_s3 s" using refresh_step_tables [OF wf run] by simp
  show ?thesis
  proof (cases "wd_refreshing s")
    case Idle
    with run have "wd_db s' = wd_db s" by (auto simp: refresh_step_def advance_def split: option.splits)
    with s3 show ?thesis by (simp add: mirror_step.stutter)
  next
    case (Fetching m)
    obtain r st where f: "refresh_fetch (sv_upstream sv) (sv_port sv) m (wd_time s) (wd_refresher s) = (r, st)"
      by fastforce
    with run Fetching have "wd_refresher s' = st" by (auto simp: refresh_step_def advance_def split: run.splits)
    with refresh_fetch_database(2,3) [OF wf f] s3 show ?thesis
      by (simp add: same_storage_step same_storage_def catalog_part_def)
  next
    case (Saving m pv)
    obtain r db where st: "store_provider (rq_provider m) pv (wd_db s) = (r, db)" by fastforce
    with run Saving have db: "wd_db s' = db"
      by (auto simp: refresh_step_def advance_def refresh_save_def refresh_finish_def Let_def split: prod.splits result.splits)
    from wf st show ?thesis
    proof (cases rule: store_provider_cases)
      case kept
      with s3 show ?thesis by (simp add: db same_storage_step same_storage_def database_view_def fun_eq_iff)
    next
      case (added new)
      from stored_links [OF added(1) wf added(3), of object args "wd_s3 s"] obtain nl where
          "new_links (links_of object args (wd_db s) (wd_s3 s)) (provider_triple (rq_provider m)) nl"
          "links_of object args db (wd_s3 s) = links_of object args (wd_db s) (wd_s3 s) ++ nl" by blast
      moreover have "database_view db = database_view (wd_db s)"
        using added(4) by (simp add: database_view_def fun_eq_iff)
      ultimately show ?thesis
        using mirror_step.listed [of "mirror_of object args (wd_db s) (wd_s3 s)"]
        by (simp add: db s3 mirror_of_def)
    qed
  qed
qed

lemma step_mirror:
  assumes laws: "s3_lawful sv object pending" and inv: "db_inv sv object s" and step: "step sv s s'"
  shows "mirror_step (mirror_of object (sv_bucket sv) (wd_db s) (wd_s3 s)) (mirror_of object (sv_bucket sv) (wd_db s') (wd_s3 s'))"
  using step
proof (cases rule: step.cases)
  have wf: "pg_wf (wd_db s)" and ok: "requests_ok (sv_s3_client sv) object (sv_bucket sv) (wd_artifacts s) (wd_db s) (wd_s3 s)"
    using inv by (simp_all add: db_inv_def)
  {
    case (index_request h n ty ph db ch)
    then have "db = snd (list_provider_versions h n ty (wd_db s))"
      using index_start_db [of h n ty "wd_time s" "wd_db s" "wd_channel s"] by simp
    with index_request list_provider_versions_keeps [of "same_storage (wd_db s)" "wd_db s" h n ty] show ?thesis
      by (simp add: set_db_def same_storage_step)
  next
    case refresh
    then show ?thesis using refresh_step_mirror [OF inv] by simp
  next
    case (credentials r a st)
    have "catalog_part (Credential_Api.credentials st) = catalog_part (wd_db s)"
      using routes_catalog_part [OF credentials(3)] by simp
    then have same: "providers (Credential_Api.credentials st) = providers (wd_db s)"
        "versions (Credential_Api.credentials st) = versions (wd_db s)" by (simp_all add: catalog_part_def)
    have "links_of object args (Credential_Api.credentials st) (wd_s3 s) = links_of object args (wd_db s) (wd_s3 s)" for args
      by (simp add: links_of_def fun_eq_iff select_artifact_def same)
    moreover have "database_view (Credential_Api.credentials st) \<in> {request_effect r (database_view (wd_db s)), database_view (wd_db s)}"
      using pgc.routes_answer(2) [OF _ credentials(3)] wf by (auto simp: answer_ok_def)
    ultimately show ?thesis
      using mirror_step.credential_changed [of "mirror_of object (sv_bucket sv) (wd_db s) (wd_s3 s)" r]
      by (auto simp: credentials(1) set_db_def mirror_of_def mirror_step.stutter)
  next
    case (version_request tp segment r db)
    with version_endpoint_keeps [of "same_storage (wd_db s)" "wd_db s" "sv_redirect_url sv" tp segment]
    show ?thesis by (simp add: set_db_def same_storage_step)
  next
    case (artifact_request i vid ph db)
    then have "db = snd (get_artifact_from_database vid (wd_db s))"
      by (auto simp: artifact_start_def split: prod.splits result.splits option.splits)
    with artifact_request get_artifact_keeps [of "same_storage (wd_db s)" "wd_db s" vid] show ?thesis
      by (simp add: set_db_def same_storage_step)
  next
    case (artifact_piece i ph half ph' t)
    then obtain w where w: "artifact_piece (sv_upstream sv) (sv_port sv) (sv_s3_client sv) (sv_bucket sv) half ph (artifact_view s) =
        Some (ph', w)" and t: "t = put_view w s"
      by (auto simp: artifact_step_def)
    from artifact_piece_mirror [where rs = "wd_artifacts s" and i = i, OF _ _ _ _ artifact_piece(3) w, of object pending]
      laws wf ok artifact_piece(1) t show ?thesis
      by (simp add: s3_lawful_def put_view_def artifact_view_def)
  }
qed (simp_all add: mirror_step.stutter)

lemma cluster_step_mirror:
  assumes "same_deployment cfg sv" and "s3_lawful cfg object pending" and "cluster_inv cfg object c"
    and "cluster_step sv c c'"
  shows "mirror_step (mirror_of object (sv_bucket cfg) (cl_db c) (cl_s3 c)) (mirror_of object (sv_bucket cfg) (cl_db c') (cl_s3 c'))"
  using assms(4)
proof (cases rule: cluster_step.cases)
  case (turn k s)
  have bucket: "sv_bucket (sv k) = sv_bucket cfg" using assms(1) by (simp add: same_deployment_def)
  from step_mirror [OF _ _ turn_gather [of sv, OF turn(2)], of object pending] assms(1-3) show ?thesis
    by (simp add: turn(1) bucket same_deployment_db_inv cluster_inv_def)
next
  case (restart k nt)
  then show ?thesis by (simp add: boot_def mirror_step.stutter)
qed

lemma cluster_run_mirror:
  assumes "cluster_run sv c c'" and "same_deployment cfg sv" and "s3_lawful cfg object pending"
    and "cluster_inv cfg object c"
  shows "mirror_run (mirror_of object (sv_bucket cfg) (cl_db c) (cl_s3 c)) (mirror_of object (sv_bucket cfg) (cl_db c') (cl_s3 c'))"
  using assms(1)
proof (induction rule: rtranclp_induct)
  case base
  then show ?case by simp
next
  case (step c1 c2)
  have "cluster_inv cfg object c1" using cluster_run_inv [OF step.hyps(1) assms(2-4)] by simp
  with step.IH cluster_step_mirror [OF assms(2,3) _ step.hyps(2)] show ?case by (metis rtranclp.rtrancl_into_rtrancl)
qed

section \<open>Properties\<close>

text \<open>
  C4: a deployment refines its specification. In any state several servers get into, with any
  interleaving, failing statements, crashes and restarts, one more step of any of them is, on
  the tables and the bucket, one event of the specification or none: new links for one provider
  with numbers never used and platforms it was not offered with, an archive for one link, or
  the change of one host's credential that a request to the API asks for. The platforms a
  provider is offered with are the catalogue of the index and version endpoints, and none of
  them ever has two links.
\<close>

theorem deployment_refines:
  assumes "same_deployment cfg sv" and "s3_lawful cfg object pending"
    and "pg_wf db" and "artifacts_present object (sv_bucket cfg) db st"
    and "hosts_known (sv_upstream cfg) (sv_port cfg) db"
    and "cluster_run sv (cluster_boot db nts st) c" and "cluster_step sv c c'"
  shows "mirror_step (mirror_of object (sv_bucket cfg) (cl_db c) (cl_s3 c)) (mirror_of object (sv_bucket cfg) (cl_db c') (cl_s3 c')) \<and>
    one_link_each (mr_links (mirror_of object (sv_bucket cfg) (cl_db c') (cl_s3 c'))) \<and>
    (\<forall>tp. offered (mr_links (mirror_of object (sv_bucket cfg) (cl_db c') (cl_s3 c'))) (provider_triple tp) = catalog (cl_db c') tp)"
proof -
  have inv: "cluster_inv cfg object c"
    using cluster_run_inv [OF assms(6,1,2)] assms(3-5) by (simp add: cluster_inv_boot)
  then have "pg_wf (cl_db c')" using cluster_step_inv [OF assms(1,2) inv assms(7)] by (simp add: cluster_inv_node)
  with cluster_step_mirror [OF assms(1,2) inv assms(7)] show ?thesis
    by (simp add: mirror_of_def links_of_one_each offered_catalog)
qed

text \<open>
  C7: a link stays what it is. The number in a download URL that the version endpoint has given
  out means, on every server and after any crash, for good the same platform of the same
  provider; and from the moment an archive is on record for it there always is one, in the
  bucket. It follows from the specification, which a deployment refines.
\<close>

theorem links_are_permanent:
  assumes "same_deployment cfg sv" and "s3_lawful cfg object pending"
    and "pg_wf db" and "artifacts_present object (sv_bucket cfg) db st"
    and "hosts_known (sv_upstream cfg) (sv_port cfg) db"
    and "cluster_run sv (cluster_boot db nts st) c" and "cluster_run sv c c'"
    and "fst (select_artifact i (cl_db c)) = Ok (Some d)"
  shows "\<exists>d'. fst (select_artifact i (cl_db c')) = Ok (Some d') \<and> download_path d' = download_path d \<and>
    ad_hostname d' = ad_hostname d \<and> ad_namespace d' = ad_namespace d \<and> ad_provider_type d' = ad_provider_type d \<and>
    ad_version d' = ad_version d \<and> ad_os d' = ad_os d \<and> ad_arch d' = ad_arch d \<and>
    (ad_artifact_id d \<noteq> None \<longrightarrow> (\<exists>aid. ad_artifact_id d' = Some aid \<and>
       object (s3_peer (cl_s3 c')) (s3_bucket_name (sv_bucket cfg)) (artifact_key (sv_bucket cfg) aid) \<noteq> None))"
proof -
  let ?args = "sv_bucket cfg"
  have inv: "cluster_inv cfg object c"
    using cluster_run_inv [OF assms(6,1,2)] assms(3-5) by (simp add: cluster_inv_boot)
  then have wf: "pg_wf (cl_db c)" and ok: "requests_ok (sv_s3_client cfg) object ?args (cluster_requests c) (cl_db c) (cl_s3 c)"
    by (simp_all add: cluster_inv_node)
  have link: "mr_links (mirror_of object ?args (cl_db c) (cl_s3 c)) i = Some (link_at object ?args (cl_s3 c) d)"
    using assms(8) by (simp add: mirror_of_def links_of_def)
  from mirror_run_link [OF cluster_run_mirror [OF assms(7,1,2) inv] link] obtain l' where
      l': "links_of object ?args (cl_db c') (cl_s3 c') i = Some l'" "same_target (link_at object ?args (cl_s3 c) d) l'"
    by (auto simp: mirror_of_def)
  then obtain d' where d': "fst (select_artifact i (cl_db c')) = Ok (Some d')" "l' = link_at object ?args (cl_s3 c') d'"
    by (auto simp: links_of_def split: result.splits option.splits)
  have "stored_archive object ?args (cl_s3 c) (ad_artifact_id d) \<noteq> None" if "ad_artifact_id d \<noteq> None"
  proof -
    have "d \<in> set (artifact_rows i (cl_db c))" using assms(8) by (auto simp: select_artifact_rows split: list.splits)
    then have "aid \<in> set (artifact_id_column (versions (cl_db c)))" if "ad_artifact_id d = Some aid" for aid
      using that by (auto simp: artifact_rows_set artifact_id_column_set)
    with that ok show ?thesis by (auto simp: requests_ok_def settled_def stored_archive_def)
  qed
  with l'(2) d' show ?thesis
    by (auto simp: same_target_def link_at_def stored_archive_def download_path_def split: option.splits)
qed

end
