(* ===== verification/Download_Success.thy ===== *)
theory Download_Success
  imports Artifact_Safety
begin

text \<open>
  Total correctness of a download: with S3, PostgreSQL and the registry as documented and none
  of them failing, the first request for an archive is answered with the redirect. S3 is only
  asked to accept what its documentation allows, so the proof is that the code's uploads keep
  all its rules.
\<close>

section \<open>What S3 accepts\<close>

text \<open>
  The limits of a multipart upload: part numbers 1 to 10000, parts of up to 5 GiB, and at least
  5 MiB but for the last; and to complete it, at least one part, in ascending order, each with
  the tag of its upload. \<open>live\<close> are the uploads S3 has created.
\<close>

definition s3_part_list :: "(i32 \<rightharpoonup> string \<times> bytes) \<Rightarrow> completed_part list \<Rightarrow> bool" where
  "s3_part_list uploaded parts \<longleftrightarrow>
     parts \<noteq> [] \<and>
     sorted_wrt (\<lambda>p q. unat (cp_part_number p) < unat (cp_part_number q)) parts \<and>
     (\<forall>p \<in> set parts. \<exists>b. uploaded (cp_part_number p) = Some (cp_e_tag p, b)) \<and>
     (\<forall>p \<in> set (butlast parts). 5242880 \<le> length (snd (the (uploaded (cp_part_number p)))))"

definition s3_accepts :: "'s s3_client \<Rightarrow> 's s3_pending \<Rightarrow> ('s \<Rightarrow> string set) \<Rightarrow> bool" where
  "s3_accepts cl pending live \<longleftrightarrow>
     (\<forall>bucket key s. \<exists>uid s'. create_multipart_upload cl bucket key s = (Ok (Some uid), s') \<and> uid \<in> live s') \<and>
     (\<forall>bucket key uid body n s. uid \<in> live s \<and> body \<noteq> [] \<and> length body \<le> 5368709120 \<and> 1 \<le> unat n \<and> unat n \<le> 10000 \<longrightarrow>
        (\<exists>tag s'. upload_part cl bucket key uid body n s = (Ok (Some tag), s') \<and> uid \<in> live s')) \<and>
     (\<forall>bucket key uid parts s. uid \<in> live s \<and> s3_part_list (pending s uid) parts \<longrightarrow>
        (\<exists>s'. complete_multipart_upload cl bucket key uid parts s = (Ok (), s')))"

section \<open>An upload that keeps to it\<close>

lemma s3_do_Pair: "f (s3_peer st) = (r, s') \<Longrightarrow> s3_do call f st = (r, st\<lparr>s3_peer := s', s3_calls := s3_calls st @ [call]\<rparr>)"
  by (simp add: s3_do_def)

text \<open>A part is at most what was buffered below the minimum, and one chunk.\<close>

lemma regroup_upper:
  assumes "length buffer < s3_minimum_upload_chunk_bytes" and "\<forall>c \<in> set cs. length c \<le> M"
  shows "\<forall>b \<in> insert (snd (regroup buffer cs)) (set (fst (regroup buffer cs))). length b < s3_minimum_upload_chunk_bytes + M"
  using assms
  by (induction buffer cs rule: regroup.induct)
    (auto simp: split_beta Let_def s3_minimum_upload_chunk_bytes_def)

lemma part_bodies_upper:
  assumes "\<forall>c \<in> set cs. length c \<le> M" and "b \<in> set (part_bodies cs)"
  shows "length b < s3_minimum_upload_chunk_bytes + M"
  using regroup_upper [of "[]" cs M] assms
  by (auto simp: part_bodies_def split_beta s3_minimum_upload_chunk_bytes_def split: if_splits)

lemma upload_all_accepted:
  assumes "s3_accepts cl pending live" and "uid \<in> live (s3_peer st)"
    and "\<forall>b \<in> set bodies. b \<noteq> [] \<and> length b \<le> 5368709120" and "1 \<le> unat n" and "unat n + length bodies \<le> 10001"
  shows "\<exists>parts' n' st'. upload_all cl bucket key uid bodies parts n st = (Ok (parts', n'), st') \<and> uid \<in> live (s3_peer st')"
  using assms(2-)
proof (induction bodies arbitrary: parts n st)
  case Nil
  then show ?case by simp
next
  case (Cons b bs)
  have "uid \<in> live (s3_peer st) \<and> b \<noteq> [] \<and> length b \<le> 5368709120 \<and> 1 \<le> unat n \<and> unat n \<le> 10000"
    using Cons.prems by simp
  with assms(1) obtain tag s' where up: "upload_part cl bucket key uid b n (s3_peer st) = (Ok (Some tag), s')" "uid \<in> live s'"
    unfolding s3_accepts_def by blast
  let ?st = "st\<lparr>s3_peer := s', s3_calls := s3_calls st @ [Upload bucket key uid b n]\<rparr>"
  have send: "send_part cl bucket key uid b n st = (Ok \<lparr>cp_e_tag = tag, cp_part_number = n\<rparr>, ?st)"
    using s3_do_Pair [of "upload_part cl bucket key uid b n", OF up(1)] by (simp add: send_part_def)
  have "unat (n + 1) = unat n + 1" using Cons.prems(4) by (simp add: unat_word_ariths(1) take_bit_eq_mod)
  then have "1 \<le> unat (n + 1)" "unat (n + 1) + length bs \<le> 10001" using Cons.prems(4) by simp_all
  from Cons.IH [of ?st "n + 1", OF _ _ this] Cons.prems(2) up(2) show ?case by (simp add: send)
qed

text \<open>The parts it has uploaded are a list S3 completes.\<close>

lemma map_upds_nth:
  assumes "distinct ks" and "length ks = length vs" and "i < length ks"
  shows "(m(ks [\<mapsto>] vs)) (ks ! i) = Some (vs ! i)"
  using assms
proof (induction ks arbitrary: m vs i)
  case Nil
  then show ?case by simp
next
  case (Cons k ks)
  then obtain w ws where "vs = w # ws" by (cases vs) auto
  with Cons show ?case by (cases i) (simp_all del: map_upds_twist fun_upd_apply, simp)
qed

lemma part_bodies_count:
  assumes "length (concat cs) < 10000 * s3_minimum_upload_chunk_bytes"
  shows "length (part_bodies cs) \<le> 10000"
proof -
  have "(length (part_bodies cs) - 1) * s3_minimum_upload_chunk_bytes < 10000 * s3_minimum_upload_chunk_bytes"
    using part_bodies_number [of cs] assms by (rule le_less_trans)
  then have "length (part_bodies cs) - 1 < 10000" by simp
  then show ?thesis by linarith
qed

lemma uploaded_part_list:
  assumes "numbered 1 parts" and "length parts = length (part_bodies cs)" and "part_bodies cs \<noteq> []"
    and "length (part_bodies cs) \<le> 10000"
    and "uploaded = old(map cp_part_number parts [\<mapsto>] zip (map cp_e_tag parts) (part_bodies cs))"
  shows "s3_part_list uploaded parts"
proof -
  let ?bs = "part_bodies cs"
  have nth: "unat (cp_part_number (parts ! i)) = 1 + i" if "i < length parts" for i
    using numbered_nth [OF assms(1) that] that assms(2,4)
    by (simp add: unat_word_ariths(1) unat_of_nat take_bit_eq_mod)
  have "distinct (map cp_part_number parts)" using numbered_distinct [OF assms(1)] assms(2,4) by simp
  from map_upds_nth [OF this, of "zip (map cp_e_tag parts) ?bs" _ old]
  have look: "uploaded (cp_part_number (parts ! i)) = Some (cp_e_tag (parts ! i), ?bs ! i)" if "i < length parts" for i
    using that assms(2) by (simp add: assms(5))
  have "5242880 \<le> length (?bs ! i)" if "i < length parts - 1" for i
  proof -
    have "butlast ?bs ! i \<in> set (butlast ?bs)" using that assms(2) by simp
    with part_bodies_sizes(1) [of cs] that assms(2) show ?thesis
      by (auto simp: list_all_iff nth_butlast s3_minimum_upload_chunk_bytes_def)
  qed
  then have "5242880 \<le> length (snd (the (uploaded (cp_part_number p))))" if "p \<in> set (butlast parts)" for p
    using that look by (auto simp: in_set_conv_nth nth_butlast)
  with nth look assms(2,3) show ?thesis
    by (auto simp: s3_part_list_def sorted_wrt_iff_nth_less in_set_conv_nth)
qed

lemma stash_upload_accepted:
  assumes s3: "s3_uploads cl object pending" "s3_completes cl object pending" "s3_accepts cl pending live"
    and body: "concat cs \<noteq> []" "length (concat cs) < 10000 * s3_minimum_upload_chunk_bytes"
      "\<forall>c \<in> set cs. length c \<le> 5368709120 - s3_minimum_upload_chunk_bytes"
  shows "\<exists>st'. stash_upload cl bucket key (map Ok cs) st = (Ok (), st') \<and>
    object (s3_peer st') bucket key = Some (concat cs)"
proof -
  let ?bs = "part_bodies cs"
  have some: "?bs \<noteq> []" using part_bodies_content [of cs] body(1) by auto
  have sizes: "\<forall>b \<in> set ?bs. b \<noteq> [] \<and> length b \<le> 5368709120"
    using part_bodies_upper [OF body(3)] part_bodies_sizes(2) [of cs]
    by (fastforce simp: s3_minimum_upload_chunk_bytes_def)
  note count = part_bodies_count [OF body(2)]
  obtain uid s1 where c: "create_multipart_upload cl bucket key (s3_peer st) = (Ok (Some uid), s1)" "uid \<in> live s1"
    using s3(3) unfolding s3_accepts_def by blast
  define st1 where "st1 = st\<lparr>s3_peer := s1, s3_calls := s3_calls st @ [Create bucket key]\<rparr>"
  have create: "s3_do (Create bucket key) (create_multipart_upload cl bucket key) st = (Ok (Some uid), st1)"
    using s3_do_Pair [of "create_multipart_upload cl bucket key", OF c(1)] by (simp add: st1_def)
  obtain parts n st2 where up: "upload_all cl bucket key uid ?bs [] 1 st1 = (Ok (parts, n), st2)" "uid \<in> live (s3_peer st2)"
    using upload_all_accepted [OF s3(3) _ sizes, of uid st1 1 bucket key "[]"] c(2) count by (auto simp: st1_def)
  from upload_all_pending [OF s3(1) up(1)] obtain "length parts = length ?bs" "numbered 1 parts"
      "pending (s3_peer st2) uid = (pending (s3_peer st1) uid)(map cp_part_number parts [\<mapsto>] zip (map cp_e_tag parts) ?bs)"
    by auto
  from uploaded_part_list [OF this(2,1) some count this(3)] s3(3) up(2) obtain s4 where
      "complete_multipart_upload cl bucket key uid parts (s3_peer st2) = (Ok (), s4)"
    unfolding s3_accepts_def by blast
  with create up(1) s3_do_Pair [of "complete_multipart_upload cl bucket key uid parts"] have "fst (stash_upload cl bucket key (map Ok cs) st) = Ok ()"
    by (simp add: stash_upload_complete Let_def)
  then obtain st' where run: "stash_upload cl bucket key (map Ok cs) st = (Ok (), st')" by (metis prod.collapse)
  from stash_upload_object [OF s3(1,2) run] body(2) show ?thesis using run inj_map_eq_map [of Ok] by (force simp: inj_on_def)
qed

section \<open>A request where nothing fails\<close>

text \<open>Without faults a lookup reads the credential on record and leaves the database as it is,
  so what a fetch gives does not depend on the other tables.\<close>

lemma transform_no_fault:
  assumes "faults db = []"
  shows "transform database_helper db req host =
    (Ok (case database_view db host of Entry (Some tok) \<Rightarrow> bearer_auth req tok | _ \<Rightarrow> req), db)"
  using assms
  by (auto simp: transform_def database_helper_def database_get_def select_auth_token_def database_view_def
      split: list.split option.split)

lemma get_upstream_no_fault:
  assumes "faults db = []" and "faults db' = []" and "database_view db' = database_view db"
    and "get_upstream up port d db nt = (r, db1, nt1)"
  shows "db1 = db \<and> get_upstream up port d db' nt = (r, db', nt1)"
  using assms
  by (auto simp: get_upstream_def provider_get_def transform_no_fault Let_def
      split: prod.splits run.splits result.splits option.splits)

lemma join_upstream_no_fault:
  assumes "faults db = []" and "artifact_ids db \<le> i64_max"
    and "fst (get_upstream up port d db nt) = Done (Ok body)"
  shows "\<exists>nt'. join_upstream up port order d db nt =
    (Done (Ok (artifact_ids db, body)), db\<lparr>artifact_ids := artifact_ids db + 1\<rparr>, nt')"
proof -
  let ?db = "db\<lparr>artifact_ids := artifact_ids db + 1\<rparr>"
  obtain db1 nt1 where up: "get_upstream up port d db nt = (Done (Ok body), db1, nt1)"
    using assms(3) by (metis prod.collapse)
  have "database_view ?db = database_view db" by (simp add: database_view_def fun_eq_iff)
  with get_upstream_no_fault [OF assms(1) _ _ up, of ?db] assms(1)
  have both: "db1 = db" "get_upstream up port d ?db nt = (Done (Ok body), ?db, nt1)" by simp_all
  have "allocate_artifact_id db = (Ok (artifact_ids db), ?db)"
    using assms(1,2) by (simp add: allocate_artifact_id_def next_artifact_id_def nextval_def)
  with up both show ?thesis by (cases order) (simp_all add: join_upstream_def)
qed

lemma download_accepted:
  assumes s3: "s3_uploads cl object pending" "s3_completes cl object pending" "s3_accepts cl pending live"
    and db: "pg_wf (aw_db w)" "faults (aw_db w) = []" "artifact_ids (aw_db w) \<le> i64_max"
    and row: "fst (select_artifact i (aw_db w)) = Ok (Some d)" "ad_artifact_id d = None"
    and up: "fst (get_upstream up port d (aw_db w) (aw_net w)) = Done (Ok (map Ok cs))"
    and body: "concat cs \<noteq> []" "length (concat cs) < 10000 * s3_minimum_upload_chunk_bytes"
      "\<forall>c \<in> set cs. length c \<le> 5368709120 - s3_minimum_upload_chunk_bytes"
    and link: "redirect_to cl args (artifact_of d (artifact_ids (aw_db w))) = Done (Ok rd)"
  shows "\<exists>w'. artifacts_handler up port cl args order i w = (Done (Ok rd), w') \<and>
    object (s3_peer (aw_s3 w')) (s3_bucket_name args) (artifact_key args (artifact_ids (aw_db w))) = Some (concat cs) \<and>
    providers (aw_db w') = providers (aw_db w) \<and>
    versions (aw_db w') = map (record_artifact (artifact_ids (aw_db w)) i (now (aw_db w))) (versions (aw_db w))"
proof -
  let ?aid = "artifact_ids (aw_db w)"
  let ?db = "(aw_db w)\<lparr>artifact_ids := ?aid + 1\<rparr>" and ?a = "artifact_of d ?aid"
  have get: "get_artifact_from_database i (aw_db w) = (Ok (Some d), aw_db w)"
    using row(1) db(2) by (simp add: get_artifact_from_database_def select_artifact_def)
  have vid: "ad_version_id d = i" using get_artifact_Some [OF get] by auto
  obtain nt where join: "join_upstream up port order d (aw_db w) (aw_net w) = (Done (Ok (?aid, map Ok cs)), ?db, nt)"
    using join_upstream_no_fault [OF db(2,3) up] by blast
  obtain st where st: "stash_upload cl (s3_bucket_name args) (artifact_key args ?aid) (map Ok cs) (aw_s3 w) = (Ok (), st)"
      "object (s3_peer st) (s3_bucket_name args) (artifact_key args ?aid) = Some (concat cs)"
    using stash_upload_accepted [OF s3 body] by blast
  have "?aid \<notin> set (artifact_id_column (versions (aw_db w)))"
    using db(1) by (auto simp: wf_defs list_all_iff id_ok_def)
  then have "store_artifact_in_database ?a ?db = (Ok (), ?db\<lparr>versions := map (record_artifact ?aid i (now (aw_db w))) (versions (aw_db w))\<rparr>)"
    using store_artifact_no_fault [of ?db ?a] db(2) vid by simp
  with get row(2) join st link show ?thesis
    by (simp add: artifacts_handler_def fetch_and_stash_def stash_artifact_def Let_def)
qed

text \<open>
  C9: a download succeeds. When no statement fails, the sequence has ids left, the registry
  gives a download that arrives whole and is not empty, and S3 does what it documents, the
  first request for an archive is answered with the redirect, whichever half of the join is
  done first; the object then is the archive, byte for byte, and the row records it. The
  archive may have up to 10000 minimal parts (about 97 GiB), in chunks of just under 5 GiB at
  most.
\<close>

theorem download_succeeds:
  assumes s3: "s3_uploads cl object pending" "s3_completes cl object pending" "s3_accepts cl pending live"
    and db: "pg_wf (aw_db w)" "faults (aw_db w) = []" "artifact_ids (aw_db w) \<le> i64_max"
    and row: "fst (select_artifact i (aw_db w)) = Ok (Some d)" "ad_artifact_id d = None"
    and up: "fst (get_upstream up port d (aw_db w) (aw_net w)) = Done (Ok (map Ok cs))"
    and body: "concat cs \<noteq> []" "length (concat cs) < 10000 * s3_minimum_upload_chunk_bytes"
      "\<forall>c \<in> set cs. length c \<le> 5368709120 - s3_minimum_upload_chunk_bytes"
    and link: "redirect_to cl args (artifact_of d (artifact_ids (aw_db w))) = Done (Ok rd)"
  shows "\<exists>w'. artifacts_handler up port cl args order i w = (Done (Ok rd), w') \<and>
    object (s3_peer (aw_s3 w')) (s3_bucket_name args) (artifact_key args (artifact_ids (aw_db w))) = Some (concat cs) \<and>
    providers (aw_db w') = providers (aw_db w) \<and>
    versions (aw_db w') = map (record_artifact (artifact_ids (aw_db w)) i (now (aw_db w))) (versions (aw_db w))"
  using download_accepted [OF s3 db row up body link] .

end
