(* ===== verification/Install.thy ===== *)
theory Install
  imports Protocol_Flow Download_Success
begin








end
