(* ===== verification/Deployment_Witnesses.thy ===== *)
theory Deployment_Witnesses
  imports System_Witnesses Mirror_Spec Install
begin

text \<open>
  The instances of the properties of \<open>Mirror_Spec\<close>, \<open>Download_Success\<close> and
  \<open>Install\<close> in the sample world.
\<close>

section \<open>The specification\<close>

lemma sample_storage_ok:
  "artifacts_present stored_objects (sv_bucket sample_server) sample_db sample_s3"
  "hosts_known (sv_upstream sample_server) (sv_port sample_server) sample_db"
  using sample_present sample_db_inv_boot by (simp_all add: sample_server_parts db_inv_boot)

text \<open>A deployment in which the token of the sample registry is deleted.\<close>

definition forgetful_db :: pg where
  "forgetful_db = sample_db\<lparr>hosts := []\<rparr>"

lemma forget_in_cluster:
  "\<exists>c. cluster_step (\<lambda>_. sample_server) sample_cluster c \<and> cl_db c = forgetful_db \<and> cl_s3 c = sample_s3"
proof -
  have "routes database_helper \<lparr>credentials = sample_db\<rparr> (Delete ''r'') = ((S_OK, empty_data), \<lparr>credentials = forgetful_db\<rparr>)"
    by (simp add: delete_def database_helper_def database_forget_def delete_host_def forgetful_db_def sample_defs)
  with step.credentials [of "node 0 sample_cluster" "Delete ''r''" "(S_OK, empty_data)" "\<lparr>credentials = forgetful_db\<rparr>" sample_server]
  have "step sample_server (node 0 sample_cluster) (set_db forgetful_db (node 0 sample_cluster))"
    by (simp add: sample_cluster_node boot_def)
  from cluster_step.turn [of "\<lambda>_. sample_server", OF this] show ?thesis
    by (intro exI [of _ "put_node 0 (set_db forgetful_db (node 0 sample_cluster)) sample_cluster"])
      (simp add: set_db_def sample_cluster_def cluster_boot_def)
qed

theorem deployment_refines_witness:
  "mirror_step (mirror_of stored_objects sample_args sample_db sample_s3) (mirror_of stored_objects sample_args forgetful_db sample_s3) \<and>
    mr_credentials (mirror_of stored_objects sample_args sample_db sample_s3) ''r'' = Entry (Some ''secret'') \<and>
    mr_credentials (mirror_of stored_objects sample_args forgetful_db sample_s3) ''r'' = NotFound"
proof -
  obtain c where "cluster_step (\<lambda>_. sample_server) sample_cluster c" "cl_db c = forgetful_db" "cl_s3 c = sample_s3"
    using forget_in_cluster by blast
  with deployment_refines [OF sample_deployment sample_lawful sample_db_wf(1) sample_storage_ok rtranclp.rtrancl_refl,
      of "\<lambda>_. sample_net" c]
  have "mirror_step (mirror_of stored_objects sample_args sample_db sample_s3) (mirror_of stored_objects sample_args forgetful_db sample_s3)"
    by (simp add: sample_cluster_def sample_server_parts cluster_boot_def)
  then show ?thesis
    by (simp add: mirror_of_def database_view_def forgetful_db_def sample_defs)
qed

theorem links_are_permanent_witness:
  "\<exists>c d. cluster_run (\<lambda>_. sample_server) sample_cluster c \<and> cl_db c \<noteq> sample_db \<and>
    fst (select_artifact 2 (cl_db c)) = Ok (Some d) \<and> ad_os d = ''darwin'' \<and> ad_artifact_id d \<noteq> None"
proof -
  obtain c where c: "cluster_step (\<lambda>_. sample_server) sample_cluster c" "cl_db c = forgetful_db"
    using forget_in_cluster by blast
  then have run: "cluster_run (\<lambda>_. sample_server) sample_cluster c" by blast
  let ?d = "\<lparr>ad_version_id = 2, ad_hostname = ''r'', ad_namespace = ''n'', ad_provider_type = ''t'',
     ad_version = ''1.0'', ad_os = ''darwin'', ad_arch = ''arm64'', ad_artifact_id = Some 1\<rparr>"
  have "fst (select_artifact 2 (cl_db sample_cluster)) = Ok (Some ?d)"
    by (simp add: select_artifact_def sample_cluster_def cluster_boot_def sample_defs)
  from links_are_permanent [OF sample_deployment sample_lawful sample_db_wf(1) sample_storage_ok rtranclp.rtrancl_refl
      run [unfolded sample_cluster_def] this [unfolded sample_cluster_def]]
  obtain d' where "fst (select_artifact 2 (cl_db c)) = Ok (Some d')" "ad_os d' = ''darwin''" "ad_artifact_id d' \<noteq> None"
    by auto
  moreover have "hosts forgetful_db = []" "hosts sample_db \<noteq> []" by (simp_all add: forgetful_db_def sample_db_def)
  then have "forgetful_db \<noteq> sample_db" by metis
  ultimately show ?thesis using run c(2) by (intro exI [of _ c] exI [of _ d']) simp
qed

section \<open>Downloads\<close>

lemma sample_s3_accepts: "s3_accepts sample_s3_client stored_parts begun_uploads"
  by (auto simp: s3_accepts_def sample_s3_client_def begun_uploads_def)

lemma sample_link:
  "presign_get_object sample_s3_client (s3_bucket_name sample_args) (artifact_key sample_args 2) presign_seconds =
     Ok ''https://s3/p/artifacts/2''"
  "uri_parse sample_s3_client ''https://s3/p/artifacts/2'' = Some ''https://s3/p/artifacts/2''"
  "header_value_ok ''https://s3/p/artifacts/2''"
  by (simp_all add: sample_s3_client_def artifact_key_def sample_args_def show_int_one header_value_ok_def)

lemma sample_chunks:
  "concat [[1], [2]] \<noteq> ([] :: bytes)" "length (concat [[1], [2]]) < 10000 * s3_minimum_upload_chunk_bytes"
  "\<forall>c \<in> set [[1], [2]]. length c \<le> 5368709120 - s3_minimum_upload_chunk_bytes"
  by (simp_all add: s3_minimum_upload_chunk_bytes_def)

theorem download_succeeds_witness:
  "\<exists>rd w'. artifacts_handler sample_upstream 443 sample_s3_client sample_args Fetch_first 1
      \<lparr>aw_db = sample_db, aw_net = sample_net, aw_s3 = sample_s3\<rparr> = (Done (Ok rd), w') \<and>
    stored_objects (s3_peer (aw_s3 w')) ''b'' ''p/artifacts/2'' = Some [1, 2]"
proof -
  let ?w = "\<lparr>aw_db = sample_db, aw_net = sample_net, aw_s3 = sample_s3\<rparr>"
  have row: "fst (select_artifact 1 (aw_db ?w)) = Ok (Some racing_details)" "ad_artifact_id racing_details = None"
    by (simp_all add: select_artifact_def racing_details_def sample_defs)
  have up: "fst (get_upstream sample_upstream 443 racing_details (aw_db ?w) (aw_net ?w)) = Done (Ok (map Ok [[1], [2]]))"
    by (simp add: get_upstream_def client_defs racing_details_def)
  have next_id: "artifact_ids sample_db = 2" by (simp add: sample_db_def)
  obtain rd where rd: "redirect_to sample_s3_client sample_args (artifact_of racing_details (artifact_ids (aw_db ?w))) = Done (Ok rd)"
    using sample_link by (simp add: redirect_to_Ok next_id artifact_response_def)
  have "pg_wf (aw_db ?w)" "faults (aw_db ?w) = []" "artifact_ids (aw_db ?w) \<le> i64_max"
    using sample_db_wf(1) by (simp_all add: sample_db_def empty_pg_def i64_max_def)
  from download_succeeds [OF sample_s3_laws sample_s3_accepts this row up sample_chunks rd, of Fetch_first] show ?thesis
    by (auto simp: next_id sample_args_def artifact_key_def show_int_one)
qed


end
