(* ===== verification/Fairness.thy ===== *)
theory Fairness
  imports Artifact_Progress
begin

text \<open>
  Answers on every run, and not only on some: a run of a deployment is an infinite sequence of
  states, and a task that gets its turns on a weakly fair one comes to its end whatever else
  happens in between. The turns are those of the executor: it polls a task that can go on.
\<close>

section \<open>Runs, fairness and variants\<close>

text \<open>A run may pause. A kind of turn is weakly fair on it when, being possible from some point
  on for ever, it is taken again.\<close>

definition infinite_run :: "('c \<Rightarrow> 'c \<Rightarrow> bool) \<Rightarrow> (nat \<Rightarrow> 'c) \<Rightarrow> bool" where
  "infinite_run moves \<sigma> \<longleftrightarrow> (\<forall>n. \<sigma> (Suc n) = \<sigma> n \<or> moves (\<sigma> n) (\<sigma> (Suc n)))"

definition weakly_fair :: "('c \<Rightarrow> 'c \<Rightarrow> bool) \<Rightarrow> (nat \<Rightarrow> 'c) \<Rightarrow> bool" where
  "weakly_fair turn \<sigma> \<longleftrightarrow>
     (\<forall>n. (\<forall>m\<ge>n. \<exists>c. turn (\<sigma> m) c) \<longrightarrow> (\<exists>m\<ge>n. turn (\<sigma> m) (\<sigma> (Suc m))))"

lemma infinite_run_reaches:
  assumes "infinite_run moves \<sigma>"
  shows "moves\<^sup>*\<^sup>* (\<sigma> n) (\<sigma> (n + d))"
  using assms by (induction d) (auto simp: infinite_run_def intro: rtranclp.rtrancl_into_rtrancl, metis rtranclp.simps)

text \<open>A task under way that can always take its turn, which brings it nearer to its end in a
  well-founded order, while no other step takes it back.\<close>

locale fair_task =
  fixes moves turn :: "'c \<Rightarrow> 'c \<Rightarrow> bool" and inv pending :: "'c \<Rightarrow> bool"
    and rank :: "'c \<Rightarrow> 'r" and less :: "('r \<times> 'r) set"
  assumes wf: "wf less"
    and keeps: "inv c \<Longrightarrow> pending c \<Longrightarrow> moves c c' \<Longrightarrow> pending c' \<Longrightarrow> inv c'"
    and enabled: "inv c \<Longrightarrow> pending c \<Longrightarrow> \<exists>c'. turn c c'"
    and nearer: "inv c \<Longrightarrow> pending c \<Longrightarrow> turn c c' \<Longrightarrow> pending c' \<Longrightarrow> (rank c', rank c) \<in> less"
    and undisturbed: "inv c \<Longrightarrow> pending c \<Longrightarrow> moves c c' \<Longrightarrow> pending c' \<Longrightarrow> (rank c', rank c) \<in> less\<^sup>="
begin

lemma inv_while_pending:
  assumes "infinite_run moves \<sigma>" and "inv (\<sigma> n)" and "\<forall>m\<ge>n. pending (\<sigma> m)" and "n \<le> m"
  shows "inv (\<sigma> m)"
  using assms(4)
proof (induction rule: dec_induct)
  case base
  then show ?case by (rule assms(2))
next
  case (step m)
  with assms(1,3) keeps [of "\<sigma> m" "\<sigma> (Suc m)"] show ?case
    by (metis infinite_run_def le_Suc_eq)
qed

lemma rank_while_pending:
  assumes "infinite_run moves \<sigma>" and "inv (\<sigma> n)" and "\<forall>m\<ge>n. pending (\<sigma> m)" and "n \<le> m"
  shows "(rank (\<sigma> m), rank (\<sigma> n)) \<in> less\<^sup>*"
  using assms(4)
proof (induction rule: dec_induct)
  case base
  then show ?case by simp
next
  case (step m)
  have "(rank (\<sigma> (Suc m)), rank (\<sigma> m)) \<in> less\<^sup>="
    using assms(1,3) step.hyps(1) undisturbed [OF inv_while_pending [OF assms(1-3) step.hyps(1)]]
    by (metis Un_iff infinite_run_def le_Suc_eq pair_in_Id_conv)
  with step.IH show ?case by (auto intro: converse_rtrancl_into_rtrancl)
qed

lemma comes_to_an_end:
  assumes "infinite_run moves \<sigma>" and "weakly_fair turn \<sigma>" and "inv (\<sigma> n)"
  shows "\<exists>m\<ge>n. \<not> pending (\<sigma> m)"
proof (rule ccontr)
  assume "\<not> ?thesis"
  then have pending: "\<forall>m\<ge>n. pending (\<sigma> m)" by simp
  have "wf (less\<^sup>+)" using wf by (rule wf_trancl)
  then have "False" if "n \<le> m" "x = rank (\<sigma> m)" for x m
    using that
  proof (induction x arbitrary: m rule: wf_induct_rule)
    case (less x)
    have inv: "inv (\<sigma> j)" if "m \<le> j" for j
      using inv_while_pending [OF assms(1,3) pending] less.prems(1) that by simp
    have "\<forall>j\<ge>m. \<exists>c. turn (\<sigma> j) c" using enabled inv pending less.prems(1) by simp
    with assms(2) obtain j where j: "m \<le> j" "turn (\<sigma> j) (\<sigma> (Suc j))"
      unfolding weakly_fair_def by blast
    then have "(rank (\<sigma> (Suc j)), rank (\<sigma> j)) \<in> less"
      using nearer inv pending less.prems(1) by simp
    moreover have "(rank (\<sigma> j), rank (\<sigma> m)) \<in> less\<^sup>*"
      using rank_while_pending [OF assms(1) inv [OF le_refl]] pending less.prems(1) j(1) by simp
    ultimately have "(rank (\<sigma> (Suc j)), x) \<in> less\<^sup>+" using less.prems(2) by simp
    with less.IH [OF this, of "Suc j"] j(1) less.prems(1) show ?case by simp
  qed
  then show False by blast
qed

end

section \<open>Artifact requests\<close>

text \<open>A piece of request \<open>i\<close> of server \<open>k\<close>.\<close>

inductive piece_taken ::
  "(nat \<Rightarrow> ('n, 's) server) \<Rightarrow> nat \<Rightarrow> nat \<Rightarrow> ('n, 's) cluster \<Rightarrow> ('n, 's) cluster \<Rightarrow> bool" for sv k i
where
  piece: "wd_status (cl_nodes c k) \<noteq> Crashed \<Longrightarrow> wd_artifacts (cl_nodes c k) i = Some ph \<Longrightarrow>
    artifact_step (sv k) half ph (node k c) = Some (ph', t) \<Longrightarrow>
    piece_taken sv k i c (put_node k (t\<lparr>wd_artifacts := (wd_artifacts (cl_nodes c k))(i \<mapsto> ph')\<rparr>) c)"

lemma piece_taken_step: "piece_taken sv k i c c' \<Longrightarrow> cluster_step sv c c'"
proof (induction rule: piece_taken.induct)
  case (piece c ph half ph' t)
  with step.artifact_piece [of "node k c" i ph "sv k" half ph' t] show ?case
    by (auto intro: cluster_step.turn)
qed



abbreviation rank_less :: "((nat \<times> nat) \<times> (nat \<times> nat)) set" where
  "rank_less \<equiv> less_than <*lex*> less_than"







section \<open>Index requests that wait for the refresher\<close>

inductive refresher_moved ::
  "(nat \<Rightarrow> ('n, 's) server) \<Rightarrow> nat \<Rightarrow> ('n, 's) cluster \<Rightarrow> ('n, 's) cluster \<Rightarrow> bool" for sv k
where
  moved: "wd_status (cl_nodes c k) = Waiting \<Longrightarrow> refresh_step (sv k) (node k c) = Some s \<Longrightarrow>
    refresher_moved sv k c (put_node k s c)"

lemma refresher_moved_step: "refresher_moved sv k c c' \<Longrightarrow> cluster_step sv c c'"
proof (induction rule: refresher_moved.induct)
  case (moved c s)
  with step.refresh [of "node k c" "sv k" s] show ?case by (auto intro: cluster_step.turn)
qed

text \<open>The messages before the handler's own, and the pieces left of the first.\<close>

definition ahead :: "nat \<Rightarrow> refresh_request list \<Rightarrow> nat" where
  "ahead i ms = length (takeWhile (\<lambda>m. rq_response_channel m \<noteq> Some i) ms)"

definition wait_rank :: "nat \<Rightarrow> ('n, 's) world \<Rightarrow> nat \<times> nat" where
  "wait_rank i s = (ahead i (unanswered s), pieces_left s)"

lemma ahead_append: "i \<in> set (reply_ids ms) \<Longrightarrow> ahead i (ms @ ns) = ahead i ms"
  by (auto simp: ahead_def reply_ids_set takeWhile_append1)

lemma ahead_Cons: "rq_response_channel m \<noteq> Some i \<Longrightarrow> ahead i (m # ms) = Suc (ahead i ms)"
  by (simp add: ahead_def)

lemma refresh_step_wait_rank:
  assumes "wd_index s i = Some (Awaiting tp)" and "refresh_step sv s = Some s'"
    and "wd_index s' i = Some (Awaiting tp')"
  shows "(wait_rank i s', wait_rank i s) \<in> rank_less"
  using assms(2)
proof (cases rule: refresh_step_cases)
  case moved
  then show ?thesis by (simp add: wait_rank_def)
next
  case (answered m resp)
  have "rq_response_channel m \<noteq> Some i"
    using answered(3) assms(1,3) by (auto simp: deliver_def reply_to_def)
  with answered(1) show ?thesis by (simp add: wait_rank_def ahead_Cons)
next
  case (crashed m)
  with assms(1,3) show ?thesis by simp
qed

lemma send_wait_rank:
  assumes "i \<in> set (reply_ids (unanswered s))" and "ch_queue (wd_channel s') = ch_queue (wd_channel s) @ ms"
    and "wd_refreshing s' = wd_refreshing s"
  shows "wait_rank i s' = wait_rank i s"
proof -
  have "unanswered s' = unanswered s @ ms" using assms(2,3) by (simp add: unanswered_def)
  with assms(1,3) show ?thesis by (simp add: wait_rank_def ahead_append pieces_left_def)
qed

lemma index_start_queue:
  assumes "index_start h n ty time db tx = (ph, db', tx')"
  shows "\<exists>ms. ch_queue tx' = ch_queue tx @ ms"
proof -
  have "\<exists>ms. ch_queue (snd (try_send m tx)) = ch_queue tx @ ms" for m by (simp add: try_send_def)
  then show ?thesis by (cases rule: index_start_cases [OF assms]) auto
qed

lemma index_send_queue:
  assumes "index_send me tp start time tx = (ph, tx')"
  shows "\<exists>ms. ch_queue tx' = ch_queue tx @ ms"
  by (cases rule: index_send_cases [OF assms]) auto

lemma step_wait_rank:
  assumes inv: "wait_inv s" and step: "step sv s s'" and waits: "wd_index s i = Some (Awaiting tp)"
    and still: "wd_index s' i = Some (Awaiting tp')"
  shows "(wait_rank i s', wait_rank i s) \<in> rank_less\<^sup>="
proof -
  have i: "i \<in> set (reply_ids (unanswered s))" using inv waits by (auto simp: wait_inv_def)
  have same: "wait_rank i s' = wait_rank i s"
    if "wd_channel s' = wd_channel s" "wd_refreshing s' = wd_refreshing s"
    using that by (intro send_wait_rank [OF i, where ms = "[]"]) simp_all
  from step show ?thesis
  proof (cases rule: step.cases)
    case (index_request h n ty ph db ch)
    obtain ms where "ch_queue ch = ch_queue (wd_channel s) @ ms"
      using index_start_queue [OF index_request(3)] by blast
    with index_request(1) have "wait_rank i s' = wait_rank i s"
      by (intro send_wait_rank [OF i]) (simp_all add: set_db_def)
    then show ?thesis by simp
  next
    case (index_send j q t ph ch)
    obtain ms where "ch_queue ch = ch_queue (wd_channel s) @ ms"
      using index_send_queue [OF index_send(4)] by blast
    with index_send(1) have "wait_rank i s' = wait_rank i s" by (intro send_wait_rank [OF i]) simp_all
    then show ?thesis by simp
  next
    case refresh
    with refresh_step_wait_rank [OF waits refresh(2) still] show ?thesis by simp
  next
    case (artifact_piece j ph half ph' t)
    with artifact_step_frame [OF artifact_piece(4)] same show ?thesis by simp
  qed (use same still in \<open>simp_all add: set_db_def\<close>)
qed

definition handler_waits :: "nat \<Rightarrow> nat \<Rightarrow> ('n, 's) cluster \<Rightarrow> bool" where
  "handler_waits k i c \<longleftrightarrow> (\<exists>tp. wd_index (cl_nodes c k) i = Some (Awaiting tp))"

lemma refresher_can_go_on:
  assumes "cluster_run sv (cluster_boot db nts st) c" and "handler_waits k i c"
  shows "\<exists>c'. refresher_moved sv k c c'"
proof -
  have "wait_inv (cl_nodes c k)" using assms(1) by (rule cluster_run_wait_inv)
  with assms(2) have "wd_status (cl_nodes c k) = Waiting" "unanswered (cl_nodes c k) \<noteq> []"
    by (fastforce simp: wait_inv_def handler_waits_def)+
  with refresh_step_enabled [of "node k c" "sv k"] show ?thesis by (auto intro: moved)
qed

interpretation waiter: fair_task "cluster_step sv" "refresher_moved sv k"
    "cluster_run sv (cluster_boot db nts st)" "handler_waits k i" "\<lambda>c. wait_rank i (cl_nodes c k)" rank_less
  for sv :: "nat \<Rightarrow> ('n, 's) server" and k i db nts st
proof
  show "wf rank_less" by (intro wf_lex_prod wf_less_than)
next
  fix c c' :: "('n, 's) cluster"
  assume c: "cluster_run sv (cluster_boot db nts st) c" "handler_waits k i c"
  then obtain tp where tp: "wd_index (node k c) i = Some (Awaiting tp)" by (auto simp: handler_waits_def)
  have wait: "wait_inv (node j c)" for j using cluster_run_wait_inv [OF c(1)] by (simp add: wait_inv_node)
  have same: "wait_rank i (node k c) = wait_rank i (cl_nodes c k)" by (simp add: wait_rank_def pieces_left_def)
  show "\<exists>c'. refresher_moved sv k c c'" using c by (rule refresher_can_go_on)
  show "cluster_run sv (cluster_boot db nts st) c'" if "cluster_step sv c c'"
    using c(1) that by (rule rtranclp.rtrancl_into_rtrancl)
  show "(wait_rank i (cl_nodes c' k), wait_rank i (cl_nodes c k)) \<in> rank_less"
    if "refresher_moved sv k c c'" "handler_waits k i c'"
    using that(1)
  proof (cases rule: refresher_moved.cases)
    case (moved s)
    with refresh_step_wait_rank [OF tp moved(3)] that(2) same show ?thesis by (auto simp: handler_waits_def simp del: in_lex_prod)
  qed
  show "(wait_rank i (cl_nodes c' k), wait_rank i (cl_nodes c k)) \<in> rank_less\<^sup>="
    if "cluster_step sv c c'" "handler_waits k i c'"
    using that(1)
  proof (cases rule: cluster_step.cases)
    case (turn j s)
    show ?thesis
    proof (cases "j = k")
      case True
      with turn(2) have st: "step (sv k) (node k c) s" by simp
      from True turn(1) that(2) obtain tp' where "wd_index s i = Some (Awaiting tp')" by (auto simp: handler_waits_def)
      from step_wait_rank [OF wait st tp this] True turn(1) same show ?thesis by (simp del: in_lex_prod)
    qed (simp add: turn(1))
  next
    case (restart nt j)
    with that(2) show ?thesis by (cases "j = k") (auto simp: handler_waits_def boot_def)
  qed
qed

section \<open>Index requests before they wait\<close>

inductive send_tried ::
  "(nat \<Rightarrow> ('n, 's) server) \<Rightarrow> nat \<Rightarrow> nat \<Rightarrow> ('n, 's) cluster \<Rightarrow> ('n, 's) cluster \<Rightarrow> bool" for sv k i
where
  tried: "wd_status (cl_nodes c k) \<noteq> Crashed \<Longrightarrow> wd_index (cl_nodes c k) i = Some (Sending tp t) \<Longrightarrow>
    index_send i tp t (wd_time (cl_nodes c k)) (wd_channel (cl_nodes c k)) = (ph, ch) \<Longrightarrow>
    send_tried sv k i c (put_node k ((node k c)\<lparr>wd_channel := ch, wd_index := (wd_index (cl_nodes c k))(i \<mapsto> ph)\<rparr>) c)"

lemma send_tried_step: "send_tried sv k i c c' \<Longrightarrow> cluster_step sv c c'"
proof (induction rule: send_tried.induct)
  case (tried c tp t ph ch)
  with step.index_send [of "node k c" i tp t ph ch "sv k"] show ?case by (auto intro: cluster_step.turn)
qed

text \<open>The timer of the send: it has run out while the handler still tries.\<close>

definition send_open :: "nat \<Rightarrow> nat \<Rightarrow> terraform_provider \<Rightarrow> nat \<Rightarrow> ('n, 's) cluster \<Rightarrow> bool" where
  "send_open k i tp t c \<longleftrightarrow>
     wd_status (cl_nodes c k) \<noteq> Crashed \<and> wd_index (cl_nodes c k) i = Some (Sending tp t)"

definition timer_out :: "nat \<Rightarrow> nat \<Rightarrow> ('n, 's) cluster \<Rightarrow> bool" where
  "timer_out k t c \<longleftrightarrow> t + send_timeout_ms \<le> wd_time (cl_nodes c k)"

lemma step_time: "step sv s s' \<Longrightarrow> wd_time s \<le> wd_time s'"
proof (induction rule: step.induct)
  case (refresh s s')
  then show ?case
    by (auto simp: refresh_step_def advance_def Let_def split: refresh_phase.splits option.splits prod.splits run.splits)
next
  case (artifact_piece s i ph half ph' t)
  then show ?case by (auto simp: artifact_step_def put_view_def)
qed (auto simp: set_db_def)

interpretation sender: fair_task "cluster_step sv" "send_tried sv k i"
    "timer_out k t" "send_open k i tp t" "\<lambda>c. ()" "{}"
  for sv :: "nat \<Rightarrow> ('n, 's) server" and k i tp t
proof
  fix c c' :: "('n, 's) cluster"
  assume c: "timer_out k t c" "send_open k i tp t c"
  show "timer_out k t c'" if "cluster_step sv c c'" "send_open k i tp t c'"
    using that(1)
  proof (cases rule: cluster_step.cases)
    case (turn j s)
    with c(1) step_time [OF turn(2)] show ?thesis by (cases "j = k") (auto simp: timer_out_def)
  next
    case (restart nt j)
    with c(1) that(2) show ?thesis by (cases "j = k") (auto simp: timer_out_def send_open_def boot_def)
  qed
  obtain ph ch where "index_send i tp t (wd_time (cl_nodes c k)) (wd_channel (cl_nodes c k)) = (ph, ch)" by fastforce
  with c(2) show "\<exists>c'. send_tried sv k i c c'" by (auto simp: send_open_def intro: tried)
  show "((), ()) \<in> {}" if "send_tried sv k i c c'" "send_open k i tp t c'"
    using that(1)
  proof (cases rule: send_tried.cases)
    case (tried q u ph ch)
    with that(2) c have "ph = Sending tp t" "q = tp" "u = t" by (auto simp: send_open_def)
    with c(1) tried(4) show ?thesis
      by (cases rule: index_send_cases [OF tried(4)]) (auto simp: timer_out_def)
  qed
qed simp_all

section \<open>Index requests from start to answer\<close>

text \<open>A handler sends, waits and responds, and never goes back.\<close>

definition phase_later :: "index_phase \<Rightarrow> index_phase \<Rightarrow> bool" where
  "phase_later ph ph' \<longleftrightarrow>
     ph' = ph \<or> (\<exists>tp t. ph = Sending tp t \<and> (ph' = Awaiting tp \<or> (\<exists>r. ph' = Responded r))) \<or>
     (\<exists>tp r. ph = Awaiting tp \<and> ph' = Responded r)"

lemma phase_later_refl [simp]: "phase_later ph ph"
  by (simp add: phase_later_def)

lemma phase_later_trans: "phase_later a b \<Longrightarrow> phase_later b c \<Longrightarrow> phase_later a c"
  by (auto simp: phase_later_def)

lemma drop_phase_later:
  "hs i = Some ph \<Longrightarrow> drop_waiting hs i = Some ph' \<Longrightarrow> phase_later ph ph'"
  "hs i = Some ph \<Longrightarrow> drop_pending hs i = Some ph' \<Longrightarrow> phase_later ph ph'"
  "hs i = Some ph \<Longrightarrow> deliver r hs i = Some ph' \<Longrightarrow> phase_later ph ph'"
  by (auto simp: drop_waiting_def drop_pending_def deliver_def phase_later_def
      split: index_phase.splits option.splits prod.splits if_splits)

lemma step_phase_later:
  assumes "wait_inv s" and "step sv s s'" and "wd_index s i = Some ph" and "wd_index s' i = Some ph'"
  shows "phase_later ph ph'"
  using assms(2)
proof (cases rule: step.cases)
  case (index_request h n ty q db ch)
  have "i \<noteq> wd_next s" using assms(1,3) by (auto simp: wait_inv_def)
  with index_request assms(3,4) show ?thesis by (simp add: set_db_def)
next
  case (index_send j tp t q ch)
  show ?thesis
  proof (cases "j = i")
    case True
    with index_send assms(3,4) have "ph = Sending tp t" "ph' = q" by simp_all
    then show ?thesis by (cases rule: index_send_cases [OF index_send(4)]) (auto simp: phase_later_def)
  qed (use index_send assms(3,4) in simp)
next
  case refresh
  from refresh(2) show ?thesis
    by (cases rule: refresh_step_cases) (use assms(3,4) drop_phase_later in auto)
next
  case cancel
  with assms(3,4) drop_phase_later(1) show ?thesis by simp
next
  case (disconnect j)
  with assms(3,4) show ?thesis by (cases "j = i") simp_all
next
  case (artifact_piece j q half q' t)
  with artifact_step_frame [OF artifact_piece(4)] assms(3,4) show ?thesis by simp
qed (use assms(3,4) in \<open>simp_all add: set_db_def\<close>)

lemma cluster_step_phase_later:
  assumes "wait_inv (cl_nodes c k)" and "cluster_step sv c c'" and "wd_index (cl_nodes c k) i = Some ph"
    and "wd_index (cl_nodes c' k) i = Some ph'"
  shows "phase_later ph ph'"
  using assms(2)
proof (cases rule: cluster_step.cases)
  case (turn j s)
  with assms step_phase_later [of "node k c" "sv k" s i ph ph'] show ?thesis
    by (cases "j = k") (simp_all add: wait_inv_node)
next
  case (restart nt j)
  with assms(3,4) show ?thesis by (cases "j = k") (simp_all add: boot_def)
qed

lemma run_phase_later:
  assumes run: "infinite_run (cluster_step sv) \<sigma>" and boot: "\<sigma> 0 = cluster_boot db nts st"
    and stays: "\<forall>m\<ge>n. wd_index (cl_nodes (\<sigma> m) k) i \<noteq> None" and "n \<le> m"
    and "wd_index (cl_nodes (\<sigma> n) k) i = Some ph" and "wd_index (cl_nodes (\<sigma> m) k) i = Some ph'"
  shows "phase_later ph ph'"
  using assms(4,6)
proof (induction arbitrary: ph' rule: dec_induct)
  case base
  with assms(5) show ?case by simp
next
  case (step m)
  from stays step.hyps(1) obtain q where q: "wd_index (cl_nodes (\<sigma> m) k) i = Some q" by auto
  have "wait_inv (cl_nodes (\<sigma> m) k)"
    using cluster_run_wait_inv infinite_run_reaches [OF run, of 0 m] boot by simp
  then have "phase_later q ph'"
    using run cluster_step_phase_later [OF _ _ q step.prems] q step.prems
    by (metis infinite_run_def option.inject phase_later_refl)
  with step.IH [OF q] show ?case by (rule phase_later_trans)
qed

text \<open>
  C12: every index request is answered. On every run of a deployment from its start that is
  weakly fair to the handler's attempts to send and to the refresher of its server, and on which
  that server's clock goes on, a request whose client stays, on a server that neither crashes
  nor is restarted, gets its response: the timer of a full channel runs out, or the message is
  sent and every message before it is dealt with, or the refresher stops.
\<close>

theorem index_requests_answered:
  assumes "infinite_run (cluster_step sv) \<sigma>" and "\<sigma> 0 = cluster_boot db nts st"
    and "weakly_fair (send_tried sv k i) \<sigma>" and "weakly_fair (refresher_moved sv k) \<sigma>"
    and "\<forall>time. \<exists>m\<ge>n. time \<le> wd_time (cl_nodes (\<sigma> m) k)"
    and "\<forall>m\<ge>n. wd_index (cl_nodes (\<sigma> m) k) i \<noteq> None \<and> wd_status (cl_nodes (\<sigma> m) k) \<noteq> Crashed"
  shows "\<exists>m\<ge>n. \<exists>r. wd_index (cl_nodes (\<sigma> m) k) i = Some (Responded r)"
proof -
  let ?phase = "\<lambda>m. wd_index (cl_nodes (\<sigma> m) k) i"
  have later: "phase_later ph ph'" if "?phase a = Some ph" "?phase b = Some ph'" "n \<le> a" "a \<le> b" for a b ph ph'
    using run_phase_later [OF assms(1,2) _ that(4,1,2)] assms(6) that(3) by simp
  have sent: "\<exists>m\<ge>n. ?phase m \<noteq> Some (Sending tp t)" for tp t
  proof -
    obtain m where m: "n \<le> m" "timer_out k t (\<sigma> m)" using assms(5) unfolding timer_out_def by blast
    from sender.comes_to_an_end [OF assms(1,3) m(2)] obtain j where "m \<le> j" "\<not> send_open k i tp t (\<sigma> j)" by blast
    with m(1) assms(6) show ?thesis unfolding send_open_def by (metis order_trans)
  qed
  obtain a where a: "n \<le> a" "\<nexists>tp t. ?phase a = Some (Sending tp t)"
  proof (cases "\<exists>tp t. ?phase n = Some (Sending tp t)")
    case True
    then obtain tp t m where "?phase n = Some (Sending tp t)" "n \<le> m" "?phase m \<noteq> Some (Sending tp t)"
      using sent by blast
    with later [of n "Sending tp t" m] assms(6) that show ?thesis by (auto simp: phase_later_def)
  qed (use that in blast)
  have "cluster_run sv (cluster_boot db nts st) (\<sigma> a)"
    using infinite_run_reaches [OF assms(1), of 0 a] assms(2) by simp
  from waiter.comes_to_an_end [OF assms(1,4) this] obtain m where m: "a \<le> m" "\<not> handler_waits k i (\<sigma> m)" by blast
  with a(1) assms(6) obtain ph ph' where ph: "?phase a = Some ph" "?phase m = Some ph'" by (metis not_None_eq order_trans)
  with later [OF ph a(1) m(1)] a(2) m(2) have "\<exists>r. ph' = Responded r"
    by (cases ph'; cases ph) (auto simp: phase_later_def handler_waits_def)
  with ph(2) a(1) m(1) show ?thesis by (meson order_trans)
qed

end
