(* ===== verification/Fair_Witnesses.thy ===== *)
theory Fair_Witnesses
  imports System_Witnesses Fairness
begin

text \<open>
  Fair runs exist: a state that a deployment can get into continues to one, for an artifact
  request and for an index request under way, and the sample deployment has both.
\<close>

section \<open>A finite run and what follows\<close>

lemma run_after:
  assumes "moves\<^sup>*\<^sup>* a (\<tau> 0)" and "infinite_run moves \<tau>"
  shows "\<exists>\<sigma> N. infinite_run moves \<sigma> \<and> \<sigma> 0 = a \<and> (\<forall>n. \<sigma> (N + n) = \<tau> n)"
  using assms(1)
proof (induction rule: converse_rtranclp_induct)
  case base
  with assms(2) show ?case by (intro exI [of _ \<tau>] exI [of _ 0]) simp
next
  case (step a b)
  then obtain \<sigma> N where s: "infinite_run moves \<sigma>" "\<sigma> 0 = b" "\<forall>n. \<sigma> (N + n) = \<tau> n" by blast
  have "infinite_run moves (case_nat a \<sigma>)"
    using s(1,2) step.hyps(1) by (auto simp: infinite_run_def split: nat.split)
  with s(3) show ?case by (intro exI [of _ "case_nat a \<sigma>"] exI [of _ "Suc N"]) simp
qed

lemma weakly_fair_after:
  assumes "weakly_fair turn \<tau>" and tail: "\<forall>n. \<sigma> (N + n) = \<tau> n"
  shows "weakly_fair turn \<sigma>"
  unfolding weakly_fair_def
proof (intro allI impI)
  fix n
  assume on: "\<forall>m\<ge>n. \<exists>c. turn (\<sigma> m) c"
  have "\<exists>c. turn (\<tau> m) c" if "n \<le> m" for m
    using on tail that by (metis trans_le_add2)
  with assms(1) obtain m where m: "n \<le> m" "turn (\<tau> m) (\<tau> (Suc m))" unfolding weakly_fair_def by blast
  with tail have "turn (\<sigma> (N + m)) (\<sigma> (Suc (N + m)))" by (metis add_Suc_right)
  with m(1) show "\<exists>m\<ge>n. turn (\<sigma> m) (\<sigma> (Suc m))" by (intro exI [of _ "N + m"]) simp
qed

lemma never_enabled_fair:
  assumes "\<And>n. \<nexists>c. turn (\<tau> (N + n)) c"
  shows "weakly_fair turn \<tau>"
  using assms unfolding weakly_fair_def by (meson le_add1 le_add2)

lemma infinite_run_mono: "infinite_run moves \<sigma> \<Longrightarrow> (\<And>a b. moves a b \<Longrightarrow> moves' a b) \<Longrightarrow> infinite_run moves' \<sigma>"
  by (auto simp: infinite_run_def)

section \<open>An artifact request\<close>







section \<open>An index request\<close>

definition waiter_kept :: "nat \<Rightarrow> nat \<Rightarrow> ('n, 's) cluster \<Rightarrow> bool" where
  "waiter_kept k i c \<longleftrightarrow>
     wd_status (cl_nodes c k) \<noteq> Crashed \<and>
     (\<exists>ph. wd_index (cl_nodes c k) i = Some ph \<and> (\<nexists>tp t. ph = Sending tp t))"

text \<open>The refresher deals with the one message there is.\<close>

lemma refresher_to_answer:
  assumes "wd_status (cl_nodes c k) = Waiting" and "unanswered (cl_nodes c k) = [m]" and "waiter_kept k i c"
    and "url_parse (sv_upstream (sv k)) (discovery_url (tp_hostname (rq_provider m)) (sv_port (sv k))) \<noteq> None"
  shows "\<exists>c'. (\<lambda>a b. refresher_moved sv k a b \<and> waiter_kept k i b)\<^sup>*\<^sup>* c c' \<and> unanswered (cl_nodes c' k) = []"
  using assms(1-3)
proof (induction "pieces_left (cl_nodes c k)" arbitrary: c rule: less_induct)
  case less
  have unanswered: "unanswered (node k c) = [m]" and left: "pieces_left (node k c) = pieces_left (cl_nodes c k)"
    using less.prems(2) by (simp_all add: pieces_left_def)
  then obtain s where s: "refresh_step (sv k) (node k c) = Some s" using refresh_step_enabled [of "node k c" "sv k"] by auto
  with less.prems(1) have turn: "refresher_moved sv k c (put_node k s c)" by (rule moved)
  from s show ?case
  proof (cases rule: refresh_step_cases)
    case moved
    with less.prems have kept: "waiter_kept k i (put_node k s c)" by (simp add: waiter_kept_def)
    with less.hyps [of "put_node k s c"] moved less.prems(1) unanswered left obtain c' where
        "(\<lambda>a b. refresher_moved sv k a b \<and> waiter_kept k i b)\<^sup>*\<^sup>* (put_node k s c) c'" "unanswered (cl_nodes c' k) = []"
      by auto
    with turn kept show ?thesis by (blast intro: converse_rtranclp_into_rtranclp)
  next
    case (answered q resp)
    with less.prems(3) have "waiter_kept k i (put_node k s c)"
      by (auto simp: waiter_kept_def deliver_def split: option.split index_phase.split)
    with turn have "(\<lambda>a b. refresher_moved sv k a b \<and> waiter_kept k i b)\<^sup>*\<^sup>* c (put_node k s c)" by blast
    with answered(1) unanswered show ?thesis by (intro exI [of _ "put_node k s c"]) simp
  next
    case (crashed q)
    with unanswered assms(4) show ?thesis by (simp add: unanswered_def)
  qed
qed

text \<open>Then only the clock goes on.\<close>

definition clock_at :: "nat \<Rightarrow> ('n, 's) cluster \<Rightarrow> nat \<Rightarrow> ('n, 's) cluster" where
  "clock_at k c j = put_node k ((node k c)\<lparr>wd_time := wd_time (cl_nodes c k) + j\<rparr>) c"

lemma clock_at_simps [simp]:
  "wd_time (cl_nodes (clock_at k c j) k) = wd_time (cl_nodes c k) + j"
  "wd_index (cl_nodes (clock_at k c j) k) = wd_index (cl_nodes c k)"
  "wd_status (cl_nodes (clock_at k c j) k) = wd_status (cl_nodes c k)"
  "unanswered (cl_nodes (clock_at k c j) k) = unanswered (cl_nodes c k)"
  by (simp_all add: clock_at_def unanswered_def)

lemma clock_at_node:
  "node k (clock_at k c j) = (node k c)\<lparr>wd_time := wd_time (cl_nodes c k) + j\<rparr>"
  "put_node k s (clock_at k c j) = put_node k s c"
  unfolding clock_at_def put_node_simps by (simp_all add: put_node_def)

lemma clock_runs:
  assumes "wd_status (cl_nodes c k) \<noteq> Crashed"
  shows "infinite_run (cluster_step sv) (clock_at k c)" and "cluster_step sv c (clock_at k c 0)"
proof -
  have "cluster_step sv (clock_at k c j) (clock_at k c (Suc j))" for j
  proof -
    have "step (sv k) (node k (clock_at k c j)) ((node k (clock_at k c j))\<lparr>wd_time := wd_time (cl_nodes c k) + Suc j\<rparr>)"
      using assms by (intro step.tick) simp_all
    from cluster_step.turn [of sv, OF this] show ?thesis
      unfolding clock_at_node clock_at_def [of k c "Suc j"] by simp
  qed
  then show "infinite_run (cluster_step sv) (clock_at k c)" by (simp add: infinite_run_def)
  have "step (sv k) (node k c) ((node k c)\<lparr>wd_time := wd_time (cl_nodes c k) + 0\<rparr>)"
    using assms by (intro step.tick) simp_all
  from cluster_step.turn [of sv, OF this] show "cluster_step sv c (clock_at k c 0)" by (simp add: clock_at_def)
qed

lemma idle_refresher_still: "unanswered (cl_nodes c k) = [] \<Longrightarrow> \<not> refresher_moved sv k c c'"
  by (auto simp: refresher_moved.simps refresh_step_def recv_def unanswered_def split: refresh_phase.splits)

lemma waiter_kept_not_sending: "waiter_kept k i c \<Longrightarrow> \<not> send_tried sv k i c c'"
  by (auto simp: waiter_kept_def send_tried.simps)

lemma fair_waiter_run:
  assumes run: "cluster_run sv (cluster_boot db nts st) c" and "wd_status (cl_nodes c k) = Waiting"
    and "unanswered (cl_nodes c k) = [m]" and "waiter_kept k i c"
    and "url_parse (sv_upstream (sv k)) (discovery_url (tp_hostname (rq_provider m)) (sv_port (sv k))) \<noteq> None"
  obtains \<sigma> n where "infinite_run (cluster_step sv) \<sigma>" and "\<sigma> 0 = cluster_boot db nts st" and "\<sigma> n = c"
    and "weakly_fair (send_tried sv k i) \<sigma>" and "weakly_fair (refresher_moved sv k) \<sigma>"
    and "\<forall>time. \<exists>m\<ge>n. time \<le> wd_time (cl_nodes (\<sigma> m) k)" and "\<forall>m\<ge>n. waiter_kept k i (\<sigma> m)"
proof -
  let ?moves = "\<lambda>a b. cluster_step sv a b \<and> waiter_kept k i b"
  obtain d where d: "(\<lambda>a b. refresher_moved sv k a b \<and> waiter_kept k i b)\<^sup>*\<^sup>* c d" "unanswered (cl_nodes d k) = []"
    using refresher_to_answer [of c k m i sv] assms(2-5) by blast
  have steps: "?moves\<^sup>*\<^sup>* c d"
    using d(1) by (rule rtranclp_mono [THEN predicate2D, rotated]) (auto intro: refresher_moved_step)
  then have kept: "waiter_kept k i d" using assms(4) by (induction rule: rtranclp_induct) simp_all
  then have clock: "waiter_kept k i (clock_at k d j)" for j by (simp add: waiter_kept_def)
  have "?moves\<^sup>*\<^sup>* c (clock_at k d 0)"
    using steps clock_runs(2) [of d k sv] kept clock [of 0] by (auto simp: waiter_kept_def intro: rtranclp.rtrancl_into_rtrancl)
  moreover have "infinite_run ?moves (clock_at k d)"
    using clock_runs(1) [of d k sv] kept clock unfolding infinite_run_def waiter_kept_def by blast
  ultimately obtain \<tau> M where t: "infinite_run ?moves \<tau>" "\<tau> 0 = c" "\<forall>n. \<tau> (M + n) = clock_at k d n"
    using run_after [of ?moves c "clock_at k d"] by blast
  have kept: "waiter_kept k i (\<tau> n)" for n
    using t(1,2) assms(4) by (induction n) (auto simp: infinite_run_def, metis)
  have send: "weakly_fair (send_tried sv k i) \<tau>"
    using kept waiter_kept_not_sending by (intro never_enabled_fair [of _ \<tau> 0]) blast
  have refresh: "weakly_fair (refresher_moved sv k) \<tau>"
  proof (rule never_enabled_fair [of _ \<tau> M])
    show "\<nexists>a. refresher_moved sv k (\<tau> (M + n)) a" for n
      using t(3) d(2) idle_refresher_still [of "clock_at k d n" k sv] by simp
  qed
  have "infinite_run (cluster_step sv) \<tau>" using t(1) by (rule infinite_run_mono) simp
  with run_after [of "cluster_step sv" "cluster_boot db nts st" \<tau>] run t(2) obtain \<sigma> N where
      s: "infinite_run (cluster_step sv) \<sigma>" "\<sigma> 0 = cluster_boot db nts st" "\<forall>n. \<sigma> (N + n) = \<tau> n" by auto
  have "\<exists>m\<ge>N. time \<le> wd_time (cl_nodes (\<sigma> m) k)" for time
    using s(3) t(3) by (intro exI [of _ "N + (M + time)"]) simp
  moreover have "\<forall>m\<ge>N. waiter_kept k i (\<sigma> m)" using s(3) kept by (metis le_Suc_ex)
  moreover have "\<sigma> N = c" using s(3) t(2) by (metis add_0_right)
  ultimately show ?thesis
    using that s(1,2) weakly_fair_after [OF send s(3)] weakly_fair_after [OF refresh s(3)] by blast
qed

theorem index_requests_answered_witness:
  "\<exists>\<sigma> n m r. infinite_run (cluster_step (\<lambda>_. sample_server)) \<sigma> \<and> \<sigma> 0 = sample_cluster \<and> n \<le> m \<and>
    wd_index (cl_nodes (\<sigma> n) 0) 0 = Some (Awaiting waiting_provider) \<and>
    wd_index (cl_nodes (\<sigma> m) 0) 0 = Some (Responded r)"
proof -
  obtain c where c: "cluster_run (\<lambda>_. sample_server) sample_cluster c" "node 0 c = waiting_world" by (rule waiting_cluster)
  have url: "discovery_url ''w'' 443 = ''https://w:443/.well-known/terraform.json''" by code_simp
  have waits: "wd_status (cl_nodes c 0) = Waiting" "wd_index (cl_nodes c 0) 0 = Some (Awaiting waiting_provider)"
    using arg_cong [OF c(2), of wd_status] arg_cong [OF c(2), of wd_index] by (simp_all add: world_defs)
  have "unanswered waiting_world = [\<lparr>rq_provider = waiting_provider, rq_response_channel = Some 0\<rparr>]"
    by (simp add: unanswered_def waiting_world_def sending_world_def sample_world_def boot_def)
  then have one: "unanswered (cl_nodes c 0) = [\<lparr>rq_provider = waiting_provider, rq_response_channel = Some 0\<rparr>]"
    using arg_cong [OF c(2), of unanswered] by simp
  have "waiter_kept 0 0 c" using waits by (simp add: waiter_kept_def)
  from fair_waiter_run [OF c(1) [unfolded sample_cluster_def] waits(1) one this] obtain \<sigma> n where
      s: "infinite_run (cluster_step (\<lambda>_. sample_server)) \<sigma>" "\<sigma> 0 = cluster_boot sample_db (\<lambda>_. sample_net) sample_s3" "\<sigma> n = c"
        "weakly_fair (send_tried (\<lambda>_. sample_server) 0 0) \<sigma>" "weakly_fair (refresher_moved (\<lambda>_. sample_server) 0) \<sigma>"
        "\<forall>time. \<exists>m\<ge>n. time \<le> wd_time (cl_nodes (\<sigma> m) 0)" "\<forall>m\<ge>n. waiter_kept 0 0 (\<sigma> m)"
    by (auto simp: waiting_provider_def sample_server_def url)
  have "\<forall>m\<ge>n. wd_index (cl_nodes (\<sigma> m) 0) 0 \<noteq> None \<and> wd_status (cl_nodes (\<sigma> m) 0) \<noteq> Crashed"
    using s(7) by (auto simp: waiter_kept_def)
  from index_requests_answered [OF s(1,2,4-6) this] s(1-3) waits show ?thesis by (auto simp: sample_cluster_def)
qed

end
