(* ===== verification/Spec2Isabelle.thy ===== *)
theory Spec2Isabelle
  imports Deployment_Witnesses Fair_Witnesses
begin

text \<open>
  Terrashine: a caching mirror for Terraform providers.

  The program. A Terraform client asks the mirror for the versions of a provider
  (\<^verbatim>\<open>index.json\<close>), for the archives of one version (\<^verbatim>\<open><version>.json\<close>), and for an
  archive (\<^verbatim>\<open>artifacts/<id>\<close>). The catalogue of versions is in PostgreSQL and is filled
  from the provider's own registry by one background task, the refresher; archives are streamed
  into an S3 bucket the first time they are asked for and redirected to from then on. A small
  API stores the tokens the mirror sends upstream.

  Where it is modelled, from the bottom up (paths are those of the repository).
  \<^item> Prelude, Rust_Text: results, panics and the text functions of Rust's standard library the
    code uses (\<^verbatim>\<open>strip_suffix\<close>, \<^verbatim>\<open>ends_with\<close>, decimal printing, \<^verbatim>\<open>parse::<i64>\<close>).
  \<^item> Errors: \<^verbatim>\<open>src/error.rs\<close>, with the opaque errors of the libraries. Json: JSON values, and what
    \<^verbatim>\<open>derive(Deserialize)\<close> and \<^verbatim>\<open>derive(Serialize)\<close> make of the structs and maps of the code.
  \<^item> Database: \<^verbatim>\<open>migrations\<close>. A record of the three tables and four sequences; \<open>pg_wf\<close> is
    every constraint of the schema. A statement is a function on it, and \<open>send_statement\<close> lets an
    adversary's list of faults fail it before or after it took effect, so a theorem over all
    states is one over all failures of the database.
  \<^item> Credentials: \<^verbatim>\<open>src/credhelper\<close>. The trait is a record of operations; the locale
    \<open>credential_store\<close> states what its clients rely on, with failures allowed, and
    \<open>exact_credential_store\<close> adds that operations succeed. The database, the in-memory map and the
    faulty store are interpretations.
  \<^item> Credential_Api: \<^verbatim>\<open>src/http/api\<close>, and its refinement of a plain table.
  \<^item> Registry: \<^verbatim>\<open>src/registry\<close>. The HTTP client, \<^verbatim>\<open>Url::parse\<close>,
    \<^verbatim>\<open>Url::join\<close> and the parser of JSON texts are the fields of \<open>upstream\<close>; a log of the requests
    sent stands beside the opaque state of the network. A body is the list of its chunks, each a
    failure or bytes.
  \<^item> Catalog: the database half of \<^verbatim>\<open>src/http/index.rs\<close> (listing, storing, refreshing) and
    its abstract specification, the locale \<open>version_catalog\<close>.
  \<^item> Refresher: \<^verbatim>\<open>src/refresh.rs\<close>; Refresh_Pieces: one message of it cut at its waits.
    Index_Endpoint: the handler of \<^verbatim>\<open>src/http/index.rs\<close>, cut at its waits too, with the bounded
    channel. Version_Endpoint: \<^verbatim>\<open>src/http/version.rs\<close>.
  \<^item> Uploads, Artifacts: \<^verbatim>\<open>src/http/artifacts.rs\<close>; the S3 client is a record of operations with a
    log of the calls made. Artifact_Requests: the same handler cut at its waits, down to single calls
    of the upload. Artifact_Safety and Artifact_Content: what any number of such requests, in any
    interleaving, keep of the tables and the bucket, and of the bytes of each archive.
  \<^item> Mirror_System: all of these over one shared state, as a step relation of one server.
    Cluster: several such servers on one database and one bucket, each of which may be restarted at
    any time, the deployment the documentation recommends for high availability. Token_Flow: the
    requests they send, and the tokens in them. First_Index: a first request through all the parts of
    the server. Artifact_Progress: how their artifact requests end. Fairness: that
    requests end on every fair run.
    Protocol_Flow: what a client gets that follows the index to an archive.
  \<^item> Mirror_Spec: the specification of a deployment, two tables of links and credentials with four
    kinds of events, which Cluster refines. Download_Success and Install: total correctness, that a
    download and a whole installation succeed where nothing fails.
  \<^item> Config, Router: \<^verbatim>\<open>src/config.rs\<close>, \<^verbatim>\<open>src/app.rs\<close>. Lifecycle: the accept loop and the
    commands of \<^verbatim>\<open>src/lib.rs\<close>, \<^verbatim>\<open>migrate.rs\<close> and \<^verbatim>\<open>healthy.rs\<close>. Process: \<^verbatim>\<open>main.rs\<close> as a
    step relation around the server, with its start, signals, the cancellation token and the exit code.
  \<^item> Conformance: the repository's own unit tests, credential store tests and server tests as truth values
    over the model, all of which hold.
  \<^item> Samples, Witnesses, System_Witnesses, Deployment_Witnesses, Fair_Witnesses: concrete databases,
    registries, buckets and runs at which the properties are applied.

  How the parts meet. Index handlers and the refresher share the channel of 10000 messages and
  the one-shot replies; everything shares the tables. The index handler reads the listing and, if
  there is none, sends and waits; the refresher calls the registry client, which reads the token
  of the host, and stores the answer; the version endpoint only reads; the artifact endpoint reads
  a row, calls the registry client, uploads, and writes the artifact's id to the row, and other
  requests, for the same row too, get their turns in between.

  What the lemmas show. The catalogue and the credential table refine abstract maps, through the
  locales named above; every operation keeps \<open>pg_wf\<close> whatever fails. The upload loop is compared
  with a two-pass reference and its calls with the inductive protocol \<open>upload_trace\<close>; what S3
  documents of multipart uploads is stated as \<open>s3_uploads\<close> and \<open>s3_completes\<close>, and shown to hold of
  a small bucket in Samples. The refresher's history is related to the messages and the clock. In
  Mirror_System, invariants of all reachable states say that no waiting handler is lost and that
  the tables and the bucket stay in step. In Cluster the requests of all servers are gathered into
  one map, so that a step of any server is a step of one server with all requests; from there the
  invariants carry over: every redirect given still resolves, an archive on record keeps its
  bytes, what is recorded is what was fetched, a token goes only into requests for its own host, and
  every artifact request can be finished. Fairness turns "can be" into "is": on an infinite run on
  which a task that can go on gets its turn again, requests for an index and for an archive come to
  their answers. The locale \<open>fair_task\<close> holds the argument, a well-founded rank that turns lower and
  other steps do not raise; a request's pieces, a handler's attempts to send and the messages
  before its own in the channel are its instances. Mirror_Spec describes the deployment as a whole
  and is implemented by forward simulation: the tables, the sequences and the bucket are read as a mirror
  (\<open>mirror_of\<close>), each step of a server is one event of the specification or none, and what
  follows from the specification alone (a link keeps its meaning, a platform has one link) holds
  of the servers. None of this says that an answer is a success; Download_Success proves that it
  is one where nothing fails, from what S3 documents to accept (\<open>s3_accepts\<close>), so that the proof is that the upload
  keeps to S3's limits on part numbers, sizes and order. In Process, exit codes are accounted for and a
  signal leads to an orderly end.

  Bounds. The body limits are 16 KiB and 8 MiB, as in the code; parts are cut at 10 MiB; part
  numbers are 32-bit words, and the theorem that names stored objects assumes a body below
  \<open>2 ^ 32\<close> parts, which no object reaches; a download is proved to succeed up to 10000 parts, S3's
  own limit. Identity columns end at the largest 64-bit integer,
  where \<^verbatim>\<open>nextval\<close> fails. Times are milliseconds. No definition takes fuel: streams are finite
  lists, \<open>run_pieces\<close> ends because every piece lowers \<open>phase_rank\<close>, and the endless body of \<open>read_body_limit_cuts_off\<close> is every prefix of a sequence of chunks.

  Assumptions that stand for code outside of the repository are hypotheses by name:
  \<open>s3_uploads\<close>, \<open>s3_completes\<close>, \<open>s3_apart\<close> and \<open>s3_accepts\<close> (S3: what calls do to objects and parts,
  that multipart uploads do not touch each other, and what it does not refuse), \<open>bounded_bodies\<close> (response bodies below the part
  bound, where a theorem names the stored bytes of the handler run alone), \<open>same_deployment\<close> (the
  servers share registry client and bucket), \<open>weakly_fair\<close> (the executor polls a task that can go on),
  and those on \<open>url_parse\<close> where a theorem reads a URL.

  Not modelled, and why.
  \<^item> Tracing and the collection of metrics: output that no answer depends on but the metrics page,
    which renders what the recorder has.
  \<^item> Hyper and axum beyond routes, methods and parameters: HTTP framing, body size limits and
    rejections of malformed JSON belong to those libraries.
  \<^item> The texts of JSON values, which \<^verbatim>\<open>serde_json\<close> parses and writes, and the order in which a hash
    map is written, which is an argument.
  \<^item> PostgreSQL's refusal of text with a NUL byte, which appears here as one more fault.
  \<^item> Waits inside one fetch of a listing or of an archive's address, and inside one transaction:
    each of these is one step, so runs in which another request comes between two of their
    statements are not among those considered. Two transactions that store listings of one provider
    are serialised by the row lock its upsert takes, which is their first statement. Where \<^verbatim>\<open>try_join!\<close> drops a half that has begun, the
    half counts as not begun.
  \<^item> The end-to-end test that runs the terraform binary.
  \<^item> The clients that \<^verbatim>\<open>setup_server\<close> makes are their settings; the AWS credentials that are
    looked up in the environment and the build script are left out. The recorder and the signal
    handlers that main installs are there as answers of the platform, which may fail.
\<close>

end
